(* ===== verification/Xv6_Prelude.thy ===== *)
theory Xv6_Prelude
  imports Main "HOL-Library.Word"
begin

unbundle bit_operations_syntax

text \<open>
  Shared vocabulary of the development: the C integer types of \<^verbatim>\<open>kernel/types.h\<close>
  as words of their width, the result type of fallible kernel code with its sequencing
  combinator, little-endian byte encodings, a byte-addressed memory, and the generic lemmas
  on lists, words and loops that the component theories use.
\<close>

section \<open>Integer types of the kernel\<close>

type_synonym uchar = "8 word"
type_synonym ushort = "16 word"
type_synonym uint = "32 word"
type_synonym uint64 = "64 word"

section \<open>Collections of facts\<close>

named_theorems kdefs \<open>unfolding rules of small kernel operations\<close>
named_theorems kframe \<open>what an operation leaves unchanged\<close>
named_theorems addr_simps \<open>address arithmetic on words\<close>

section \<open>Results\<close>

text \<open>
  A kernel function returns \<^term>\<open>Inr (r, s)\<close>, its result and the new state, or stops with
  \<^term>\<open>Inl e\<close>: a panic, a lock that spins, a process that goes to sleep.
\<close>

definition bindE :: "'e + 'a \<times> 's \<Rightarrow> ('a \<Rightarrow> 's \<Rightarrow> 'e + 'b \<times> 's) \<Rightarrow> 'e + 'b \<times> 's" where
  "bindE m f = (case m of Inl e \<Rightarrow> Inl e | Inr (a, s) \<Rightarrow> f a s)"

definition ret :: "'a \<Rightarrow> 's \<Rightarrow> 'e + 'a \<times> 's" where
  "ret a s = Inr (a, s)"

lemma bindE_Inr [simp]: "bindE (Inr (a, s)) f = f a s"
  by (simp add: bindE_def)

lemma bindE_Inl [simp]: "bindE (Inl e) f = Inl e"
  by (simp add: bindE_def)

lemma bindE_eq_Inr_iff:
  "bindE m f = Inr r \<longleftrightarrow> (\<exists>a s. m = Inr (a, s) \<and> f a s = Inr r)"
  by (auto simp: bindE_def split: sum.splits prod.splits)

lemma bindE_InrE:
  assumes "bindE m f = Inr r"
  obtains a s where "m = Inr (a, s)" and "f a s = Inr r"
  using assms by (auto simp: bindE_eq_Inr_iff)

lemma bindE_cong [fundef_cong]:
  assumes "m = m'" and "\<And>a s. m' = Inr (a, s) \<Longrightarrow> f a s = f' a s"
  shows "bindE m f = bindE m' f'"
  using assms by (auto simp: bindE_def split: sum.splits prod.splits)

lemma bindE_assoc: "bindE (bindE m f) g = bindE m (\<lambda>a s. bindE (f a s) g)"
  by (auto simp: bindE_def split: sum.splits prod.splits)

lemma ret_eq_Inr [simp]: "ret a s = Inr r \<longleftrightarrow> r = (a, s)"
  by (auto simp: ret_def)

lemma ret_neq_Inl [simp]: "ret a s \<noteq> Inl e"
  by (simp add: ret_def)

lemma bindE_ret [simp]: "bindE (ret a s) f = f a s"
  by (simp add: ret_def)

section \<open>Words\<close>

lemma unat_ucast_up [simp]:
  assumes "LENGTH('a::len) \<le> LENGTH('b::len)"
  shows "unat (ucast (w :: 'a word) :: 'b word) = unat w"
proof -
  have "unat w < 2 ^ LENGTH('a)" by (rule unsigned_less)
  also have "\<dots> \<le> 2 ^ LENGTH('b)" using assms by simp
  finally show ?thesis by (simp add: unsigned_ucast_eq take_bit_nat_eq_self)
qed

lemma unat_add_no_wrap:
  fixes a b :: "'a::len word"
  shows "unat a + unat b < 2 ^ LENGTH('a) \<Longrightarrow> unat (a + b) = unat a + unat b"
  by (simp add: unat_word_ariths)

lemma unat_sub_le:
  fixes a b :: "'a::len word"
  shows "b \<le> a \<Longrightarrow> unat (a - b) = unat a - unat b"
  by (simp add: unat_sub)

section \<open>Little-endian encodings\<close>

primrec word_of_bytes :: "uchar list \<Rightarrow> 'a::len word" where
  "word_of_bytes [] = 0"
| "word_of_bytes (b # bs) = ucast b OR push_bit 8 (word_of_bytes bs)"

definition bytes_of_word :: "nat \<Rightarrow> 'a::len word \<Rightarrow> uchar list" where
  "bytes_of_word n w = map (\<lambda>i. ucast (drop_bit (8 * i) w)) [0..<n]"

lemma length_bytes_of_word [simp]: "length (bytes_of_word n w) = n"
  by (simp add: bytes_of_word_def)

lemma nth_bytes_of_word [simp]:
  "i < n \<Longrightarrow> bytes_of_word n w ! i = ucast (drop_bit (8 * i) w)"
  by (simp add: bytes_of_word_def)

lemma bit_word_of_bytes:
  "bit (word_of_bytes bs :: 'a::len word) n \<longleftrightarrow>
     n < LENGTH('a) \<and> n div 8 < length bs \<and> bit (bs ! (n div 8)) (n mod 8)"
proof (induction bs arbitrary: n)
  case Nil
  then show ?case by simp
next
  case (Cons b bs)
  show ?case
  proof (cases "n < 8")
    case True
    then show ?thesis by (auto simp: bit_simps)
  next
    case False
    then obtain m where m: "n = m + 8"
      by (metis add.commute le_Suc_ex not_less)
    have "\<not> bit b n"
      using False by (auto dest: bit_imp_le_length)
    moreover have "(m + 8) div 8 = Suc (m div 8)" by simp
    ultimately show ?thesis
      unfolding m using Cons.IH [of m] by (auto simp: bit_simps simp del: div_add_self2)
  qed
qed

lemma word_of_bytes_of_word [simp]:
  assumes "LENGTH('a) \<le> 8 * n"
  shows "word_of_bytes (bytes_of_word n (w :: 'a::len word)) = w"
proof (rule bit_word_eqI)
  fix k
  assume k: "k < LENGTH('a)"
  then have "k div 8 < n"
    using assms by (simp add: less_mult_imp_div_less mult.commute)
  with k show "bit (word_of_bytes (bytes_of_word n w) :: 'a word) k = bit w k"
    by (auto simp: bit_word_of_bytes bit_simps)
qed

lemma bytes_of_word_of_bytes [simp]:
  assumes "length bs = n" and "8 * n \<le> LENGTH('a)"
  shows "bytes_of_word n (word_of_bytes bs :: 'a::len word) = bs"
proof (rule nth_equalityI)
  show "length (bytes_of_word n (word_of_bytes bs :: 'a word)) = length bs"
    using assms by simp
next
  fix i
  assume "i < length (bytes_of_word n (word_of_bytes bs :: 'a word))"
  then have i: "i < n" by simp
  show "bytes_of_word n (word_of_bytes bs :: 'a word) ! i = bs ! i"
  proof (rule bit_word_eqI)
    fix k
    assume "k < LENGTH(8)"
    then have k: "k < 8" by simp
    have "8 * i + k < LENGTH('a)"
      using i k assms by simp
    moreover have "(8 * i + k) div 8 = i" and "(8 * i + k) mod 8 = k"
      using k by simp_all
    ultimately show "bit (bytes_of_word n (word_of_bytes bs :: 'a word) ! i) k = bit (bs ! i) k"
      using i k assms by (simp add: bit_simps bit_word_of_bytes)
  qed
qed

lemma word_of_bytes_take_eq:
  "length bs = n \<Longrightarrow> word_of_bytes (take n (bs @ cs)) = word_of_bytes bs"
  by simp

section \<open>Byte-addressed memory\<close>

text \<open>
  Physical memory maps 64-bit addresses to bytes. The kernel direct-maps RAM, so a kernel
  pointer into RAM is its physical address. Offsets are computed with wrap-around, as the
  machine does; \<^term>\<open>x - a < n\<close> says that \<^term>\<open>x\<close> lies in the \<^term>\<open>n\<close> bytes from \<^term>\<open>a\<close>.
\<close>

type_synonym memory = "uint64 \<Rightarrow> uchar"

definition load_bytes :: "memory \<Rightarrow> uint64 \<Rightarrow> nat \<Rightarrow> uchar list" where
  "load_bytes m a n = map (\<lambda>i. m (a + of_nat i)) [0..<n]"

primrec store_bytes :: "memory \<Rightarrow> uint64 \<Rightarrow> uchar list \<Rightarrow> memory" where
  "store_bytes m a [] = m"
| "store_bytes m a (b # bs) = store_bytes (m(a := b)) (a + 1) bs"

definition load64 :: "memory \<Rightarrow> uint64 \<Rightarrow> uint64" where
  "load64 m a = word_of_bytes (load_bytes m a 8)"

definition store64 :: "memory \<Rightarrow> uint64 \<Rightarrow> uint64 \<Rightarrow> memory" where
  "store64 m a v = store_bytes m a (bytes_of_word 8 v)"

lemma length_load_bytes [simp]: "length (load_bytes m a n) = n"
  by (simp add: load_bytes_def)

lemma nth_load_bytes [simp]: "i < n \<Longrightarrow> load_bytes m a n ! i = m (a + of_nat i)"
  by (simp add: load_bytes_def)

lemma load_bytes_0 [simp]: "load_bytes m a 0 = []"
  by (simp add: load_bytes_def)

lemma load_bytes_add:
  "load_bytes m a (i + j) = load_bytes m a i @ load_bytes m (a + of_nat i) j"
  by (rule nth_equalityI) (auto simp: nth_append algebra_simps)

lemma unat_sub_eq_iff:
  fixes x a :: "'a::len word"
  assumes "i < 2 ^ LENGTH('a)"
  shows "unat (x - a) = i \<longleftrightarrow> x = a + of_nat i"
proof
  assume "unat (x - a) = i"
  then have "x - a = of_nat i" by (metis word_unat_eq_iff unat_of_nat mod_less assms)
  then show "x = a + of_nat i" by (metis add.commute diff_add_cancel)
next
  assume "x = a + of_nat i"
  then show "unat (x - a) = i" using assms by (simp add: unat_of_nat)
qed

lemma store_bytes_apply:
  assumes "length bs \<le> 2 ^ 64"
  shows "store_bytes m a bs x =
    (if unat (x - a) < length bs then bs ! unat (x - a) else m x)"
  using assms
proof (induction bs arbitrary: m a)
  case Nil
  then show ?case by simp
next
  case (Cons b bs)
  have IH: "store_bytes (m(a := b)) (a + 1) bs x =
    (if unat (x - (a + 1)) < length bs then bs ! unat (x - (a + 1)) else (m(a := b)) x)"
    using Cons by simp
  show ?case
  proof (cases "x = a")
    case True
    have "unat (x - (a + 1)) = 2 ^ 64 - 1"
      using True by (simp add: unsigned_minus_1_eq_mask mask_eq_exp_minus_1)
    moreover have "length bs \<le> 2 ^ 64 - 1"
      using Cons.prems by simp
    ultimately have "\<not> unat (x - (a + 1)) < length bs"
      by simp
    then show ?thesis using True IH by simp
  next
    case False
    then have nz: "x - a \<noteq> 0" by simp
    have eq: "x - (a + 1) = (x - a) - 1" by simp
    have "unat (x - (a + 1)) = unat (x - a) - 1"
      unfolding eq by (rule unat_minus_one [OF nz])
    moreover have "unat (x - a) > 0"
      using nz by (simp add: unat_gt_0)
    ultimately have "unat (x - a) = Suc (unat (x - (a + 1)))" by simp
    then show ?thesis using False IH by simp
  qed
qed

lemma load_store_bytes_same:
  assumes "length bs \<le> 2 ^ 64"
  shows "load_bytes (store_bytes m a bs) a (length bs) = bs"
proof (rule nth_equalityI)
  fix i
  assume "i < length (load_bytes (store_bytes m a bs) a (length bs))"
  then have i: "i < length bs" by simp
  then have "unat (of_nat i :: uint64) = i"
    using assms by (simp add: unat_of_nat)
  with i assms show "load_bytes (store_bytes m a bs) a (length bs) ! i = bs ! i"
    by (simp add: store_bytes_apply)
qed simp

lemma load_bytes_cong:
  assumes "\<And>i. i < n \<Longrightarrow> m (a + of_nat i) = m' (a + of_nat i)"
  shows "load_bytes m a n = load_bytes m' a n"
  using assms by (auto simp: load_bytes_def)

lemma load64_store64_same [simp]: "load64 (store64 m a v) a = v"
  using load_store_bytes_same [of "bytes_of_word 8 v" m a]
  by (simp add: load64_def store64_def)

lemma store64_apply:
  "store64 m a v x =
    (if unat (x - a) < 8 then ucast (drop_bit (8 * unat (x - a)) v) else m x)"
  by (simp add: store64_def store_bytes_apply)

lemma load64_zero: "load64 (\<lambda>_. 0) a = 0"
proof -
  have "word_of_bytes (map (\<lambda>_. 0) xs) = 0" for xs :: "nat list"
    by (induction xs) simp_all
  then show ?thesis by (simp add: load64_def load_bytes_def)
qed

end
