(* ===== verification/Kstate.thy ===== *)
theory Kstate
  imports Xv6_Prelude
begin

text \<open>
  The kernel's data: the constants of \<^verbatim>\<open>param.h\<close>, \<^verbatim>\<open>memlayout.h\<close>, \<^verbatim>\<open>riscv.h\<close> and
  \<^verbatim>\<open>fs.h\<close>, one record per struct of the headers, and the record \<open>kstate\<close> of all global
  variables of the kernel together with the machine it runs on (harts, physical memory,
  disk). A pointer to an element of a static array (\<^verbatim>\<open>struct proc *\<close>,
  \<^verbatim>\<open>struct buf *\<close>, \<^verbatim>\<open>struct inode *\<close>, \<^verbatim>\<open>struct file *\<close>) is the index of the element, and
  a pointer that may be null is an option; a pointer into RAM that the code does arithmetic
  on (pages, page tables) is a 64-bit address, with 0 for null. C \<^verbatim>\<open>uint\<close> and
  \<^verbatim>\<open>uint64\<close> fields keep their width; C \<^verbatim>\<open>int\<close> fields are integers where the
  code never comes near their limits.
\<close>

section \<open>Constants\<close>

definition NPROC :: nat where "NPROC = 64"
definition NOFILE :: nat where "NOFILE = 16"
definition NFILE :: nat where "NFILE = 100"
definition NINODE :: nat where "NINODE = 50"
definition NDEV :: int where "NDEV = 10"
definition ROOTDEV :: uint where "ROOTDEV = 1"
definition MAXARG :: nat where "MAXARG = 32"
definition MAXOPBLOCKS :: nat where "MAXOPBLOCKS = 10"
definition LOGSIZE :: nat where "LOGSIZE = MAXOPBLOCKS * 3"
definition NBUF :: nat where "NBUF = MAXOPBLOCKS * 3"
definition MAXPATH :: nat where "MAXPATH = 128"
definition USERSTACK :: uint64 where "USERSTACK = 1"

definition PGSIZE :: uint64 where "PGSIZE = 4096"
definition MAXVA :: uint64 where "MAXVA = push_bit (9 + 9 + 9 + 12 - 1) 1"
definition KERNBASE :: uint64 where "KERNBASE = 0x80000000"
definition PHYSTOP :: uint64 where "PHYSTOP = KERNBASE + 128 * 1024 * 1024"
definition TRAMPOLINE :: uint64 where "TRAMPOLINE = MAXVA - PGSIZE"
definition TRAPFRAME :: uint64 where "TRAPFRAME = TRAMPOLINE - PGSIZE"
definition KSTACK :: "nat \<Rightarrow> uint64" where
  "KSTACK p = TRAMPOLINE - (of_nat p + 1) * 2 * PGSIZE"

definition UART0 :: uint64 where "UART0 = 0x10000000"
definition VIRTIO0 :: uint64 where "VIRTIO0 = 0x10001000"
definition PLIC :: uint64 where "PLIC = 0x0c000000"

definition SSTATUS_SPP :: uint64 where "SSTATUS_SPP = push_bit 8 1"
definition SSTATUS_SPIE :: uint64 where "SSTATUS_SPIE = push_bit 5 1"
definition SSTATUS_SIE :: uint64 where "SSTATUS_SIE = push_bit 1 1"

definition BSIZE :: nat where "BSIZE = 1024"
definition PIPESIZE :: uint where "PIPESIZE = 512"

section \<open>Locks and channels\<close>

text \<open>
  Every spinlock of the kernel by its place: the static ones by name, those inside array
  elements by the element's index, and a pipe's by the address of its page. A channel is an
  address that processes sleep on; distinct constructors are distinct addresses.
\<close>

datatype lockid =
    KmemLock | PidLock | WaitLock | ProcLock nat | TicksLock
  | BcacheLock | BufSpin nat | LogLock | ItableLock | InodeSpin nat | FtableLock
  | PipeLock uint64 | ConsLock | UartTxLock | PrLock | VdiskLock

datatype chan =
    ChanProc nat | ChanTicks | ChanBufLock nat | ChanInodeLock nat | ChanLog
  | ChanPipeRead uint64 | ChanPipeWrite uint64 | ChanConsR | ChanUartTxR
  | ChanBuf nat | ChanDiskFree

record spinlock =
  lk_locked :: uint
  lk_name :: string
  lk_cpu :: "nat option"

record sleeplock =
  sl_locked :: uint
  sl_name :: string
  sl_pid :: int

section \<open>CPUs and processes\<close>

record kcontext =
  ctx_ra :: uint64
  ctx_sp :: uint64
  ctx_s :: "uint64 list"

record cpu =
  cpu_proc :: "nat option"
  cpu_context :: kcontext
  cpu_noff :: int
  cpu_intena :: bool

record hart =
  h_sstatus :: uint64
  h_sepc :: uint64
  h_scause :: uint64
  h_stval :: uint64
  h_stvec :: uint64
  h_satp :: uint64
  h_stimecmp :: uint64
  h_time :: uint64
  h_mstatus :: uint64
  h_mepc :: uint64
  h_medeleg :: uint64
  h_mideleg :: uint64
  h_mie :: uint64
  h_sie :: uint64
  h_pmpaddr0 :: uint64
  h_pmpcfg0 :: uint64
  h_menvcfg :: uint64
  h_mcounteren :: uint64

record trapframe =
  tf_kernel_satp :: uint64
  tf_kernel_sp :: uint64
  tf_kernel_trap :: uint64
  tf_epc :: uint64
  tf_kernel_hartid :: uint64
  tf_ra :: uint64
  tf_sp :: uint64
  tf_gp :: uint64
  tf_tp :: uint64
  tf_t :: "uint64 list"
  tf_s :: "uint64 list"
  tf_a0 :: uint64
  tf_a1 :: uint64
  tf_a2 :: uint64
  tf_a3 :: uint64
  tf_a4 :: uint64
  tf_a5 :: uint64
  tf_a6 :: uint64
  tf_a7 :: uint64

datatype procstate = UNUSED | USED | SLEEPING | RUNNABLE | RUNNING | ZOMBIE

record proc =
  p_state :: procstate
  p_chan :: "chan option"
  p_killed :: int
  p_xstate :: uint
  p_pid :: int
  p_parent :: "nat option"
  p_kstack :: uint64
  p_sz :: uint64
  p_pagetable :: uint64
  p_trapframe :: uint64
  p_context :: kcontext
  p_ofile :: "nat \<Rightarrow> nat option"
  p_cwd :: "nat option"
  p_name :: "uchar list"

section \<open>Files, pipes and the disk\<close>

record pipe =
  pi_data :: "nat \<Rightarrow> uchar"
  pi_nread :: uint
  pi_nwrite :: uint
  pi_readopen :: bool
  pi_writeopen :: bool

datatype ftype = FD_NONE | FD_PIPE | FD_INODE | FD_DEVICE

record kfile =
  f_type :: ftype
  f_ref :: int
  f_readable :: bool
  f_writable :: bool
  f_pipe :: uint64
  f_ip :: "nat option"
  f_off :: uint
  f_major :: int

record inode =
  i_dev :: uint
  i_inum :: uint
  i_ref :: int
  i_lock :: sleeplock
  i_valid :: bool
  i_type :: ushort
  i_major :: ushort
  i_minor :: ushort
  i_nlink :: ushort
  i_size :: uint
  i_addrs :: "uint list"

type_synonym block = "uchar list"

text \<open>
  The LRU list of the buffer cache runs through \<^verbatim>\<open>prev\<close> and \<^verbatim>\<open>next\<close>; index
  \<^term>\<open>NBUF\<close> stands for the list head \<^verbatim>\<open>bcache.head\<close>.
\<close>

record buf =
  b_valid :: bool
  b_disk :: bool
  b_dev :: uint
  b_blockno :: uint
  b_lock :: sleeplock
  b_refcnt :: uint
  b_prev :: nat
  b_next :: nat
  b_data :: block

record superblock =
  sb_magic :: uint
  sb_size :: uint
  sb_nblocks :: uint
  sb_ninodes :: uint
  sb_nlog :: uint
  sb_logstart :: uint
  sb_inodestart :: uint
  sb_bmapstart :: uint

record klog =
  lg_start :: uint
  lg_size :: int
  lg_outstanding :: int
  lg_committing :: bool
  lg_dev :: uint
  lg_n :: int
  lg_block :: "nat \<Rightarrow> uint"

record console =
  cons_buf :: "nat \<Rightarrow> uchar"
  cons_r :: uint
  cons_w :: uint
  cons_e :: uint

record uart =
  tx_buf :: "nat \<Rightarrow> uchar"
  tx_w :: uint64
  tx_r :: uint64

text \<open>
  The virtio disk queue. The addresses a descriptor can hold are those of a request header, of
  a buffer's data and of a status byte.
\<close>

datatype dma = DmaNull | DmaOps nat | DmaData nat | DmaStatus nat

record virtq_desc =
  vd_addr :: dma
  vd_len :: uint
  vd_flags :: ushort
  vd_next :: ushort

record virtio_blk_req =
  rq_type :: uint
  rq_reserved :: uint
  rq_sector :: uint64

record vdisk =
  vq_desc :: "nat \<Rightarrow> virtq_desc"
  vq_avail_idx :: ushort
  vq_avail_ring :: "nat \<Rightarrow> ushort"
  vq_used_idx :: ushort
  vq_used_ring :: "nat \<Rightarrow> uint"
  vq_free :: "nat \<Rightarrow> bool"
  vq_seen_idx :: ushort
  vq_info_b :: "nat \<Rightarrow> nat option"
  vq_info_status :: "nat \<Rightarrow> uchar"
  vq_ops :: "nat \<Rightarrow> virtio_blk_req"
  vq_desc_pa :: uint64
  vq_avail_pa :: uint64
  vq_used_pa :: uint64

text \<open>The addresses the linker supplies.\<close>

record ksyms =
  sym_end :: uint64
  sym_etext :: uint64
  sym_trampoline :: uint64
  sym_uservec :: uint64
  sym_userret :: uint64
  sym_kernelvec :: uint64
  sym_usertrap :: uint64
  sym_forkret :: uint64

section \<open>The kernel state\<close>

text \<open>
  Beside the kernel's variables the record has the devices: the blocks of the disk and the
  trace of the writes to it; the bytes the UART has sent, those that wait to be read, and the
  values its line status register is going to show (after them the transmitter is idle, as a
  16550 that is left alone becomes); the trace of the other device registers written.
\<close>

record kstate =
  tp :: nat
  harts :: "nat \<Rightarrow> hart"
  cpus :: "nat \<Rightarrow> cpu"
  locks :: "lockid \<Rightarrow> spinlock"
  syms :: ksyms
  mem :: memory
  freelist :: uint64
  kernel_pagetable :: uint64
  procs :: "nat \<Rightarrow> proc"
  tframes :: "uint64 \<Rightarrow> trapframe"
  initproc :: "nat option"
  nextpid :: int
  ticks :: uint
  bufs :: "nat \<Rightarrow> buf"
  disk :: "nat \<Rightarrow> block"
  dtrace :: "(nat \<times> block) list"
  sblk :: superblock
  klog :: klog
  inodes :: "nat \<Rightarrow> inode"
  files :: "nat \<Rightarrow> kfile"
  devsw :: "int \<Rightarrow> bool \<times> bool"
  pipes :: "uint64 \<Rightarrow> pipe"
  cons :: console
  uart :: uart
  uart_out :: "uchar list"
  uart_lsr :: "uchar list"
  uart_in :: "uchar list"
  vdisk :: vdisk
  mmio :: "(uint64 \<times> uint) list"
  panicked :: bool
  pr_locking :: bool
  forkret_first :: bool
  started :: bool

text \<open>
  Why a kernel function did not return: a panic with its message; an acquire that spins on
  a lock it cannot get; a process that went to sleep on a channel, with the loop counter at
  which its call resumes, the interrupt flag its \<^verbatim>\<open>sched\<close> keeps and the state in which it
  left the CPU; a process that yielded; one that exited; a use of a null pointer; a store past
  the end of a local array; a jump to user space; a loop that never ends.
\<close>

datatype stop =
    Panic string
  | Spin lockid
  | Asleep chan int bool kstate
  | Yielded bool kstate
  | Exited kstate
  | NullDeref
  | Overrun
  | ToUser kstate
  | Forever

type_synonym 'a kres = "stop + 'a \<times> kstate"

definition panic :: "string \<Rightarrow> 'a kres" where
  "panic msg = Inl (Panic msg)"

lemma panic_neq_Inr [simp]: "panic msg \<noteq> Inr r"
  by (simp add: panic_def)

lemma panic_eq_Inl [simp]: "panic msg = Inl e \<longleftrightarrow> e = Panic msg"
  by (auto simp: panic_def)

section \<open>Array elements\<close>

text \<open>Assignment to a field of an element of a global array.\<close>

definition upd_proc :: "nat \<Rightarrow> (proc \<Rightarrow> proc) \<Rightarrow> kstate \<Rightarrow> kstate" where
  "upd_proc p f s = s\<lparr>procs := (procs s)(p := f (procs s p))\<rparr>"

definition upd_cpu :: "(cpu \<Rightarrow> cpu) \<Rightarrow> kstate \<Rightarrow> kstate" where
  "upd_cpu f s = s\<lparr>cpus := (cpus s)(tp s := f (cpus s (tp s)))\<rparr>"

definition upd_hart :: "(hart \<Rightarrow> hart) \<Rightarrow> kstate \<Rightarrow> kstate" where
  "upd_hart f s = s\<lparr>harts := (harts s)(tp s := f (harts s (tp s)))\<rparr>"

definition upd_lock :: "lockid \<Rightarrow> (spinlock \<Rightarrow> spinlock) \<Rightarrow> kstate \<Rightarrow> kstate" where
  "upd_lock lk f s = s\<lparr>locks := (locks s)(lk := f (locks s lk))\<rparr>"

definition upd_file :: "nat \<Rightarrow> (kfile \<Rightarrow> kfile) \<Rightarrow> kstate \<Rightarrow> kstate" where
  "upd_file i f s = s\<lparr>files := (files s)(i := f (files s i))\<rparr>"

definition upd_inode :: "nat \<Rightarrow> (inode \<Rightarrow> inode) \<Rightarrow> kstate \<Rightarrow> kstate" where
  "upd_inode i f s = s\<lparr>inodes := (inodes s)(i := f (inodes s i))\<rparr>"

definition upd_buf :: "nat \<Rightarrow> (buf \<Rightarrow> buf) \<Rightarrow> kstate \<Rightarrow> kstate" where
  "upd_buf i f s = s\<lparr>bufs := (bufs s)(i := f (bufs s i))\<rparr>"

definition upd_pipe :: "uint64 \<Rightarrow> (pipe \<Rightarrow> pipe) \<Rightarrow> kstate \<Rightarrow> kstate" where
  "upd_pipe a f s = s\<lparr>pipes := (pipes s)(a := f (pipes s a))\<rparr>"

definition upd_tframe :: "uint64 \<Rightarrow> (trapframe \<Rightarrow> trapframe) \<Rightarrow> kstate \<Rightarrow> kstate" where
  "upd_tframe a f s = s\<lparr>tframes := (tframes s)(a := f (tframes s a))\<rparr>"

definition upd_vdisk :: "(vdisk \<Rightarrow> vdisk) \<Rightarrow> kstate \<Rightarrow> kstate" where
  "upd_vdisk f s = s\<lparr>vdisk := f (vdisk s)\<rparr>"

definition upd_log :: "(klog \<Rightarrow> klog) \<Rightarrow> kstate \<Rightarrow> kstate" where
  "upd_log f s = s\<lparr>klog := f (klog s)\<rparr>"

section \<open>The zeroed state\<close>

text \<open>
  The state in which hart 0 enters \<^verbatim>\<open>main\<close>: every variable zero, except \<^verbatim>\<open>nextpid\<close> and the flag
  \<^verbatim>\<open>first\<close> of \<^verbatim>\<open>forkret\<close>, which are initialised to 1. The kernel image ends at \<open>KERNBASE + 0x22000\<close>.
\<close>

definition zero_context :: kcontext where
  "zero_context = \<lparr>ctx_ra = 0, ctx_sp = 0, ctx_s = replicate 12 0\<rparr>"

definition zero_cpu :: cpu where
  "zero_cpu = \<lparr>cpu_proc = None, cpu_context = zero_context, cpu_noff = 0, cpu_intena = False\<rparr>"

definition zero_hart :: hart where
  "zero_hart = \<lparr>h_sstatus = 0, h_sepc = 0, h_scause = 0, h_stval = 0, h_stvec = 0, h_satp = 0,
     h_stimecmp = 0, h_time = 0, h_mstatus = 0, h_mepc = 0, h_medeleg = 0, h_mideleg = 0, h_mie = 0, h_sie = 0,
     h_pmpaddr0 = 0, h_pmpcfg0 = 0, h_menvcfg = 0, h_mcounteren = 0\<rparr>"

definition zero_trapframe :: trapframe where
  "zero_trapframe = \<lparr>tf_kernel_satp = 0, tf_kernel_sp = 0, tf_kernel_trap = 0, tf_epc = 0,
     tf_kernel_hartid = 0, tf_ra = 0, tf_sp = 0, tf_gp = 0, tf_tp = 0, tf_t = replicate 7 0,
     tf_s = replicate 12 0, tf_a0 = 0, tf_a1 = 0, tf_a2 = 0, tf_a3 = 0, tf_a4 = 0, tf_a5 = 0,
     tf_a6 = 0, tf_a7 = 0\<rparr>"

definition zero_spinlock :: spinlock where
  "zero_spinlock = \<lparr>lk_locked = 0, lk_name = [], lk_cpu = None\<rparr>"

definition zero_sleeplock :: sleeplock where
  "zero_sleeplock = \<lparr>sl_locked = 0, sl_name = [], sl_pid = 0\<rparr>"

definition zero_proc :: proc where
  "zero_proc = \<lparr>p_state = UNUSED, p_chan = None, p_killed = 0, p_xstate = 0, p_pid = 0,
     p_parent = None, p_kstack = 0, p_sz = 0, p_pagetable = 0, p_trapframe = 0,
     p_context = zero_context, p_ofile = (\<lambda>_. None), p_cwd = None, p_name = replicate 16 0\<rparr>"

definition zero_buf :: buf where
  "zero_buf = \<lparr>b_valid = False, b_disk = False, b_dev = 0, b_blockno = 0,
     b_lock = zero_sleeplock, b_refcnt = 0, b_prev = 0, b_next = 0, b_data = replicate BSIZE 0\<rparr>"

definition zero_inode :: inode where
  "zero_inode = \<lparr>i_dev = 0, i_inum = 0, i_ref = 0, i_lock = zero_sleeplock, i_valid = False,
     i_type = 0, i_major = 0, i_minor = 0, i_nlink = 0, i_size = 0, i_addrs = replicate 13 0\<rparr>"

definition zero_file :: kfile where
  "zero_file = \<lparr>f_type = FD_NONE, f_ref = 0, f_readable = False, f_writable = False, f_pipe = 0,
     f_ip = None, f_off = 0, f_major = 0\<rparr>"

definition zero_pipe :: pipe where
  "zero_pipe = \<lparr>pi_data = (\<lambda>_. 0), pi_nread = 0, pi_nwrite = 0, pi_readopen = False,
     pi_writeopen = False\<rparr>"

definition zero_desc :: virtq_desc where
  "zero_desc = \<lparr>vd_addr = DmaNull, vd_len = 0, vd_flags = 0, vd_next = 0\<rparr>"

definition zero_vdisk :: vdisk where
  "zero_vdisk = \<lparr>vq_desc = (\<lambda>_. zero_desc), vq_avail_idx = 0, vq_avail_ring = (\<lambda>_. 0),
     vq_used_idx = 0, vq_used_ring = (\<lambda>_. 0), vq_free = (\<lambda>_. False), vq_seen_idx = 0,
     vq_info_b = (\<lambda>_. None), vq_info_status = (\<lambda>_. 0),
     vq_ops = (\<lambda>_. \<lparr>rq_type = 0, rq_reserved = 0, rq_sector = 0\<rparr>),
     vq_desc_pa = 0, vq_avail_pa = 0, vq_used_pa = 0\<rparr>"

definition kstate0 :: kstate where
  "kstate0 = \<lparr>tp = 0, harts = (\<lambda>_. zero_hart), cpus = (\<lambda>_. zero_cpu),
     locks = (\<lambda>_. zero_spinlock),
     syms = \<lparr>sym_end = 0x80022000, sym_etext = 0x80008000, sym_trampoline = 0x80007000,
       sym_uservec = 0x80007000, sym_userret = 0x8000709a, sym_kernelvec = 0x80005c70,
       sym_usertrap = 0x80002b00, sym_forkret = 0x80001a00\<rparr>,
     mem = (\<lambda>_. 0), freelist = 0, kernel_pagetable = 0, procs = (\<lambda>_. zero_proc),
     tframes = (\<lambda>_. zero_trapframe), initproc = None, nextpid = 1, ticks = 0,
     bufs = (\<lambda>_. zero_buf), disk = (\<lambda>_. replicate BSIZE 0), dtrace = [],
     sblk = \<lparr>sb_magic = 0, sb_size = 0, sb_nblocks = 0, sb_ninodes = 0, sb_nlog = 0,
       sb_logstart = 0, sb_inodestart = 0, sb_bmapstart = 0\<rparr>,
     klog = \<lparr>lg_start = 0, lg_size = 0, lg_outstanding = 0, lg_committing = False, lg_dev = 0,
       lg_n = 0, lg_block = (\<lambda>_. 0)\<rparr>,
     inodes = (\<lambda>_. zero_inode), files = (\<lambda>_. zero_file), devsw = (\<lambda>_. (False, False)),
     pipes = (\<lambda>_. zero_pipe),
     cons = \<lparr>cons_buf = (\<lambda>_. 0), cons_r = 0, cons_w = 0, cons_e = 0\<rparr>,
     uart = \<lparr>tx_buf = (\<lambda>_. 0), tx_w = 0, tx_r = 0\<rparr>, uart_out = [], uart_lsr = [], uart_in = [],
     vdisk = zero_vdisk, mmio = [], panicked = False, pr_locking = False, forkret_first = True,
     started = False\<rparr>"

end
