(* ===== verification/Spinlock.thy ===== *)
theory Spinlock
  imports Kstate
begin

text \<open>
  \<^verbatim>\<open>kernel/spinlock.c\<close>, with the interrupt primitives of \<^verbatim>\<open>riscv.h\<close> and the CPU
  accessors of \<^verbatim>\<open>proc.c\<close>: interrupt nesting (\<^verbatim>\<open>push_off\<close>, \<^verbatim>\<open>pop_off\<close>), spinlocks as
  sequential operations of the running hart, and the same operations cut at their atomic
  instructions and interleaved over any number of harts.
\<close>

section \<open>Interrupts and the current CPU\<close>

definition intr_on :: "kstate \<Rightarrow> kstate" where
  "intr_on s = upd_hart (\<lambda>h. h\<lparr>h_sstatus := h_sstatus h OR SSTATUS_SIE\<rparr>) s"

definition intr_off :: "kstate \<Rightarrow> kstate" where
  "intr_off s = upd_hart (\<lambda>h. h\<lparr>h_sstatus := h_sstatus h AND NOT SSTATUS_SIE\<rparr>) s"

definition intr_get :: "kstate \<Rightarrow> bool" where
  "intr_get s \<longleftrightarrow> h_sstatus (harts s (tp s)) AND SSTATUS_SIE \<noteq> 0"

definition cpuid :: "kstate \<Rightarrow> nat" where
  "cpuid s = tp s"

definition mycpu :: "kstate \<Rightarrow> cpu" where
  "mycpu s = cpus s (cpuid s)"

section \<open>Interrupt nesting\<close>

definition push_off :: "kstate \<Rightarrow> kstate" where
  "push_off s =
    (let old = intr_get s;
         s = intr_off s;
         s = (if cpu_noff (mycpu s) = 0 then upd_cpu (\<lambda>c. c\<lparr>cpu_intena := old\<rparr>) s else s)
     in upd_cpu (\<lambda>c. c\<lparr>cpu_noff := cpu_noff c + 1\<rparr>) s)"

definition pop_off :: "kstate \<Rightarrow> unit kres" where
  "pop_off s =
    (if intr_get s then panic ''pop_off - interruptible''
     else if cpu_noff (mycpu s) < 1 then panic ''pop_off''
     else
       let s = upd_cpu (\<lambda>c. c\<lparr>cpu_noff := cpu_noff c - 1\<rparr>) s
       in if cpu_noff (mycpu s) = 0 \<and> cpu_intena (mycpu s)
          then ret () (intr_on s) else ret () s)"

definition myproc :: "kstate \<Rightarrow> nat option kres" where
  "myproc s =
    (let s = push_off s;
         p = cpu_proc (mycpu s)
     in bindE (pop_off s) (\<lambda>_ s. ret p s))"

section \<open>Spinlocks\<close>

definition initlock :: "lockid \<Rightarrow> string \<Rightarrow> kstate \<Rightarrow> kstate" where
  "initlock lk nm s = upd_lock lk (\<lambda>l. l\<lparr>lk_name := nm, lk_locked := 0, lk_cpu := None\<rparr>) s"

definition holding :: "lockid \<Rightarrow> kstate \<Rightarrow> bool" where
  "holding lk s \<longleftrightarrow> lk_locked (locks s lk) \<noteq> 0 \<and> lk_cpu (locks s lk) = Some (cpuid s)"

text \<open>
  The atomic swap of \<^verbatim>\<open>__sync_lock_test_and_set\<close>: it stores 1 and returns the old value.
  The spin loop repeats it until the old value is 0. Run on one hart with nobody else
  moving, a loop that does not succeed at once never does: that is \<^const>\<open>Spin\<close>.
\<close>

definition acquire_enter :: "lockid \<Rightarrow> kstate \<Rightarrow> unit kres" where
  "acquire_enter lk s =
    (let s = push_off s in if holding lk s then panic ''acquire'' else ret () s)"

definition test_and_set :: "lockid \<Rightarrow> kstate \<Rightarrow> uint \<times> kstate" where
  "test_and_set lk s = (lk_locked (locks s lk), upd_lock lk (\<lambda>l. l\<lparr>lk_locked := 1\<rparr>) s)"

definition acquire_record :: "lockid \<Rightarrow> kstate \<Rightarrow> kstate" where
  "acquire_record lk s = upd_lock lk (\<lambda>l. l\<lparr>lk_cpu := Some (cpuid s)\<rparr>) s"

definition acquire :: "lockid \<Rightarrow> kstate \<Rightarrow> unit kres" where
  "acquire lk s =
    bindE (acquire_enter lk s) (\<lambda>_ s.
    let (old, s) = test_and_set lk s
    in if old \<noteq> 0 then Inl (Spin lk) else ret () (acquire_record lk s))"

definition release_check :: "lockid \<Rightarrow> kstate \<Rightarrow> unit kres" where
  "release_check lk s =
    (if \<not> holding lk s then panic ''release''
     else ret () (upd_lock lk (\<lambda>l. l\<lparr>lk_cpu := None\<rparr>) s))"

definition release_store :: "lockid \<Rightarrow> kstate \<Rightarrow> kstate" where
  "release_store lk s = upd_lock lk (\<lambda>l. l\<lparr>lk_locked := 0\<rparr>) s"

definition release :: "lockid \<Rightarrow> kstate \<Rightarrow> unit kres" where
  "release lk s = bindE (release_check lk s) (\<lambda>_ s. pop_off (release_store lk s))"

section \<open>The interrupt bit\<close>

lemma SIE_set_clear:
  "w AND SSTATUS_SIE \<noteq> 0 \<Longrightarrow> (w AND NOT SSTATUS_SIE) OR SSTATUS_SIE = w"
proof -
  assume nz: "w AND SSTATUS_SIE \<noteq> 0"
  have b: "bit SSTATUS_SIE n \<longleftrightarrow> n = 1" for n
    by (auto simp: SSTATUS_SIE_def bit_simps)
  have "bit w 1"
  proof (rule ccontr)
    assume "\<not> bit w 1"
    then have "w AND SSTATUS_SIE = 0"
      by (intro bit_eqI) (auto simp: bit_simps b)
    with nz show False by simp
  qed
  then show ?thesis
    by (intro bit_eqI) (auto simp: bit_simps b)
qed

lemma SIE_clear_clear: "w AND SSTATUS_SIE = 0 \<Longrightarrow> w AND NOT SSTATUS_SIE = w"
proof -
  assume z: "w AND SSTATUS_SIE = 0"
  have b: "bit SSTATUS_SIE n \<longleftrightarrow> n = 1" for n
    by (auto simp: SSTATUS_SIE_def bit_simps)
  have "\<not> bit (w AND SSTATUS_SIE) 1" using z by simp
  then have "\<not> bit w 1" by (simp add: bit_simps b)
  then show ?thesis
    by (intro bit_eqI) (auto simp: bit_simps b)
qed

lemma SIE_cleared [simp]: "(w AND NOT SSTATUS_SIE) AND SSTATUS_SIE = 0"
  by (intro bit_eqI) (auto simp: bit_simps)

lemma SIE_nonzero [simp]: "SSTATUS_SIE \<noteq> 0"
  by (simp add: SSTATUS_SIE_def)

lemmas machine_defs =
  upd_hart_def upd_cpu_def upd_lock_def intr_on_def intr_off_def intr_get_def
  cpuid_def mycpu_def

lemma cpu_noff_self:
  "cpu_noff c = n \<Longrightarrow> c\<lparr>cpu_intena := b, cpu_noff := n\<rparr> = c\<lparr>cpu_intena := b\<rparr>"
  "cpu_noff c = n \<Longrightarrow> c\<lparr>cpu_noff := n\<rparr> = c"
  by auto

lemma spinlock_self:
  "lk_locked l = x \<and> lk_cpu l = y \<Longrightarrow> l\<lparr>lk_cpu := y, lk_locked := x\<rparr> = l"
  by auto

lemma intr_get_intr_off [simp]: "\<not> intr_get (intr_off s)"
  by (simp add: machine_defs)

lemma intr_get_intr_on [simp]: "intr_get (intr_on s)"
  by (simp add: machine_defs)

section \<open>Balanced critical sections\<close>

text \<open>
  \<open>cpu_ok\<close> is the nesting invariant of a hart: the depth is never negative, and interrupts are
  off while it is positive. A balanced section leaves everything as it was, except that at
  depth 0 the field \<^verbatim>\<open>intena\<close> remembers the interrupt flag it found: that state is \<open>crit s\<close>.
  The state inside a section under lock \<open>lk\<close> is \<open>locked_in lk s\<close>.
\<close>

definition cpu_ok :: "kstate \<Rightarrow> bool" where
  "cpu_ok s \<longleftrightarrow> 0 \<le> cpu_noff (mycpu s) \<and> (0 < cpu_noff (mycpu s) \<longrightarrow> \<not> intr_get s)"

definition lock_free :: "lockid \<Rightarrow> kstate \<Rightarrow> bool" where
  "lock_free lk s \<longleftrightarrow> lk_locked (locks s lk) = 0 \<and> lk_cpu (locks s lk) = None"

definition crit :: "kstate \<Rightarrow> kstate" where
  "crit s = upd_cpu (\<lambda>c. if cpu_noff c = 0 then c\<lparr>cpu_intena := intr_get s\<rparr> else c) s"

definition locked_in :: "lockid \<Rightarrow> kstate \<Rightarrow> kstate" where
  "locked_in lk s =
    upd_lock lk (\<lambda>l. l\<lparr>lk_locked := 1, lk_cpu := Some (cpuid s)\<rparr>) (push_off s)"

lemma pop_push_off [simp]:
  assumes "cpu_ok s"
  shows "pop_off (push_off s) = ret () (crit s)"
proof (cases "cpu_noff (mycpu s) = 0")
  case True
  then show ?thesis
    by (cases "intr_get s")
      (simp_all add: push_off_def pop_off_def crit_def machine_defs Let_def
        SIE_set_clear SIE_clear_clear cpu_noff_self)
next
  case False
  with assms have "0 < cpu_noff (mycpu s)" and "\<not> intr_get s"
    by (auto simp: cpu_ok_def)
  with False show ?thesis
    by (simp add: push_off_def pop_off_def crit_def machine_defs Let_def SIE_clear_clear)
qed

lemma cpu_ok_push_off [simp]: "cpu_ok s \<Longrightarrow> cpu_ok (push_off s)"
  by (auto simp: cpu_ok_def push_off_def machine_defs Let_def)

lemma cpu_ok_locked_in [simp]: "cpu_ok s \<Longrightarrow> cpu_ok (locked_in lk s)"
  by (auto simp: cpu_ok_def locked_in_def push_off_def machine_defs Let_def)

lemma cpu_ok_crit [simp]: "cpu_ok (crit s) \<longleftrightarrow> cpu_ok s"
  by (auto simp: cpu_ok_def crit_def machine_defs)

lemma crit_crit [simp]: "crit (crit s) = crit s"
  by (auto simp: crit_def machine_defs)

lemma lock_free_crit [simp]: "lock_free lk (crit s) \<longleftrightarrow> lock_free lk s"
  by (simp add: lock_free_def crit_def machine_defs)

lemma lock_free_locked_in_other [simp]:
  "lk' \<noteq> lk \<Longrightarrow> lock_free lk' (locked_in lk s) \<longleftrightarrow> lock_free lk' s"
  by (simp add: lock_free_def locked_in_def push_off_def machine_defs Let_def)

lemma acquire_free [simp]:
  "lock_free lk s \<Longrightarrow> acquire lk s = ret () (locked_in lk s)"
  by (simp add: acquire_def acquire_enter_def test_and_set_def acquire_record_def locked_in_def
      lock_free_def holding_def push_off_def machine_defs Let_def ret_def)

lemma release_locked_in [simp]:
  assumes "cpu_ok s" and "lock_free lk s"
  shows "release lk (locked_in lk s) = ret () (crit s)"
proof -
  have held: "holding lk (locked_in lk s)"
    by (simp add: holding_def locked_in_def push_off_def machine_defs Let_def)
  have "release_store lk (upd_lock lk (\<lambda>l. l\<lparr>lk_cpu := None\<rparr>) (locked_in lk s)) =
      push_off s"
    using assms(2)
    by (simp add: release_store_def locked_in_def lock_free_def push_off_def machine_defs Let_def
        spinlock_self)
  with held assms(1) show ?thesis
    by (simp add: release_def release_check_def)
qed

lemma myproc_ok [simp]: "cpu_ok s \<Longrightarrow> myproc s = ret (cpu_proc (mycpu s)) (crit s)"
  by (simp add: myproc_def Let_def) (simp add: push_off_def machine_defs Let_def)

lemma mycpu_fields [simp]:
  "cpu_proc (mycpu (crit s)) = cpu_proc (mycpu s)"
  "cpu_proc (mycpu (locked_in lk s)) = cpu_proc (mycpu s)"
  "cpu_noff (mycpu (crit s)) = cpu_noff (mycpu s)"
  "cpu_noff (mycpu (locked_in lk s)) = cpu_noff (mycpu s) + 1"
  by (simp_all add: crit_def locked_in_def push_off_def machine_defs Let_def)

lemma intr_get_crit [simp]: "intr_get (crit s) = intr_get s"
  by (simp add: crit_def machine_defs)

text \<open>Every other part of the state commutes with being inside a section.\<close>

lemma crit_select [simp]:
  "tp (crit s) = tp s"
  "harts (crit s) = harts s"
  "locks (crit s) = locks s"
  "syms (crit s) = syms s"
  "mem (crit s) = mem s"
  "freelist (crit s) = freelist s"
  "kernel_pagetable (crit s) = kernel_pagetable s"
  "procs (crit s) = procs s"
  "tframes (crit s) = tframes s"
  "initproc (crit s) = initproc s"
  "nextpid (crit s) = nextpid s"
  "ticks (crit s) = ticks s"
  "bufs (crit s) = bufs s"
  "disk (crit s) = disk s"
  "dtrace (crit s) = dtrace s"
  "sblk (crit s) = sblk s"
  "klog (crit s) = klog s"
  "inodes (crit s) = inodes s"
  "files (crit s) = files s"
  "devsw (crit s) = devsw s"
  "pipes (crit s) = pipes s"
  "cons (crit s) = cons s"
  "uart (crit s) = uart s"
  "uart_out (crit s) = uart_out s"
  "uart_lsr (crit s) = uart_lsr s"
  "panicked (crit s) = panicked s"
  "pr_locking (crit s) = pr_locking s"
  "uart_in (crit s) = uart_in s"
  "vdisk (crit s) = vdisk s"
  "mmio (crit s) = mmio s"
  "forkret_first (crit s) = forkret_first s"
  "started (crit s) = started s"
  by (simp_all add: crit_def machine_defs)

lemma locked_in_select [simp]:
  "tp (locked_in lk s) = tp s"
  "syms (locked_in lk s) = syms s"
  "mem (locked_in lk s) = mem s"
  "freelist (locked_in lk s) = freelist s"
  "kernel_pagetable (locked_in lk s) = kernel_pagetable s"
  "procs (locked_in lk s) = procs s"
  "tframes (locked_in lk s) = tframes s"
  "initproc (locked_in lk s) = initproc s"
  "nextpid (locked_in lk s) = nextpid s"
  "ticks (locked_in lk s) = ticks s"
  "bufs (locked_in lk s) = bufs s"
  "disk (locked_in lk s) = disk s"
  "dtrace (locked_in lk s) = dtrace s"
  "sblk (locked_in lk s) = sblk s"
  "klog (locked_in lk s) = klog s"
  "inodes (locked_in lk s) = inodes s"
  "files (locked_in lk s) = files s"
  "devsw (locked_in lk s) = devsw s"
  "pipes (locked_in lk s) = pipes s"
  "cons (locked_in lk s) = cons s"
  "uart (locked_in lk s) = uart s"
  "uart_out (locked_in lk s) = uart_out s"
  "uart_lsr (locked_in lk s) = uart_lsr s"
  "panicked (locked_in lk s) = panicked s"
  "pr_locking (locked_in lk s) = pr_locking s"
  "uart_in (locked_in lk s) = uart_in s"
  "vdisk (locked_in lk s) = vdisk s"
  "mmio (locked_in lk s) = mmio s"
  "forkret_first (locked_in lk s) = forkret_first s"
  "started (locked_in lk s) = started s"
  by (simp_all add: locked_in_def push_off_def machine_defs Let_def)

lemma crit_update [simp]:
  "(crit s)\<lparr>syms := x_syms\<rparr> = crit (s\<lparr>syms := x_syms\<rparr>)"
  "(crit s)\<lparr>mem := x_mem\<rparr> = crit (s\<lparr>mem := x_mem\<rparr>)"
  "(crit s)\<lparr>freelist := x_freelist\<rparr> = crit (s\<lparr>freelist := x_freelist\<rparr>)"
  "(crit s)\<lparr>kernel_pagetable := x_kernel_pagetable\<rparr> = crit (s\<lparr>kernel_pagetable := x_kernel_pagetable\<rparr>)"
  "(crit s)\<lparr>procs := x_procs\<rparr> = crit (s\<lparr>procs := x_procs\<rparr>)"
  "(crit s)\<lparr>tframes := x_tframes\<rparr> = crit (s\<lparr>tframes := x_tframes\<rparr>)"
  "(crit s)\<lparr>initproc := x_initproc\<rparr> = crit (s\<lparr>initproc := x_initproc\<rparr>)"
  "(crit s)\<lparr>nextpid := x_nextpid\<rparr> = crit (s\<lparr>nextpid := x_nextpid\<rparr>)"
  "(crit s)\<lparr>ticks := x_ticks\<rparr> = crit (s\<lparr>ticks := x_ticks\<rparr>)"
  "(crit s)\<lparr>bufs := x_bufs\<rparr> = crit (s\<lparr>bufs := x_bufs\<rparr>)"
  "(crit s)\<lparr>disk := x_disk\<rparr> = crit (s\<lparr>disk := x_disk\<rparr>)"
  "(crit s)\<lparr>dtrace := x_dtrace\<rparr> = crit (s\<lparr>dtrace := x_dtrace\<rparr>)"
  "(crit s)\<lparr>sblk := x_sblk\<rparr> = crit (s\<lparr>sblk := x_sblk\<rparr>)"
  "(crit s)\<lparr>klog := x_klog\<rparr> = crit (s\<lparr>klog := x_klog\<rparr>)"
  "(crit s)\<lparr>inodes := x_inodes\<rparr> = crit (s\<lparr>inodes := x_inodes\<rparr>)"
  "(crit s)\<lparr>files := x_files\<rparr> = crit (s\<lparr>files := x_files\<rparr>)"
  "(crit s)\<lparr>devsw := x_devsw\<rparr> = crit (s\<lparr>devsw := x_devsw\<rparr>)"
  "(crit s)\<lparr>pipes := x_pipes\<rparr> = crit (s\<lparr>pipes := x_pipes\<rparr>)"
  "(crit s)\<lparr>cons := x_cons\<rparr> = crit (s\<lparr>cons := x_cons\<rparr>)"
  "(crit s)\<lparr>uart := x_uart\<rparr> = crit (s\<lparr>uart := x_uart\<rparr>)"
  "(crit s)\<lparr>uart_out := x_uart_out\<rparr> = crit (s\<lparr>uart_out := x_uart_out\<rparr>)"
  "(crit s)\<lparr>uart_lsr := x_uart_lsr\<rparr> = crit (s\<lparr>uart_lsr := x_uart_lsr\<rparr>)"
  "(crit s)\<lparr>panicked := x_panicked\<rparr> = crit (s\<lparr>panicked := x_panicked\<rparr>)"
  "(crit s)\<lparr>pr_locking := x_pr_locking\<rparr> = crit (s\<lparr>pr_locking := x_pr_locking\<rparr>)"
  "(crit s)\<lparr>uart_in := x_uart_in\<rparr> = crit (s\<lparr>uart_in := x_uart_in\<rparr>)"
  "(crit s)\<lparr>vdisk := x_vdisk\<rparr> = crit (s\<lparr>vdisk := x_vdisk\<rparr>)"
  "(crit s)\<lparr>mmio := x_mmio\<rparr> = crit (s\<lparr>mmio := x_mmio\<rparr>)"
  "(crit s)\<lparr>forkret_first := x_forkret_first\<rparr> = crit (s\<lparr>forkret_first := x_forkret_first\<rparr>)"
  "(crit s)\<lparr>started := x_started\<rparr> = crit (s\<lparr>started := x_started\<rparr>)"
  by (simp_all add: crit_def machine_defs)

lemma locked_in_update [simp]:
  "(locked_in lk s)\<lparr>syms := x_syms\<rparr> = locked_in lk (s\<lparr>syms := x_syms\<rparr>)"
  "(locked_in lk s)\<lparr>mem := x_mem\<rparr> = locked_in lk (s\<lparr>mem := x_mem\<rparr>)"
  "(locked_in lk s)\<lparr>freelist := x_freelist\<rparr> = locked_in lk (s\<lparr>freelist := x_freelist\<rparr>)"
  "(locked_in lk s)\<lparr>kernel_pagetable := x_kernel_pagetable\<rparr> = locked_in lk (s\<lparr>kernel_pagetable := x_kernel_pagetable\<rparr>)"
  "(locked_in lk s)\<lparr>procs := x_procs\<rparr> = locked_in lk (s\<lparr>procs := x_procs\<rparr>)"
  "(locked_in lk s)\<lparr>tframes := x_tframes\<rparr> = locked_in lk (s\<lparr>tframes := x_tframes\<rparr>)"
  "(locked_in lk s)\<lparr>initproc := x_initproc\<rparr> = locked_in lk (s\<lparr>initproc := x_initproc\<rparr>)"
  "(locked_in lk s)\<lparr>nextpid := x_nextpid\<rparr> = locked_in lk (s\<lparr>nextpid := x_nextpid\<rparr>)"
  "(locked_in lk s)\<lparr>ticks := x_ticks\<rparr> = locked_in lk (s\<lparr>ticks := x_ticks\<rparr>)"
  "(locked_in lk s)\<lparr>bufs := x_bufs\<rparr> = locked_in lk (s\<lparr>bufs := x_bufs\<rparr>)"
  "(locked_in lk s)\<lparr>disk := x_disk\<rparr> = locked_in lk (s\<lparr>disk := x_disk\<rparr>)"
  "(locked_in lk s)\<lparr>dtrace := x_dtrace\<rparr> = locked_in lk (s\<lparr>dtrace := x_dtrace\<rparr>)"
  "(locked_in lk s)\<lparr>sblk := x_sblk\<rparr> = locked_in lk (s\<lparr>sblk := x_sblk\<rparr>)"
  "(locked_in lk s)\<lparr>klog := x_klog\<rparr> = locked_in lk (s\<lparr>klog := x_klog\<rparr>)"
  "(locked_in lk s)\<lparr>inodes := x_inodes\<rparr> = locked_in lk (s\<lparr>inodes := x_inodes\<rparr>)"
  "(locked_in lk s)\<lparr>files := x_files\<rparr> = locked_in lk (s\<lparr>files := x_files\<rparr>)"
  "(locked_in lk s)\<lparr>devsw := x_devsw\<rparr> = locked_in lk (s\<lparr>devsw := x_devsw\<rparr>)"
  "(locked_in lk s)\<lparr>pipes := x_pipes\<rparr> = locked_in lk (s\<lparr>pipes := x_pipes\<rparr>)"
  "(locked_in lk s)\<lparr>cons := x_cons\<rparr> = locked_in lk (s\<lparr>cons := x_cons\<rparr>)"
  "(locked_in lk s)\<lparr>uart := x_uart\<rparr> = locked_in lk (s\<lparr>uart := x_uart\<rparr>)"
  "(locked_in lk s)\<lparr>uart_out := x_uart_out\<rparr> = locked_in lk (s\<lparr>uart_out := x_uart_out\<rparr>)"
  "(locked_in lk s)\<lparr>uart_lsr := x_uart_lsr\<rparr> = locked_in lk (s\<lparr>uart_lsr := x_uart_lsr\<rparr>)"
  "(locked_in lk s)\<lparr>panicked := x_panicked\<rparr> = locked_in lk (s\<lparr>panicked := x_panicked\<rparr>)"
  "(locked_in lk s)\<lparr>pr_locking := x_pr_locking\<rparr> = locked_in lk (s\<lparr>pr_locking := x_pr_locking\<rparr>)"
  "(locked_in lk s)\<lparr>uart_in := x_uart_in\<rparr> = locked_in lk (s\<lparr>uart_in := x_uart_in\<rparr>)"
  "(locked_in lk s)\<lparr>vdisk := x_vdisk\<rparr> = locked_in lk (s\<lparr>vdisk := x_vdisk\<rparr>)"
  "(locked_in lk s)\<lparr>mmio := x_mmio\<rparr> = locked_in lk (s\<lparr>mmio := x_mmio\<rparr>)"
  "(locked_in lk s)\<lparr>forkret_first := x_forkret_first\<rparr> = locked_in lk (s\<lparr>forkret_first := x_forkret_first\<rparr>)"
  "(locked_in lk s)\<lparr>started := x_started\<rparr> = locked_in lk (s\<lparr>started := x_started\<rparr>)"
  by (simp_all add: locked_in_def push_off_def machine_defs Let_def)

lemma cpu_ok_update [simp]:
  "cpu_ok (s\<lparr>locks := x_locks\<rparr>) = cpu_ok s"
  "cpu_ok (s\<lparr>syms := x_syms\<rparr>) = cpu_ok s"
  "cpu_ok (s\<lparr>mem := x_mem\<rparr>) = cpu_ok s"
  "cpu_ok (s\<lparr>freelist := x_freelist\<rparr>) = cpu_ok s"
  "cpu_ok (s\<lparr>kernel_pagetable := x_kernel_pagetable\<rparr>) = cpu_ok s"
  "cpu_ok (s\<lparr>procs := x_procs\<rparr>) = cpu_ok s"
  "cpu_ok (s\<lparr>tframes := x_tframes\<rparr>) = cpu_ok s"
  "cpu_ok (s\<lparr>initproc := x_initproc\<rparr>) = cpu_ok s"
  "cpu_ok (s\<lparr>nextpid := x_nextpid\<rparr>) = cpu_ok s"
  "cpu_ok (s\<lparr>ticks := x_ticks\<rparr>) = cpu_ok s"
  "cpu_ok (s\<lparr>bufs := x_bufs\<rparr>) = cpu_ok s"
  "cpu_ok (s\<lparr>disk := x_disk\<rparr>) = cpu_ok s"
  "cpu_ok (s\<lparr>dtrace := x_dtrace\<rparr>) = cpu_ok s"
  "cpu_ok (s\<lparr>sblk := x_sblk\<rparr>) = cpu_ok s"
  "cpu_ok (s\<lparr>klog := x_klog\<rparr>) = cpu_ok s"
  "cpu_ok (s\<lparr>inodes := x_inodes\<rparr>) = cpu_ok s"
  "cpu_ok (s\<lparr>files := x_files\<rparr>) = cpu_ok s"
  "cpu_ok (s\<lparr>devsw := x_devsw\<rparr>) = cpu_ok s"
  "cpu_ok (s\<lparr>pipes := x_pipes\<rparr>) = cpu_ok s"
  "cpu_ok (s\<lparr>cons := x_cons\<rparr>) = cpu_ok s"
  "cpu_ok (s\<lparr>uart := x_uart\<rparr>) = cpu_ok s"
  "cpu_ok (s\<lparr>uart_out := x_uart_out\<rparr>) = cpu_ok s"
  "cpu_ok (s\<lparr>uart_lsr := x_uart_lsr\<rparr>) = cpu_ok s"
  "cpu_ok (s\<lparr>panicked := x_panicked\<rparr>) = cpu_ok s"
  "cpu_ok (s\<lparr>pr_locking := x_pr_locking\<rparr>) = cpu_ok s"
  "cpu_ok (s\<lparr>uart_in := x_uart_in\<rparr>) = cpu_ok s"
  "cpu_ok (s\<lparr>vdisk := x_vdisk\<rparr>) = cpu_ok s"
  "cpu_ok (s\<lparr>mmio := x_mmio\<rparr>) = cpu_ok s"
  "cpu_ok (s\<lparr>forkret_first := x_forkret_first\<rparr>) = cpu_ok s"
  "cpu_ok (s\<lparr>started := x_started\<rparr>) = cpu_ok s"
  by (simp_all add: cpu_ok_def machine_defs)

lemma lock_free_update [simp]:
  "lock_free lk (s\<lparr>tp := x_tp\<rparr>) = lock_free lk s"
  "lock_free lk (s\<lparr>harts := x_harts\<rparr>) = lock_free lk s"
  "lock_free lk (s\<lparr>cpus := x_cpus\<rparr>) = lock_free lk s"
  "lock_free lk (s\<lparr>syms := x_syms\<rparr>) = lock_free lk s"
  "lock_free lk (s\<lparr>mem := x_mem\<rparr>) = lock_free lk s"
  "lock_free lk (s\<lparr>freelist := x_freelist\<rparr>) = lock_free lk s"
  "lock_free lk (s\<lparr>kernel_pagetable := x_kernel_pagetable\<rparr>) = lock_free lk s"
  "lock_free lk (s\<lparr>procs := x_procs\<rparr>) = lock_free lk s"
  "lock_free lk (s\<lparr>tframes := x_tframes\<rparr>) = lock_free lk s"
  "lock_free lk (s\<lparr>initproc := x_initproc\<rparr>) = lock_free lk s"
  "lock_free lk (s\<lparr>nextpid := x_nextpid\<rparr>) = lock_free lk s"
  "lock_free lk (s\<lparr>ticks := x_ticks\<rparr>) = lock_free lk s"
  "lock_free lk (s\<lparr>bufs := x_bufs\<rparr>) = lock_free lk s"
  "lock_free lk (s\<lparr>disk := x_disk\<rparr>) = lock_free lk s"
  "lock_free lk (s\<lparr>dtrace := x_dtrace\<rparr>) = lock_free lk s"
  "lock_free lk (s\<lparr>sblk := x_sblk\<rparr>) = lock_free lk s"
  "lock_free lk (s\<lparr>klog := x_klog\<rparr>) = lock_free lk s"
  "lock_free lk (s\<lparr>inodes := x_inodes\<rparr>) = lock_free lk s"
  "lock_free lk (s\<lparr>files := x_files\<rparr>) = lock_free lk s"
  "lock_free lk (s\<lparr>devsw := x_devsw\<rparr>) = lock_free lk s"
  "lock_free lk (s\<lparr>pipes := x_pipes\<rparr>) = lock_free lk s"
  "lock_free lk (s\<lparr>cons := x_cons\<rparr>) = lock_free lk s"
  "lock_free lk (s\<lparr>uart := x_uart\<rparr>) = lock_free lk s"
  "lock_free lk (s\<lparr>uart_out := x_uart_out\<rparr>) = lock_free lk s"
  "lock_free lk (s\<lparr>uart_lsr := x_uart_lsr\<rparr>) = lock_free lk s"
  "lock_free lk (s\<lparr>panicked := x_panicked\<rparr>) = lock_free lk s"
  "lock_free lk (s\<lparr>pr_locking := x_pr_locking\<rparr>) = lock_free lk s"
  "lock_free lk (s\<lparr>uart_in := x_uart_in\<rparr>) = lock_free lk s"
  "lock_free lk (s\<lparr>vdisk := x_vdisk\<rparr>) = lock_free lk s"
  "lock_free lk (s\<lparr>mmio := x_mmio\<rparr>) = lock_free lk s"
  "lock_free lk (s\<lparr>forkret_first := x_forkret_first\<rparr>) = lock_free lk s"
  "lock_free lk (s\<lparr>started := x_started\<rparr>) = lock_free lk s"
  by (simp_all add: lock_free_def)

lemma mycpu_update [simp]:
  "mycpu (s\<lparr>harts := x_harts\<rparr>) = mycpu s"
  "mycpu (s\<lparr>locks := x_locks\<rparr>) = mycpu s"
  "mycpu (s\<lparr>syms := x_syms\<rparr>) = mycpu s"
  "mycpu (s\<lparr>mem := x_mem\<rparr>) = mycpu s"
  "mycpu (s\<lparr>freelist := x_freelist\<rparr>) = mycpu s"
  "mycpu (s\<lparr>kernel_pagetable := x_kernel_pagetable\<rparr>) = mycpu s"
  "mycpu (s\<lparr>procs := x_procs\<rparr>) = mycpu s"
  "mycpu (s\<lparr>tframes := x_tframes\<rparr>) = mycpu s"
  "mycpu (s\<lparr>initproc := x_initproc\<rparr>) = mycpu s"
  "mycpu (s\<lparr>nextpid := x_nextpid\<rparr>) = mycpu s"
  "mycpu (s\<lparr>ticks := x_ticks\<rparr>) = mycpu s"
  "mycpu (s\<lparr>bufs := x_bufs\<rparr>) = mycpu s"
  "mycpu (s\<lparr>disk := x_disk\<rparr>) = mycpu s"
  "mycpu (s\<lparr>dtrace := x_dtrace\<rparr>) = mycpu s"
  "mycpu (s\<lparr>sblk := x_sblk\<rparr>) = mycpu s"
  "mycpu (s\<lparr>klog := x_klog\<rparr>) = mycpu s"
  "mycpu (s\<lparr>inodes := x_inodes\<rparr>) = mycpu s"
  "mycpu (s\<lparr>files := x_files\<rparr>) = mycpu s"
  "mycpu (s\<lparr>devsw := x_devsw\<rparr>) = mycpu s"
  "mycpu (s\<lparr>pipes := x_pipes\<rparr>) = mycpu s"
  "mycpu (s\<lparr>cons := x_cons\<rparr>) = mycpu s"
  "mycpu (s\<lparr>uart := x_uart\<rparr>) = mycpu s"
  "mycpu (s\<lparr>uart_out := x_uart_out\<rparr>) = mycpu s"
  "mycpu (s\<lparr>uart_lsr := x_uart_lsr\<rparr>) = mycpu s"
  "mycpu (s\<lparr>panicked := x_panicked\<rparr>) = mycpu s"
  "mycpu (s\<lparr>pr_locking := x_pr_locking\<rparr>) = mycpu s"
  "mycpu (s\<lparr>uart_in := x_uart_in\<rparr>) = mycpu s"
  "mycpu (s\<lparr>vdisk := x_vdisk\<rparr>) = mycpu s"
  "mycpu (s\<lparr>mmio := x_mmio\<rparr>) = mycpu s"
  "mycpu (s\<lparr>forkret_first := x_forkret_first\<rparr>) = mycpu s"
  "mycpu (s\<lparr>started := x_started\<rparr>) = mycpu s"
  by (simp_all add: machine_defs)

lemma intr_get_update [simp]:
  "intr_get (s\<lparr>cpus := x_cpus\<rparr>) = intr_get s"
  "intr_get (s\<lparr>locks := x_locks\<rparr>) = intr_get s"
  "intr_get (s\<lparr>syms := x_syms\<rparr>) = intr_get s"
  "intr_get (s\<lparr>mem := x_mem\<rparr>) = intr_get s"
  "intr_get (s\<lparr>freelist := x_freelist\<rparr>) = intr_get s"
  "intr_get (s\<lparr>kernel_pagetable := x_kernel_pagetable\<rparr>) = intr_get s"
  "intr_get (s\<lparr>procs := x_procs\<rparr>) = intr_get s"
  "intr_get (s\<lparr>tframes := x_tframes\<rparr>) = intr_get s"
  "intr_get (s\<lparr>initproc := x_initproc\<rparr>) = intr_get s"
  "intr_get (s\<lparr>nextpid := x_nextpid\<rparr>) = intr_get s"
  "intr_get (s\<lparr>ticks := x_ticks\<rparr>) = intr_get s"
  "intr_get (s\<lparr>bufs := x_bufs\<rparr>) = intr_get s"
  "intr_get (s\<lparr>disk := x_disk\<rparr>) = intr_get s"
  "intr_get (s\<lparr>dtrace := x_dtrace\<rparr>) = intr_get s"
  "intr_get (s\<lparr>sblk := x_sblk\<rparr>) = intr_get s"
  "intr_get (s\<lparr>klog := x_klog\<rparr>) = intr_get s"
  "intr_get (s\<lparr>inodes := x_inodes\<rparr>) = intr_get s"
  "intr_get (s\<lparr>files := x_files\<rparr>) = intr_get s"
  "intr_get (s\<lparr>devsw := x_devsw\<rparr>) = intr_get s"
  "intr_get (s\<lparr>pipes := x_pipes\<rparr>) = intr_get s"
  "intr_get (s\<lparr>cons := x_cons\<rparr>) = intr_get s"
  "intr_get (s\<lparr>uart := x_uart\<rparr>) = intr_get s"
  "intr_get (s\<lparr>uart_out := x_uart_out\<rparr>) = intr_get s"
  "intr_get (s\<lparr>uart_lsr := x_uart_lsr\<rparr>) = intr_get s"
  "intr_get (s\<lparr>panicked := x_panicked\<rparr>) = intr_get s"
  "intr_get (s\<lparr>pr_locking := x_pr_locking\<rparr>) = intr_get s"
  "intr_get (s\<lparr>uart_in := x_uart_in\<rparr>) = intr_get s"
  "intr_get (s\<lparr>vdisk := x_vdisk\<rparr>) = intr_get s"
  "intr_get (s\<lparr>mmio := x_mmio\<rparr>) = intr_get s"
  "intr_get (s\<lparr>forkret_first := x_forkret_first\<rparr>) = intr_get s"
  "intr_get (s\<lparr>started := x_started\<rparr>) = intr_get s"
  by (simp_all add: machine_defs)

section \<open>Nesting\<close>

text \<open>
  \<open>push_n n\<close> is \<open>n\<close> calls of \<^verbatim>\<open>push_off\<close>, \<open>pop_n n\<close> is \<open>n\<close> calls of \<^verbatim>\<open>pop_off\<close>.
\<close>

primrec push_n :: "nat \<Rightarrow> kstate \<Rightarrow> kstate" where
  "push_n 0 s = s"
| "push_n (Suc n) s = push_n n (push_off s)"

primrec pop_n :: "nat \<Rightarrow> kstate \<Rightarrow> unit kres" where
  "pop_n 0 s = ret () s"
| "pop_n (Suc n) s = bindE (pop_off s) (\<lambda>_ s. pop_n n s)"

lemma crit_push_off [simp]: "cpu_ok s \<Longrightarrow> crit (push_off s) = push_off s"
  by (auto simp: cpu_ok_def crit_def push_off_def machine_defs Let_def)

lemma pop_n_snoc: "pop_n (Suc n) s = bindE (pop_n n s) (\<lambda>_ s. pop_off s)"
proof (induction n arbitrary: s)
  case 0
  show ?case by (cases "pop_off s") auto
next
  case (Suc n)
  have "pop_n (Suc (Suc n)) s = bindE (pop_off s) (\<lambda>_ s. pop_n (Suc n) s)" by simp
  also have "\<dots> = bindE (pop_off s) (\<lambda>_ s. bindE (pop_n n s) (\<lambda>_ s. pop_off s))"
    by (simp only: Suc)
  also have "\<dots> = bindE (pop_n (Suc n) s) (\<lambda>_ s. pop_off s)"
    by (simp add: bindE_assoc)
  finally show ?case .
qed

lemma pop_push_n: "cpu_ok s \<Longrightarrow> 0 < n \<Longrightarrow> pop_n n (push_n n s) = ret () (crit s)"
proof (induction n arbitrary: s)
  case 0
  then show ?case by simp
next
  case (Suc n)
  show ?case
  proof (cases "n = 0")
    case True
    with Suc.prems show ?thesis by simp
  next
    case False
    with Suc have "pop_n n (push_n n (push_off s)) = ret () (push_off s)"
      by simp
    with Suc.prems show ?thesis
      by (simp only: pop_n_snoc push_n.simps) simp
  qed
qed

text \<open>
  C18: \<^verbatim>\<open>push_off\<close> and \<^verbatim>\<open>pop_off\<close> are matched: after any positive number of \<^verbatim>\<open>push_off\<close>s
  the same number of \<^verbatim>\<open>pop_off\<close>s succeeds and restores the hart's registers (so its
  interrupt-enable bit), its nesting depth and every other part of the state, while fewer
  leave interrupts off.
\<close>

theorem push_off_pop_off_matched:
  assumes "cpu_ok s" and "0 < n"
  shows "\<exists>s'. pop_n n (push_n n s) = Inr ((), s') \<and> harts s' = harts s \<and>
      cpu_noff (mycpu s') = cpu_noff (mycpu s) \<and> locks s' = locks s \<and> mem s' = mem s \<and>
      (\<forall>m < n. \<exists>s''. pop_n m (push_n n s) = Inr ((), s'') \<and> \<not> intr_get s'')"
proof -
  have part: "\<exists>s''. pop_n m (push_n n s) = Inr ((), s'') \<and> \<not> intr_get s''"
    if "m < n" and "cpu_ok s" for m n s
    using that
  proof (induction n arbitrary: s)
    case 0
    then show ?case by simp
  next
    case (Suc n)
    show ?case
    proof (cases "m < n")
      case True
      with Suc show ?thesis by simp
    next
      case False
      with Suc.prems have m: "m = n" by simp
      have off: "\<not> intr_get (push_off s)"
        by (simp add: push_off_def machine_defs Let_def)
      show ?thesis
      proof (cases "n = 0")
        case True
        with m off show ?thesis by simp
      next
        case False
        with pop_push_n [of "push_off s" n] Suc.prems m off show ?thesis by simp
      qed
    qed
  qed
  from assms have "pop_n n (push_n n s) = ret () (crit s)" by (rule pop_push_n)
  with part [OF _ assms(1)] show ?thesis by simp
qed

section \<open>Harts competing for a lock\<close>

text \<open>
  The position of a hart in \<^verbatim>\<open>acquire\<close> and \<^verbatim>\<open>release\<close> of one lock: outside, in the spin
  loop, past the winning swap but before \<^verbatim>\<open>lk->cpu\<close> is set, inside the critical section,
  past the clearing of \<^verbatim>\<open>lk->cpu\<close>, and past the final store. A step runs the code between
  two atomic accesses of the lock on one hart, with any choice of hart.
\<close>

datatype lockpc = Outside | Spinning | Won | Inside | Clearing | Leaving

inductive lock_step :: "lockid \<Rightarrow> kstate \<times> (nat \<Rightarrow> lockpc) \<Rightarrow> kstate \<times> (nat \<Rightarrow> lockpc) \<Rightarrow> bool"
  for lk :: lockid where
  enter: "pc h = Outside \<Longrightarrow> acquire_enter lk (s\<lparr>tp := h\<rparr>) = Inr ((), s') \<Longrightarrow>
    lock_step lk (s, pc) (s', pc(h := Spinning))"
| spin: "pc h = Spinning \<Longrightarrow> test_and_set lk (s\<lparr>tp := h\<rparr>) = (old, s') \<Longrightarrow> old \<noteq> 0 \<Longrightarrow>
    lock_step lk (s, pc) (s', pc)"
| win: "pc h = Spinning \<Longrightarrow> test_and_set lk (s\<lparr>tp := h\<rparr>) = (old, s') \<Longrightarrow> old = 0 \<Longrightarrow>
    lock_step lk (s, pc) (s', pc(h := Won))"
| set_cpu: "pc h = Won \<Longrightarrow>
    lock_step lk (s, pc) (acquire_record lk (s\<lparr>tp := h\<rparr>), pc(h := Inside))"
| clear: "pc h = Inside \<Longrightarrow> release_check lk (s\<lparr>tp := h\<rparr>) = Inr ((), s') \<Longrightarrow>
    lock_step lk (s, pc) (s', pc(h := Clearing))"
| unlock: "pc h = Clearing \<Longrightarrow>
    lock_step lk (s, pc) (release_store lk (s\<lparr>tp := h\<rparr>), pc(h := Leaving))"
| leave: "pc h = Leaving \<Longrightarrow> pop_off (s\<lparr>tp := h\<rparr>) = Inr ((), s') \<Longrightarrow>
    lock_step lk (s, pc) (s', pc(h := Outside))"

inductive lock_reach :: "lockid \<Rightarrow> kstate \<times> (nat \<Rightarrow> lockpc) \<Rightarrow> bool" for lk :: lockid where
  init: "lock_free lk s \<Longrightarrow> lock_reach lk (s, \<lambda>_. Outside)"
| step: "lock_reach lk c \<Longrightarrow> lock_step lk c c' \<Longrightarrow> lock_reach lk c'"

definition owner_pc :: "lockpc \<Rightarrow> bool" where
  "owner_pc p \<longleftrightarrow> p = Won \<or> p = Inside \<or> p = Clearing"

definition lock_inv :: "lockid \<Rightarrow> kstate \<times> (nat \<Rightarrow> lockpc) \<Rightarrow> bool" where
  "lock_inv lk c \<longleftrightarrow> (case c of (s, pc) \<Rightarrow>
     (\<forall>h h'. owner_pc (pc h) \<and> owner_pc (pc h') \<longrightarrow> h = h') \<and>
     ((\<exists>h. owner_pc (pc h)) \<longleftrightarrow> lk_locked (locks s lk) \<noteq> 0) \<and>
     (\<forall>h. lk_cpu (locks s lk) = Some h \<longleftrightarrow> pc h = Inside))"

lemma lock_inv_same_owner:
  assumes "lock_inv lk (s, pc)" and "locks s' = locks s"
    and "\<not> owner_pc (pc h)" and "\<not> owner_pc p"
  shows "lock_inv lk (s', pc(h := p))"
proof -
  have "owner_pc ((pc(h := p)) k) = owner_pc (pc k)" for k
    using assms(3,4) by simp
  moreover have "(pc(h := p)) k = Inside \<longleftrightarrow> pc k = Inside" for k
    using assms(3,4) by (auto simp: owner_pc_def)
  ultimately show ?thesis
    using assms(1,2) unfolding lock_inv_def prod.case by presburger
qed

lemma push_off_locks [simp]: "locks (push_off s) = locks s"
  by (simp add: push_off_def machine_defs Let_def)

lemma push_off_tp [simp]: "tp (push_off s) = tp s"
  by (simp add: push_off_def machine_defs Let_def)

lemma acquire_enter_locks: "acquire_enter lk s = Inr ((), s') \<Longrightarrow> locks s' = locks s"
  by (auto simp: acquire_enter_def Let_def split: if_splits)

lemma pop_off_locks: "pop_off s = Inr ((), s') \<Longrightarrow> locks s' = locks s"
  by (auto simp: pop_off_def Let_def machine_defs split: if_splits)

lemma lock_inv_step:
  assumes "lock_step lk c c'" and "lock_inv lk c"
  shows "lock_inv lk c'"
  using assms
proof (induction rule: lock_step.induct)
  case (enter pc h s s')
  show ?case
    by (rule lock_inv_same_owner [OF enter.prems])
      (use enter in \<open>auto simp: owner_pc_def dest!: acquire_enter_locks\<close>)
next
  case (spin pc h s old s')
  then show ?case
    by (auto simp: lock_inv_def test_and_set_def upd_lock_def)
next
  case (win pc h s old s')
  then have free: "\<not> owner_pc (pc k)" for k
    by (auto simp: lock_inv_def test_and_set_def)
  have notin: "pc k \<noteq> Inside" for k
    using free [of k] by (auto simp: owner_pc_def)
  from win have "\<forall>k. lk_cpu (locks s lk) \<noteq> Some k"
    using notin by (auto simp: lock_inv_def)
  with win free notin show ?case
    by (auto simp: lock_inv_def test_and_set_def upd_lock_def owner_pc_def)
next
  case (set_cpu pc h s)
  then have others: "owner_pc (pc k) \<Longrightarrow> k = h" for k
    by (auto simp: lock_inv_def owner_pc_def)
  with set_cpu show ?case
    by (auto simp: lock_inv_def acquire_record_def upd_lock_def cpuid_def owner_pc_def)
next
  case (clear pc h s s')
  then have others: "owner_pc (pc k) \<Longrightarrow> k = h" for k
    by (auto simp: lock_inv_def owner_pc_def)
  with clear show ?case
    by (auto simp: lock_inv_def release_check_def upd_lock_def owner_pc_def split: if_splits)
next
  case (unlock pc h s)
  then have others: "owner_pc (pc k) \<Longrightarrow> k = h" for k
    by (auto simp: lock_inv_def owner_pc_def)
  with unlock show ?case
    by (auto simp: lock_inv_def release_store_def upd_lock_def owner_pc_def)
next
  case (leave pc h s s')
  show ?case
    by (rule lock_inv_same_owner [OF leave.prems])
      (use leave in \<open>auto simp: owner_pc_def dest!: pop_off_locks\<close>)
qed

lemma lock_reach_inv: "lock_reach lk c \<Longrightarrow> lock_inv lk c"
proof (induction rule: lock_reach.induct)
  case (init s)
  then show ?case by (simp add: lock_inv_def owner_pc_def lock_free_def)
next
  case (step c c')
  then show ?case by (blast intro: lock_inv_step)
qed

text \<open>
  C1: Mutual exclusion. In every state reachable from a free lock, however the harts'
  steps interleave, at most one hart is inside the critical section; that hart's
  \<^verbatim>\<open>release\<close> passes its \<^verbatim>\<open>holding\<close> check, and no hart outside sees the lock as its own,
  so \<^verbatim>\<open>acquire\<close> never panics there.
\<close>

theorem spinlock_mutual_exclusion:
  assumes "lock_reach lk (s, pc)"
  shows "(pc h = Inside \<and> pc h' = Inside \<longrightarrow> h = h') \<and>
    (pc h = Inside \<longrightarrow> release_check lk (s\<lparr>tp := h\<rparr>) \<noteq> panic ''release'') \<and>
    (pc h = Outside \<longrightarrow> acquire_enter lk (s\<lparr>tp := h\<rparr>) \<noteq> panic ''acquire'')"
proof -
  from lock_reach_inv [OF assms] have inv: "lock_inv lk (s, pc)" .
  have "release_check lk (s\<lparr>tp := h\<rparr>) \<noteq> panic ''release''" if "pc h = Inside"
    using inv that by (auto simp: lock_inv_def release_check_def holding_def cpuid_def owner_pc_def
        panic_def ret_def)
  moreover have "acquire_enter lk (s\<lparr>tp := h\<rparr>) \<noteq> panic ''acquire''" if "pc h = Outside"
    using inv that
    by (auto simp: lock_inv_def acquire_enter_def holding_def cpuid_def panic_def ret_def Let_def)
  ultimately show ?thesis
    using inv by (auto simp: lock_inv_def owner_pc_def)
qed

section \<open>Witnesses\<close>

lemma cpu_ok_kstate0 [simp]: "cpu_ok kstate0"
  by (simp add: cpu_ok_def kstate0_def machine_defs zero_cpu_def zero_hart_def)

lemma lock_free_kstate0 [simp]: "lock_free lk kstate0"
  by (simp add: lock_free_def kstate0_def zero_spinlock_def)

theorem push_off_pop_off_matched_witness:
  "\<exists>s'. pop_n 3 (push_n 3 kstate0) = Inr ((), s') \<and> harts s' = harts kstate0 \<and>
    (\<exists>s''. pop_n 2 (push_n 3 kstate0) = Inr ((), s'') \<and> \<not> intr_get s'')"
  using push_off_pop_off_matched [of kstate0 3] by auto

text \<open>Hart 0 wins the lock while hart 1 spins on it.\<close>

lemma lock_reach_two_harts:
  "\<exists>s. lock_reach KmemLock (s, (\<lambda>_. Outside)(0 := Inside, 1 := Spinning))"
proof -
  let ?pc = "\<lambda>_. Outside"
  let ?s1 = "push_off (kstate0\<lparr>tp := 0\<rparr>)"
  let ?s2 = "snd (test_and_set KmemLock (?s1\<lparr>tp := 0\<rparr>))"
  let ?s3 = "acquire_record KmemLock (?s2\<lparr>tp := 0\<rparr>)"
  have "lock_reach KmemLock (kstate0, ?pc)" by (rule lock_reach.init) simp
  then have "lock_reach KmemLock (?s1, ?pc(0 := Spinning))"
    by (rule lock_reach.step) (rule lock_step.enter, simp,
      simp add: acquire_enter_def holding_def kstate0_def zero_spinlock_def)
  then have "lock_reach KmemLock (?s2, (?pc(0 := Spinning))(0 := Won))"
    by (rule lock_reach.step) (rule lock_step.win [of _ 0 _ _ 0], simp,
      simp add: test_and_set_def kstate0_def zero_spinlock_def, simp)
  then have "lock_reach KmemLock (?s3, ((?pc(0 := Spinning))(0 := Won))(0 := Inside))"
    by (rule lock_reach.step) (rule lock_step.set_cpu, simp)
  then have "lock_reach KmemLock (push_off (?s3\<lparr>tp := 1\<rparr>),
      (((?pc(0 := Spinning))(0 := Won))(0 := Inside))(1 := Spinning))"
    by (rule lock_reach.step) (rule lock_step.enter, simp,
      simp add: acquire_enter_def holding_def acquire_record_def upd_lock_def cpuid_def)
  then show ?thesis by auto
qed

theorem spinlock_mutual_exclusion_witness:
  "\<exists>s pc. lock_reach KmemLock (s, pc) \<and> pc 0 = Inside \<and> pc 1 = Spinning \<and>
    release_check KmemLock (s\<lparr>tp := 0\<rparr>) \<noteq> panic ''release''"
proof -
  obtain s where s: "lock_reach KmemLock (s, (\<lambda>_. Outside)(0 := Inside, 1 := Spinning))"
    using lock_reach_two_harts by blast
  show ?thesis
    by (rule exI [of _ s], rule exI [of _ "(\<lambda>_. Outside)(0 := Inside, 1 := Spinning)"])
      (use spinlock_mutual_exclusion [OF s, of 0 0] s in simp)
qed

end
