(* ===== verification/Cstring.thy ===== *)
theory Cstring
  imports Kstate
begin

text \<open>
  \<^verbatim>\<open>kernel/string.c\<close>. \<^verbatim>\<open>memset\<close> and \<^verbatim>\<open>memmove\<close> work on physical memory, since what they do
  depends on how their arguments overlap; they return their first argument, so the model
  returns the memory only. The functions that only read take a pointer as the function from
  offsets to bytes found there, and the copying ones return the bytes they store.
\<close>

section \<open>Filling and moving memory\<close>

function memset_loop :: "memory \<Rightarrow> uint64 \<Rightarrow> uchar \<Rightarrow> nat \<Rightarrow> nat \<Rightarrow> memory" where
  "memset_loop m cdst c i n =
    (if i < n then memset_loop (m(cdst + of_nat i := c)) cdst c (Suc i) n else m)"
  by pat_completeness auto
termination
  by (relation "measure (\<lambda>(m, cdst, c, i, n). n - i)") auto

declare memset_loop.simps [simp del]

definition memset :: "memory \<Rightarrow> uint64 \<Rightarrow> uint \<Rightarrow> uint \<Rightarrow> memory" where
  "memset m dst c n = memset_loop m dst (ucast c) 0 (unat n)"

primrec memmove_down :: "memory \<Rightarrow> uint64 \<Rightarrow> uint64 \<Rightarrow> nat \<Rightarrow> memory" where
  "memmove_down m d s 0 = m"
| "memmove_down m d s (Suc n) = memmove_down (m(d - 1 := m (s - 1))) (d - 1) (s - 1) n"

primrec memmove_up :: "memory \<Rightarrow> uint64 \<Rightarrow> uint64 \<Rightarrow> nat \<Rightarrow> memory" where
  "memmove_up m d s 0 = m"
| "memmove_up m d s (Suc n) = memmove_up (m(d := m s)) (d + 1) (s + 1) n"

definition memmove :: "memory \<Rightarrow> uint64 \<Rightarrow> uint64 \<Rightarrow> uint \<Rightarrow> memory" where
  "memmove m dst src n =
    (if n = 0 then m
     else if src < dst \<and> src + ucast n > dst
     then memmove_down m (dst + ucast n) (src + ucast n) (unat n)
     else memmove_up m dst src (unat n))"

definition memcpy :: "memory \<Rightarrow> uint64 \<Rightarrow> uint64 \<Rightarrow> uint \<Rightarrow> memory" where
  "memcpy m dst src n = memmove m dst src n"

section \<open>Comparing and copying strings\<close>

text \<open>\<open>p i\<close> is the byte at offset \<open>i\<close> from the pointer.\<close>

type_synonym reader = "nat \<Rightarrow> uchar"

definition at_mem :: "memory \<Rightarrow> uint64 \<Rightarrow> reader" where
  "at_mem m a i = m (a + of_nat i)"

definition at_list :: "uchar list \<Rightarrow> reader" where
  "at_list xs i = (if i < length xs then xs ! i else 0)"

fun memcmp_from :: "reader \<Rightarrow> reader \<Rightarrow> nat \<Rightarrow> nat \<Rightarrow> int" where
  "memcmp_from p q i 0 = 0"
| "memcmp_from p q i (Suc n) =
    (if p i \<noteq> q i then uint (p i) - uint (q i) else memcmp_from p q (Suc i) n)"

definition memcmp :: "reader \<Rightarrow> reader \<Rightarrow> uint \<Rightarrow> int" where
  "memcmp v1 v2 n = memcmp_from v1 v2 0 (unat n)"

fun strncmp_from :: "reader \<Rightarrow> reader \<Rightarrow> nat \<Rightarrow> nat \<Rightarrow> int" where
  "strncmp_from p q i 0 = 0"
| "strncmp_from p q i (Suc n) =
    (if p i \<noteq> 0 \<and> p i = q i then strncmp_from p q (Suc i) n
     else uint (p i) - uint (q i))"

definition strncmp :: "reader \<Rightarrow> reader \<Rightarrow> uint \<Rightarrow> int" where
  "strncmp p q n = strncmp_from p q 0 (unat n)"

text \<open>
  The two loops of \<^verbatim>\<open>strncpy\<close>: the first copies up to and including a zero byte, the
  second fills what is left with zeros. The result is the list of bytes stored from \<open>s\<close> on.
\<close>

function strncpy_copy :: "reader \<Rightarrow> nat \<Rightarrow> int \<Rightarrow> uchar list \<times> int" where
  "strncpy_copy t i n =
    (if n > 0 then
       (if t i \<noteq> 0 then
          (let (bs, n') = strncpy_copy t (Suc i) (n - 1) in (t i # bs, n'))
        else ([t i], n - 1))
     else ([], n - 1))"
  by pat_completeness auto
termination
  by (relation "measure (\<lambda>(t, i, n). nat n)") auto

declare strncpy_copy.simps [simp del]

function strncpy_pad :: "int \<Rightarrow> uchar list" where
  "strncpy_pad n = (if n > 0 then 0 # strncpy_pad (n - 1) else [])"
  by pat_completeness auto
termination
  by (relation "measure nat") auto

declare strncpy_pad.simps [simp del]

definition strncpy :: "reader \<Rightarrow> int \<Rightarrow> uchar list" where
  "strncpy t n = (let (bs, n') = strncpy_copy t 0 n in bs @ strncpy_pad n')"

function safestrcpy_from :: "reader \<Rightarrow> nat \<Rightarrow> int \<Rightarrow> uchar list" where
  "safestrcpy_from t i n =
    (let n = n - 1 in
     if n > 0 then
       (if t i \<noteq> 0 then t i # safestrcpy_from t (Suc i) n else [t i, 0])
     else [0])"
  by pat_completeness auto
termination
  by (relation "measure (\<lambda>(t, i, n). nat n)") auto

declare safestrcpy_from.simps [simp del]

definition safestrcpy :: "reader \<Rightarrow> int \<Rightarrow> uchar list" where
  "safestrcpy t n = (if n \<le> 0 then [] else safestrcpy_from t 0 n)"

text \<open>\<^verbatim>\<open>strlen\<close> returns only if there is a zero byte.\<close>

partial_function (option) strlen_from :: "reader \<Rightarrow> nat \<Rightarrow> nat option" where
  "strlen_from s n = (if s n \<noteq> 0 then strlen_from s (Suc n) else Some n)"

definition strlen :: "reader \<Rightarrow> nat option" where
  "strlen s = strlen_from s 0"

section \<open>What they compute\<close>

lemma memset_loop_apply:
  assumes "n \<le> 2 ^ 64"
  shows "memset_loop m d c i n x =
    (if i \<le> unat (x - d) \<and> unat (x - d) < n then c else m x)"
  using assms
proof (induction m d c i n rule: memset_loop.induct)
  case (1 m d c i n)
  show ?case
  proof (cases "i < n")
    case True
    have eq: "x = d + of_nat i \<longleftrightarrow> unat (x - d) = i"
      using True "1.prems" by (subst unat_sub_eq_iff) auto
    from "1.IH" [OF True "1.prems"] True eq show ?thesis
      by (subst memset_loop.simps) (auto simp: fun_upd_def)
  next
    case False
    then show ?thesis by (subst memset_loop.simps) auto
  qed
qed

lemma memset_apply:
  "memset m d c n x = (if unat (x - d) < unat n then ucast c else m x)"
proof -
  have "unat n < 2 ^ LENGTH(32)" by (rule unsigned_less)
  then have "unat n \<le> 2 ^ 64" by simp
  then show ?thesis by (simp add: memset_def memset_loop_apply)
qed

lemma memmove_up_apply:
  assumes "unat d + n \<le> 2 ^ 64" and "unat s + n \<le> 2 ^ 64" and "d \<le> s \<or> unat s + n \<le> unat d"
  shows "memmove_up m d s n x = (if unat (x - d) < n then m (s + (x - d)) else m x)"
  using assms
proof (induction n arbitrary: m d s)
  case 0
  then show ?case by simp
next
  case (Suc n)
  show ?case
  proof (cases "n = 0")
    case True
    have "unat (x - d) < Suc 0 \<longleftrightarrow> x = d" by (auto simp: unat_eq_zero)
    with True show ?thesis by simp
  next
    case False
    have sd: "unat (d + 1) = unat d + 1" "unat (s + 1) = unat s + 1"
      using Suc.prems False by (auto simp: unat_word_ariths)
    have IH: "memmove_up (m(d := m s)) (d + 1) (s + 1) n x =
      (if unat (x - (d + 1)) < n then (m(d := m s)) (s + 1 + (x - (d + 1))) else (m(d := m s)) x)"
      using Suc.prems sd by (intro Suc.IH) (auto simp: word_le_nat_alt)
    show ?thesis
    proof (cases "x = d")
      case True
      have "unat (x - (d + 1)) = 2 ^ 64 - 1"
        using True by (simp add: unsigned_minus_1_eq_mask mask_eq_exp_minus_1)
      then have "\<not> unat (x - (d + 1)) < n" using Suc.prems by simp
      then show ?thesis using True IH by simp
    next
      case False
      then have nz: "x - d \<noteq> 0" by simp
      have eq: "x - (d + 1) = (x - d) - 1" by simp
      have un: "unat (x - (d + 1)) = unat (x - d) - 1"
        unfolding eq by (rule unat_minus_one [OF nz])
      have pos: "0 < unat (x - d)" using nz by (simp add: unat_gt_0)
      have src: "s + 1 + (x - (d + 1)) = s + (x - d)" by simp
      have "s + (x - d) \<noteq> d" if "unat (x - d) < Suc n"
      proof
        assume eq: "s + (x - d) = d"
        have "unat (s + (x - d)) = unat s + unat (x - d)"
          using that Suc.prems by (subst unat_word_ariths) auto
        then have "unat d = unat s + unat (x - d)" unfolding eq .
        with pos Suc.prems that show False by (auto simp: word_le_nat_alt)
      qed
      with IH un pos src False show ?thesis by auto
    qed
  qed
qed

lemma memmove_down_apply:
  assumes "unat d + n \<le> 2 ^ 64" and "unat s + n \<le> 2 ^ 64" and "s \<le> d"
  shows "memmove_down m (d + of_nat n) (s + of_nat n) n x =
    (if unat (x - d) < n then m (s + (x - d)) else m x)"
  using assms
proof (induction n arbitrary: m)
  case 0
  then show ?case by simp
next
  case (Suc n)
  let ?m = "m(d + of_nat n := m (s + of_nat n))"
  have IH: "memmove_down ?m (d + of_nat n) (s + of_nat n) n x =
    (if unat (x - d) < n then ?m (s + (x - d)) else ?m x)"
    using Suc by simp
  have n64: "n < 2 ^ 64" using Suc.prems by simp
  have xn: "unat (x - d) = n \<longleftrightarrow> x = d + of_nat n"
    using n64 by (subst unat_sub_eq_iff) auto
  have keep: "s + (x - d) \<noteq> d + of_nat n" if "unat (x - d) < n"
  proof
    assume eq: "s + (x - d) = d + of_nat n"
    have "unat (s + (x - d)) = unat s + unat (x - d)"
      using that Suc.prems by (subst unat_word_ariths) auto
    moreover have "unat (d + of_nat n) = unat d + n"
      using Suc.prems by (subst unat_word_ariths) (auto simp: unat_of_nat)
    ultimately show False using eq that Suc.prems by (auto simp: word_le_nat_alt)
  qed
  have "memmove_down m (d + of_nat (Suc n)) (s + of_nat (Suc n)) (Suc n) x =
      memmove_down ?m (d + of_nat n) (s + of_nat n) n x"
    by (simp add: algebra_simps)
  also have "\<dots> = (if unat (x - d) < Suc n then m (s + (x - d)) else m x)"
    using IH xn keep by (auto simp: less_Suc_eq)
  finally show ?case .
qed

text \<open>
  C19: \<^verbatim>\<open>memmove\<close> copies as if through a temporary, whether the regions overlap or not and in
  whichever direction: byte \<open>i\<close> of the destination becomes the old byte \<open>i\<close> of the source,
  and no other byte changes, for regions that do not run past the end of memory.
\<close>

theorem memmove_copies:
  assumes "unat dst + unat n \<le> 2 ^ 64" and "unat src + unat n \<le> 2 ^ 64"
  shows "memmove m dst src n x =
    (if unat (x - dst) < unat n then m (src + (x - dst)) else m x)"
proof -
  have of_n: "ucast n = (of_nat (unat n) :: uint64)"
    by simp
  consider "n = 0" | "n \<noteq> 0" "src < dst \<and> src + ucast n > dst"
    | "n \<noteq> 0" "\<not> (src < dst \<and> src + ucast n > dst)" by blast
  then show ?thesis
  proof cases
    case 1
    then show ?thesis by (simp add: memmove_def)
  next
    case 2
    then show ?thesis
      using memmove_down_apply [of dst "unat n" src m x] assms
      by (simp add: memmove_def less_imp_le)
  next
    case 3
    have "dst \<le> src \<or> unat src + unat n \<le> unat dst"
    proof (cases "dst \<le> src")
      case False
      then have "src < dst" by simp
      with 3 have le: "src + ucast n \<le> dst" by simp
      show ?thesis
      proof (cases "unat src + unat n < 2 ^ 64")
        case True
        then have "unat (src + ucast n) = unat src + unat n"
          by (subst unat_word_ariths) simp
        with le show ?thesis by (simp add: word_le_nat_alt)
      next
        case big: False
        with assms have "unat src + unat n = 2 ^ 64" by simp
        moreover have "unat src < unat dst"
          using \<open>src < dst\<close> by (simp add: word_less_nat_alt)
        ultimately show ?thesis using assms(1) by simp
      qed
    qed simp
    with 3 show ?thesis
      using memmove_up_apply [of dst "unat n" src m x] assms by (auto simp: memmove_def)
  qed
qed

theorem memmove_copies_witness:
  "unat (102::uint64) + unat (4::uint) \<le> 2 ^ 64 \<and> unat (100::uint64) + unat (4::uint) \<le> 2 ^ 64 \<and>
   memmove (\<lambda>a. ucast a) 102 100 4 105 = 103 \<and> memmove (\<lambda>a. ucast a) 102 100 4 106 = 106"
  using memmove_copies [of 102 4 100 "\<lambda>a. ucast a" 105]
    memmove_copies [of 102 4 100 "\<lambda>a. ucast a" 106]
  by simp

lemma load_bytes_memset:
  assumes "k \<le> unat n"
  shows "load_bytes (memset m a c n) a k = replicate k (ucast c)"
proof (rule nth_equalityI)
  fix i
  assume "i < length (load_bytes (memset m a c n) a k)"
  then have i: "i < k" by simp
  have "unat n < 2 ^ LENGTH(32)" by (rule unsigned_less)
  with i assms have "unat (of_nat i :: uint64) = i" by (simp add: unat_of_nat)
  with i assms show "load_bytes (memset m a c n) a k ! i = replicate k (ucast c) ! i"
    by (simp add: memset_apply)
qed simp

subsection \<open>Comparing\<close>

lemma memcmp_from_eq_0:
  "memcmp_from p q i n = 0 \<longleftrightarrow> (\<forall>j. i \<le> j \<and> j < i + n \<longrightarrow> p j = q j)"
proof (induction n arbitrary: i)
  case 0
  then show ?case by auto
next
  case (Suc n)
  show ?case
  proof (cases "p i = q i")
    case True
    have "(\<forall>j. i \<le> j \<and> j < i + Suc n \<longrightarrow> p j = q j) \<longleftrightarrow>
        (\<forall>j. Suc i \<le> j \<and> j < Suc i + n \<longrightarrow> p j = q j)"
      using True by (metis Suc_le_eq add_Suc add_Suc_right le_less)
    then show ?thesis using True Suc.IH [of "Suc i"] by simp
  next
    case False
    then have "uint (p i) \<noteq> uint (q i)" by (simp add: word_uint_eq_iff)
    with False show ?thesis by auto
  qed
qed

lemma strncmp_from_eq_0:
  "strncmp_from p q i n = 0 \<longleftrightarrow>
    (\<forall>j. i \<le> j \<and> j < i + n \<and> (\<forall>k. i \<le> k \<and> k < j \<longrightarrow> p k \<noteq> 0) \<longrightarrow> p j = q j)"
proof (induction n arbitrary: i)
  case 0
  then show ?case by auto
next
  case (Suc n)
  show ?case
  proof (cases "p i \<noteq> 0 \<and> p i = q i")
    case True
    have "(\<forall>j. i \<le> j \<and> j < i + Suc n \<and> (\<forall>k. i \<le> k \<and> k < j \<longrightarrow> p k \<noteq> 0) \<longrightarrow> p j = q j) \<longleftrightarrow>
      (\<forall>j. Suc i \<le> j \<and> j < Suc i + n \<and> (\<forall>k. Suc i \<le> k \<and> k < j \<longrightarrow> p k \<noteq> 0) \<longrightarrow> p j = q j)"
      (is "?l \<longleftrightarrow> ?r")
    proof
      assume ?l
      show ?r
      proof (intro allI impI)
        fix j
        assume a: "Suc i \<le> j \<and> j < Suc i + n \<and> (\<forall>k. Suc i \<le> k \<and> k < j \<longrightarrow> p k \<noteq> 0)"
        have "\<forall>k. i \<le> k \<and> k < j \<longrightarrow> p k \<noteq> 0"
        proof (intro allI impI)
          fix k
          assume "i \<le> k \<and> k < j"
          with a True show "p k \<noteq> 0" by (cases "k = i") auto
        qed
        with a \<open>?l\<close> show "p j = q j" by auto
      qed
    next
      assume ?r
      show ?l
      proof (intro allI impI)
        fix j
        assume a: "i \<le> j \<and> j < i + Suc n \<and> (\<forall>k. i \<le> k \<and> k < j \<longrightarrow> p k \<noteq> 0)"
        with \<open>?r\<close> True show "p j = q j" by (cases "j = i") auto
      qed
    qed
    moreover have "strncmp_from p q i (Suc n) = strncmp_from p q (Suc i) n"
      using True by auto
    ultimately show ?thesis using Suc.IH [of "Suc i"] by presburger
  next
    case False
    have "strncmp_from p q i (Suc n) = 0 \<longleftrightarrow> p i = q i"
      using False by (auto simp: word_uint_eq_iff)
    moreover have "(\<forall>j. i \<le> j \<and> j < i + Suc n \<and> (\<forall>k. i \<le> k \<and> k < j \<longrightarrow> p k \<noteq> 0) \<longrightarrow> p j = q j)
        \<longleftrightarrow> p i = q i"
    proof
      assume "p i = q i"
      with False have "p i = 0" by simp
      show "\<forall>j. i \<le> j \<and> j < i + Suc n \<and> (\<forall>k. i \<le> k \<and> k < j \<longrightarrow> p k \<noteq> 0) \<longrightarrow> p j = q j"
      proof (intro allI impI)
        fix j
        assume "i \<le> j \<and> j < i + Suc n \<and> (\<forall>k. i \<le> k \<and> k < j \<longrightarrow> p k \<noteq> 0)"
        with \<open>p i = 0\<close> \<open>p i = q i\<close> show "p j = q j" by (cases "j = i") auto
      qed
    qed auto
    ultimately show ?thesis by blast
  qed
qed

subsection \<open>Copying\<close>

text \<open>The string a pointer denotes within its first \<open>n\<close> bytes: what precedes the first zero.\<close>

definition cstr :: "reader \<Rightarrow> nat \<Rightarrow> uchar list" where
  "cstr t n = takeWhile (\<lambda>b. b \<noteq> 0) (map t [0..<n])"

lemma strncpy_pad_eq: "strncpy_pad n = replicate (nat n) 0"
proof (induction n rule: strncpy_pad.induct)
  case (1 n)
  show ?case
  proof (cases "n > 0")
    case True
    then have "nat n = Suc (nat (n - 1))" by simp
    with 1 True show ?thesis by (subst strncpy_pad.simps) simp
  next
    case False
    then show ?thesis by (subst strncpy_pad.simps) simp
  qed
qed

lemma strncpy_copy_pad:
  "(let (bs, n') = strncpy_copy t i n in bs @ strncpy_pad n') =
    takeWhile (\<lambda>b. b \<noteq> 0) (map t [i..<i + nat n]) @
    replicate (nat n - length (takeWhile (\<lambda>b. b \<noteq> 0) (map t [i..<i + nat n]))) 0"
proof (induction t i n rule: strncpy_copy.induct)
  case (1 t i n)
  show ?case
  proof (cases "n > 0")
    case True
    then have n: "nat n = Suc (nat (n - 1))" by simp
    have up: "[i..<i + nat n] = i # [Suc i..<Suc i + nat (n - 1)]"
      unfolding n by (simp add: upt_conv_Cons)
    show ?thesis
    proof (cases "t i = 0")
      case z: True
      with True show ?thesis
        by (subst strncpy_copy.simps, simp add: up strncpy_pad_eq) (simp add: n)
    next
      case nz: False
      with "1.IH" [OF True nz] True show ?thesis
        by (subst strncpy_copy.simps, simp add: up case_prod_beta Let_def) (simp add: n)
    qed
  next
    case False
    then show ?thesis by (subst strncpy_copy.simps) (simp add: strncpy_pad_eq)
  qed
qed

text \<open>
  C20: \<^verbatim>\<open>strncpy\<close> stores exactly \<open>n\<close> bytes: the source string cut at \<open>n\<close>, then zeros.
\<close>

theorem strncpy_stores:
  "strncpy t n = cstr t (nat n) @ replicate (nat n - length (cstr t (nat n))) 0 \<and>
   length (strncpy t n) = nat n"
proof -
  have "length (cstr t (nat n)) \<le> nat n"
    using length_takeWhile_le [of _ "map t [0..<nat n]"] by (simp add: cstr_def)
  then show ?thesis
    using strncpy_copy_pad [of t 0 n] by (simp add: strncpy_def cstr_def)
qed

lemma safestrcpy_from_eq:
  "0 < n \<Longrightarrow> safestrcpy_from t i n =
    (let ws = takeWhile (\<lambda>b. b \<noteq> 0) (map t [i..<i + nat (n - 1)])
     in ws @ [0] @ (if length ws < nat (n - 1) then [0] else []))"
proof (induction t i n rule: safestrcpy_from.induct)
  case (1 t i n)
  show ?case
  proof (cases "n - 1 > 0")
    case True
    then have n: "nat (n - 1) = Suc (nat (n - 1 - 1))" by simp
    have up: "[i..<i + nat (n - 1)] = i # [Suc i..<Suc i + nat (n - 1 - 1)]"
      unfolding n by (simp add: upt_conv_Cons)
    show ?thesis
    proof (cases "t i = 0")
      case z: True
      with True show ?thesis
        by (subst safestrcpy_from.simps) (simp add: up Let_def)
    next
      case nz: False
      with "1.IH" [OF refl True nz] True show ?thesis
        by (subst safestrcpy_from.simps, simp add: up Let_def) (auto simp: n)
    qed
  next
    case False
    with "1.prems" have "n = 1" by simp
    then show ?thesis by (subst safestrcpy_from.simps) simp
  qed
qed

text \<open>
  C21: For a positive size \<open>n\<close>, \<^verbatim>\<open>safestrcpy\<close> stores at most \<open>n\<close> bytes, and they begin with the
  source string cut at \<open>n - 1\<close> followed by a zero byte: the result is always terminated.
\<close>

theorem safestrcpy_terminates:
  assumes "0 < n"
  shows "length (safestrcpy t n) \<le> nat n \<and>
    take (Suc (length (cstr t (nat (n - 1))))) (safestrcpy t n) = cstr t (nat (n - 1)) @ [0]"
proof -
  have "length (cstr t (nat (n - 1))) \<le> nat (n - 1)"
    using length_takeWhile_le [of _ "map t [0..<nat (n - 1)]"] by (simp add: cstr_def)
  with assms show ?thesis
    using safestrcpy_from_eq [OF assms, of t 0]
    by (auto simp: safestrcpy_def cstr_def Let_def)
qed

theorem safestrcpy_terminates_witness:
  "(0::int) < 4 \<and> length (safestrcpy (at_list [104, 101, 108, 108, 111]) 4) \<le> nat 4 \<and>
   take (Suc (length (cstr (at_list [104, 101, 108, 108, 111]) (nat (4 - 1)))))
     (safestrcpy (at_list [104, 101, 108, 108, 111]) 4) =
   cstr (at_list [104, 101, 108, 108, 111]) (nat (4 - 1)) @ [0]"
  using safestrcpy_terminates [of 4 "at_list [104, 101, 108, 108, 111]"] by simp

lemma strlen_from_Some:
  assumes "s k = 0" and "i \<le> k" and "\<And>j. i \<le> j \<Longrightarrow> j < k \<Longrightarrow> s j \<noteq> 0"
  shows "strlen_from s i = Some k"
  using assms(2,3)
proof (induction "k - i" arbitrary: i)
  case 0
  with assms(1) show ?case by (simp add: strlen_from.simps)
next
  case (Suc d)
  then have "s i \<noteq> 0" by simp
  moreover have "strlen_from s (Suc i) = Some k"
    using Suc by simp
  ultimately show ?case by (simp add: strlen_from.simps [of s i])
qed

lemma strlen_eq_Some:
  "s k = 0 \<Longrightarrow> (\<And>j. j < k \<Longrightarrow> s j \<noteq> 0) \<Longrightarrow> strlen s = Some k"
  by (simp add: strlen_def strlen_from_Some)

end
