(* ===== verification/Kalloc.thy ===== *)
theory Kalloc
  imports Spinlock Cstring
begin

text \<open>
  \<^verbatim>\<open>kernel/kalloc.c\<close>, the physical page allocator. The free list lives in the free pages
  themselves: the first eight bytes of a free page hold the address of the next one. The
  interface its clients rely on is the locale \<open>page_allocator\<close>.
\<close>

section \<open>Pages\<close>

definition PGROUNDUP :: "uint64 \<Rightarrow> uint64" where
  "PGROUNDUP sz = (sz + PGSIZE - 1) AND NOT (PGSIZE - 1)"

definition PGROUNDDOWN :: "uint64 \<Rightarrow> uint64" where
  "PGROUNDDOWN a = a AND NOT (PGSIZE - 1)"

section \<open>Operations\<close>

definition kfree :: "uint64 \<Rightarrow> kstate \<Rightarrow> unit kres" where
  "kfree pa s =
    (if pa mod PGSIZE \<noteq> 0 \<or> pa < sym_end (syms s) \<or> pa \<ge> PHYSTOP then panic ''kfree''
     else
       let s = s\<lparr>mem := memset (mem s) pa 1 (ucast PGSIZE)\<rparr>
       in bindE (acquire KmemLock s) (\<lambda>_ s.
          let s = s\<lparr>mem := store64 (mem s) pa (freelist s)\<rparr>;
              s = s\<lparr>freelist := pa\<rparr>
          in release KmemLock s))"

definition kalloc :: "kstate \<Rightarrow> uint64 kres" where
  "kalloc s =
    bindE (acquire KmemLock s) (\<lambda>_ s.
    let r = freelist s;
        s = (if r \<noteq> 0 then s\<lparr>freelist := load64 (mem s) r\<rparr> else s)
    in bindE (release KmemLock s) (\<lambda>_ s.
       let s = (if r \<noteq> 0 then s\<lparr>mem := memset (mem s) r 5 (ucast PGSIZE)\<rparr> else s)
       in ret r s))"

lemma kfree_success_bound: "kfree pa s = Inr r \<Longrightarrow> pa < PHYSTOP"
  by (auto simp: kfree_def split: if_splits)

lemma unat_PHYSTOP: "unat PHYSTOP = 0x88000000"
  by (simp add: PHYSTOP_def KERNBASE_def)

lemma unat_PGSIZE [simp]: "unat PGSIZE = 4096"
  by (simp add: PGSIZE_def)

function freerange_from :: "uint64 \<Rightarrow> uint64 \<Rightarrow> kstate \<Rightarrow> unit kres" where
  "freerange_from p pa_end s =
    (if p + PGSIZE \<le> pa_end
     then bindE (kfree p s) (\<lambda>_ s. freerange_from (p + PGSIZE) pa_end s)
     else ret () s)"
  by pat_completeness auto
termination
proof (relation "measure (\<lambda>(p, pa_end, s). 2 ^ 64 - unat p)")
  fix p pa_end :: uint64 and s s' :: kstate and a :: unit
  assume "kfree p s = Inr (a, s')"
  then have "unat p < 0x88000000"
    by (metis kfree_success_bound word_less_nat_alt unat_PHYSTOP)
  then show "((p + PGSIZE, pa_end, s'), (p, pa_end, s))
      \<in> measure (\<lambda>(p, pa_end, s). 2 ^ 64 - unat p)"
    by (simp add: unat_word_ariths)
qed simp

declare freerange_from.simps [simp del]

definition freerange :: "uint64 \<Rightarrow> uint64 \<Rightarrow> kstate \<Rightarrow> unit kres" where
  "freerange pa_start pa_end s = freerange_from (PGROUNDUP pa_start) pa_end s"

definition kinit :: "kstate \<Rightarrow> unit kres" where
  "kinit s =
    (let s = initlock KmemLock ''kmem'' s in freerange (sym_end (syms s)) PHYSTOP s)"

section \<open>Page arithmetic\<close>

lemma PG_mask: "PGSIZE - 1 = mask 12"
  by (simp add: PGSIZE_def mask_eq_exp_minus_1)

lemma PGSIZE_power: "PGSIZE = 2 ^ 12"
  by (simp add: PGSIZE_def)

lemma unat_mod_PGSIZE: "unat (a mod PGSIZE) = unat a mod 4096"
  by (simp add: unat_mod_distrib)

lemma mod_PGSIZE_0: "a mod PGSIZE = 0 \<longleftrightarrow> unat a mod 4096 = 0"
  by (metis unat_eq_zero unat_mod_PGSIZE)

lemma unat_PGROUNDDOWN: "unat (PGROUNDDOWN a) = unat a - unat a mod 4096"
proof -
  have "(a AND NOT (mask 12)) + take_bit 12 a = a"
    by (subst disjunctive_add) (auto simp: bit_simps intro!: bit_eqI)
  moreover have "take_bit 12 a = a mod PGSIZE"
    by (simp add: PGSIZE_power take_bit_eq_mod)
  ultimately have eq: "PGROUNDDOWN a = a - a mod PGSIZE"
    unfolding PGROUNDDOWN_def PG_mask by (metis eq_diff_eq)
  have "a mod PGSIZE \<le> a"
    by (simp add: word_le_nat_alt unat_mod_PGSIZE)
  then show ?thesis by (simp add: eq unat_sub unat_mod_PGSIZE)
qed

lemma PGROUNDDOWN_aligned: "unat (PGROUNDDOWN a) mod 4096 = 0"
  by (simp add: unat_PGROUNDDOWN minus_mod_eq_mult_div)

lemma unat_PGROUNDUP:
  assumes "unat sz + 4095 < 2 ^ 64"
  shows "unat (PGROUNDUP sz) = (unat sz + 4095) - (unat sz + 4095) mod 4096"
proof -
  have up: "PGROUNDUP sz = PGROUNDDOWN (sz + PGSIZE - 1)"
    by (simp add: PGROUNDUP_def PGROUNDDOWN_def)
  have eq: "sz + PGSIZE - 1 = sz + 4095" by (simp add: PGSIZE_def)
  have "unat (sz + PGSIZE - 1) = unat sz + 4095"
    unfolding eq using assms by (simp add: unat_word_ariths)
  then show ?thesis by (simp only: up unat_PGROUNDDOWN)
qed

text \<open>\<open>in_page p x\<close>: address \<open>x\<close> lies in the page that starts at \<open>p\<close>.\<close>

definition page_aligned :: "uint64 \<Rightarrow> bool" where
  "page_aligned p \<longleftrightarrow> p mod PGSIZE = 0"

definition in_page :: "uint64 \<Rightarrow> uint64 \<Rightarrow> bool" where
  "in_page p x \<longleftrightarrow> unat (x - p) < 4096"

lemma page_aligned_room: "page_aligned p \<Longrightarrow> unat p + 4096 \<le> 2 ^ 64"
proof -
  assume "page_aligned p"
  then have "4096 dvd unat p" by (auto simp: page_aligned_def mod_PGSIZE_0)
  then obtain k where k: "unat p = 4096 * k" by blast
  have "unat p < 2 ^ 64" using unsigned_less [of p] by simp
  with k show ?thesis by simp
qed

lemma in_page_unat:
  assumes "page_aligned p" and "in_page p x"
  shows "unat x = unat p + unat (x - p)"
proof -
  have "unat p + unat (x - p) < 2 ^ 64"
    using page_aligned_room [OF assms(1)] assms(2) by (simp add: in_page_def)
  then have "unat (p + (x - p)) = unat p + unat (x - p)"
    by (intro unat_add_no_wrap) simp
  then show ?thesis by simp
qed

lemma in_page_PGROUNDDOWN:
  assumes "page_aligned p" and "in_page p x"
  shows "PGROUNDDOWN x = p"
proof -
  have "unat x mod 4096 = unat (x - p)"
    using in_page_unat [OF assms] assms
    by (auto simp: page_aligned_def mod_PGSIZE_0 in_page_def mod_add_eq [symmetric])
  then have "unat (PGROUNDDOWN x) = unat p"
    using in_page_unat [OF assms] by (simp add: unat_PGROUNDDOWN)
  then show ?thesis by (simp add: word_unat_eq_iff)
qed

lemma in_page_unique:
  "page_aligned p \<Longrightarrow> page_aligned q \<Longrightarrow> in_page p x \<Longrightarrow> in_page q x \<Longrightarrow> p = q"
  using in_page_PGROUNDDOWN by blast

lemma in_page_other:
  "page_aligned p \<Longrightarrow> page_aligned q \<Longrightarrow> p \<noteq> q \<Longrightarrow> in_page q x \<Longrightarrow> \<not> in_page p x"
  using in_page_unique by blast

lemma in_page_offset: "k < 4096 \<Longrightarrow> in_page p (p + of_nat k)"
  by (simp add: in_page_def unat_of_nat)

lemma in_page_self [simp]: "in_page p p"
  by (simp add: in_page_def)

lemma load64_page_cong:
  assumes "\<And>x. in_page p x \<Longrightarrow> m x = m' x"
  shows "load64 m p = load64 m' p"
proof -
  have "load_bytes m p 8 = load_bytes m' p 8"
    by (rule load_bytes_cong) (simp add: assms in_page_offset)
  then show ?thesis by (simp add: load64_def)
qed

lemma store64_page: "\<not> in_page p x \<Longrightarrow> store64 m p v x = m x"
  by (auto simp: store64_apply in_page_def)

lemma memset_page:
  "memset m p c (ucast PGSIZE) x = (if in_page p x then ucast c else m x)"
  by (simp add: memset_apply in_page_def PGSIZE_def)

section \<open>The free list\<close>

text \<open>
  \<open>chain m a ps\<close>: starting at \<open>a\<close> and following the first word of each page, memory \<open>m\<close> holds
  the list of pages \<open>ps\<close>, ended by a null pointer.
\<close>

primrec chain :: "memory \<Rightarrow> uint64 \<Rightarrow> uint64 list \<Rightarrow> bool" where
  "chain m a [] \<longleftrightarrow> a = 0"
| "chain m a (p # ps) \<longleftrightarrow> a = p \<and> p \<noteq> 0 \<and> chain m (load64 m p) ps"

definition valid_page :: "kstate \<Rightarrow> uint64 \<Rightarrow> bool" where
  "valid_page s p \<longleftrightarrow> page_aligned p \<and> sym_end (syms s) \<le> p \<and> p < PHYSTOP"

text \<open>
  The allocator's invariant: \<open>ps\<close> is its free list, no page twice, all of them pages the
  allocator owns, and its lock is free on a hart whose interrupt nesting is in order.
\<close>

definition kmem_inv :: "kstate \<Rightarrow> uint64 list \<Rightarrow> bool" where
  "kmem_inv s ps \<longleftrightarrow> cpu_ok s \<and> lock_free KmemLock s \<and> sym_end (syms s) \<noteq> 0 \<and>
     chain (mem s) (freelist s) ps \<and> distinct ps \<and> (\<forall>p \<in> set ps. valid_page s p)"

lemma chain_cong:
  assumes "\<And>p x. p \<in> set ps \<Longrightarrow> in_page p x \<Longrightarrow> m x = m' x"
  shows "chain m a ps = chain m' a ps"
  using assms
proof (induction ps arbitrary: a)
  case Nil
  then show ?case by simp
next
  case (Cons p ps)
  have "load64 m p = load64 m' p"
    by (rule load64_page_cong) (rule Cons.prems [of p], simp_all)
  moreover have "chain m (load64 m' p) ps = chain m' (load64 m' p) ps"
    by (rule Cons.IH) (rule Cons.prems, auto)
  ultimately show ?case by simp
qed

lemma valid_page_aligned [simp]: "valid_page s p \<Longrightarrow> page_aligned p"
  by (simp add: valid_page_def)

lemma valid_page_nonzero: "kmem_inv s ps \<Longrightarrow> valid_page s p \<Longrightarrow> p \<noteq> 0"
  by (auto simp: kmem_inv_def valid_page_def)

lemma kalloc_nil:
  assumes "kmem_inv s []"
  shows "kalloc s = ret 0 (crit s)"
  using assms by (simp add: kmem_inv_def kalloc_def)

lemma kalloc_cons:
  assumes "kmem_inv s (p # ps)"
  shows "kalloc s = ret p (crit (s\<lparr>freelist := load64 (mem s) p,
      mem := memset (mem s) p 5 (ucast PGSIZE)\<rparr>))"
  using assms by (simp add: kmem_inv_def kalloc_def Let_def)

lemma kmem_inv_pop:
  assumes "kmem_inv s (p # ps)"
  shows "kmem_inv (crit (s\<lparr>freelist := load64 (mem s) p,
      mem := memset (mem s) p 5 (ucast PGSIZE)\<rparr>)) ps"
proof -
  have "chain (memset (mem s) p 5 (ucast PGSIZE)) (load64 (mem s) p) ps =
      chain (mem s) (load64 (mem s) p) ps"
  proof (rule chain_cong)
    fix q x
    assume "q \<in> set ps" and "in_page q x"
    moreover from this assms have "page_aligned p" "page_aligned q" "p \<noteq> q"
      by (auto simp: kmem_inv_def)
    ultimately have "\<not> in_page p x" by (simp add: in_page_other)
    then show "memset (mem s) p 5 (ucast PGSIZE) x = mem s x"
      by (simp add: memset_page)
  qed
  with assms show ?thesis by (auto simp: kmem_inv_def valid_page_def)
qed

lemma kfree_valid:
  assumes "kmem_inv s ps" and "valid_page s p"
  shows "kfree p s = ret () (crit (s\<lparr>mem := store64 (memset (mem s) p 1 (ucast PGSIZE)) p (freelist s),
      freelist := p\<rparr>))"
  using assms
  by (auto simp: kmem_inv_def kfree_def valid_page_def page_aligned_def Let_def)

lemma kmem_inv_push:
  assumes "kmem_inv s ps" and "valid_page s p" and "p \<notin> set ps"
  shows "kmem_inv (crit (s\<lparr>mem := store64 (memset (mem s) p 1 (ucast PGSIZE)) p (freelist s),
      freelist := p\<rparr>)) (p # ps)"
proof -
  let ?m = "store64 (memset (mem s) p 1 (ucast PGSIZE)) p (freelist s)"
  have "chain ?m (freelist s) ps = chain (mem s) (freelist s) ps"
  proof (rule chain_cong)
    fix q x
    assume "q \<in> set ps" and "in_page q x"
    moreover from this assms have "page_aligned p" "page_aligned q" "p \<noteq> q"
      by (auto simp: kmem_inv_def)
    ultimately have "\<not> in_page p x" by (simp add: in_page_other)
    then show "?m x = mem s x" by (simp add: store64_page memset_page)
  qed
  moreover have "p \<noteq> 0" using assms valid_page_nonzero by blast
  ultimately show ?thesis
    using assms by (auto simp: kmem_inv_def valid_page_def)
qed

section \<open>The interface\<close>

text \<open>
  What clients of a page allocator rely on. \<open>inv s ps\<close> relates a state to the pages that are
  free in it; \<open>same s s' p\<close> says that the client's memory is as before except for page \<open>p\<close>.
\<close>

locale page_allocator =
  fixes alloc :: "'s \<Rightarrow> 'e + uint64 \<times> 's"
    and free :: "uint64 \<Rightarrow> 's \<Rightarrow> 'e + unit \<times> 's"
    and inv :: "'s \<Rightarrow> uint64 list \<Rightarrow> bool"
    and owns :: "'s \<Rightarrow> uint64 \<Rightarrow> bool"
    and bytes :: "'s \<Rightarrow> memory"
  assumes alloc_none: "inv s [] \<Longrightarrow> \<exists>s'. alloc s = Inr (0, s') \<and> inv s' [] \<and> bytes s' = bytes s"
    and alloc_some: "inv s (p # ps) \<Longrightarrow> \<exists>s'. alloc s = Inr (p, s') \<and> inv s' ps \<and> owns s' p \<and>
          (\<forall>x. \<not> in_page p x \<longrightarrow> bytes s' x = bytes s x)"
    and free_ok: "inv s ps \<Longrightarrow> owns s p \<Longrightarrow> p \<notin> set ps \<Longrightarrow>
          \<exists>s'. free p s = Inr ((), s') \<and> inv s' (p # ps) \<and>
          (\<forall>x. \<not> in_page p x \<longrightarrow> bytes s' x = bytes s x)"
    and inv_pages: "inv s ps \<Longrightarrow> distinct ps \<and> (\<forall>p \<in> set ps. owns s p \<and> p \<noteq> 0 \<and> page_aligned p)"
begin

lemma alloc_total: "inv s ps \<Longrightarrow> \<exists>r s'. alloc s = Inr (r, s')"
  by (cases ps) (auto dest: alloc_none alloc_some)

lemma alloc_null_iff:
  assumes "inv s ps" and "alloc s = Inr (r, s')"
  shows "r = 0 \<longleftrightarrow> ps = []"
proof (cases ps)
  case Nil
  with assms show ?thesis by (auto dest: alloc_none)
next
  case (Cons p qs)
  with assms have "r = p" by (auto dest: alloc_some)
  with Cons assms(1) show ?thesis by (auto dest: inv_pages)
qed

lemma alloc_result:
  assumes "inv s ps" and "alloc s = Inr (r, s')" and "r \<noteq> 0"
  shows "ps = r # tl ps" and "inv s' (tl ps)" and "r \<notin> set (tl ps)" and "page_aligned r"
    and "\<And>x. \<not> in_page r x \<Longrightarrow> bytes s' x = bytes s x"
proof -
  from assms alloc_null_iff have "ps \<noteq> []" by blast
  then obtain p qs where ps: "ps = p # qs" by (cases ps) auto
  from alloc_some [OF assms(1) [unfolded ps]] assms(2) have "r = p" and "inv s' qs"
    and "\<forall>x. \<not> in_page p x \<longrightarrow> bytes s' x = bytes s x" by auto
  with ps assms(1) show "ps = r # tl ps" and "inv s' (tl ps)" and "r \<notin> set (tl ps)"
    and "page_aligned r" and "\<And>x. \<not> in_page r x \<Longrightarrow> bytes s' x = bytes s x"
    by (auto dest: inv_pages)
qed

lemma alloc_twice_distinct:
  assumes "inv s ps" and "alloc s = Inr (p, s')" and "p \<noteq> 0" and "alloc s' = Inr (q, s'')" and "q \<noteq> 0"
  shows "p \<noteq> q"
  using alloc_result [OF assms(1-3)] alloc_result [of s' "tl ps" q s''] assms(4,5)
  by (metis list.set_intros(1))

lemma free_then_alloc:
  assumes "inv s ps" and "owns s p" and "p \<notin> set ps" and "free p s = Inr ((), s')"
  shows "\<exists>s''. alloc s' = Inr (p, s'') \<and> inv s'' ps"
proof -
  from free_ok [OF assms(1-3)] assms(4) have "inv s' (p # ps)" by auto
  from alloc_some [OF this] show ?thesis by blast
qed

end

interpretation km: page_allocator kalloc kfree kmem_inv valid_page mem
proof unfold_locales
  fix s
  assume "kmem_inv s []"
  then show "\<exists>s'. kalloc s = Inr (0, s') \<and> kmem_inv s' [] \<and> mem s' = mem s"
    by (intro exI [of _ "crit s"]) (auto simp: kalloc_nil kmem_inv_def)
next
  fix s p ps
  assume inv: "kmem_inv s (p # ps)"
  let ?s = "crit (s\<lparr>freelist := load64 (mem s) p, mem := memset (mem s) p 5 (ucast PGSIZE)\<rparr>)"
  have "valid_page ?s p" using inv by (auto simp: kmem_inv_def valid_page_def)
  with inv show "\<exists>s'. kalloc s = Inr (p, s') \<and> kmem_inv s' ps \<and> valid_page s' p \<and>
      (\<forall>x. \<not> in_page p x \<longrightarrow> mem s' x = mem s x)"
    by (intro exI [of _ ?s]) (simp add: kalloc_cons kmem_inv_pop memset_page)
next
  fix s ps p
  assume "kmem_inv s ps" and "valid_page s p" and "p \<notin> set ps"
  then show "\<exists>s'. kfree p s = Inr ((), s') \<and> kmem_inv s' (p # ps) \<and>
      (\<forall>x. \<not> in_page p x \<longrightarrow> mem s' x = mem s x)"
    by (simp add: kfree_valid kmem_inv_push store64_page memset_page)
next
  fix s ps
  assume inv: "kmem_inv s ps"
  then show "distinct ps \<and> (\<forall>p \<in> set ps. valid_page s p \<and> p \<noteq> 0 \<and> page_aligned p)"
    using valid_page_nonzero [OF inv] by (auto simp: kmem_inv_def)
qed

section \<open>Initialisation\<close>

definition pages :: "uint64 \<Rightarrow> nat \<Rightarrow> uint64 list" where
  "pages a n = map (\<lambda>i. a + of_nat (4096 * i)) [0..<n]"

lemma pages_0 [simp]: "pages a 0 = []"
  by (simp add: pages_def)

lemma pages_Suc: "pages a (Suc n) = a # pages (a + PGSIZE) n"
  unfolding pages_def PGSIZE_def upt_conv_Cons [OF zero_less_Suc] map_Suc_upt [symmetric]
  by (simp add: algebra_simps)

lemma freerange_from_frees:
  assumes "kmem_inv s ps" and "page_aligned p" and "sym_end (syms s) \<le> p"
    and "unat p + 4096 * k = unat PHYSTOP" and "\<forall>q \<in> set ps. q < p"
  shows "\<exists>s'. freerange_from p PHYSTOP s = Inr ((), s') \<and> kmem_inv s' (rev (pages p k) @ ps) \<and>
    syms s' = syms s"
  using assms
proof (induction k arbitrary: p s ps)
  case 0
  then have "p = PHYSTOP" by (simp add: word_unat_eq_iff)
  then show ?case
    using 0 by (subst freerange_from.simps) (simp add: PHYSTOP_def KERNBASE_def PGSIZE_def)
next
  case (Suc k)
  have lt: "unat p + 4096 \<le> 0x88000000" using Suc.prems(4) unat_PHYSTOP by simp
  then have next_p: "unat (p + PGSIZE) = unat p + 4096"
    by (subst unat_add_no_wrap) simp_all
  have "p + PGSIZE \<le> PHYSTOP"
    using lt unat_PHYSTOP by (simp add: word_le_nat_alt next_p)
  moreover have vp: "valid_page s p"
    using Suc.prems lt unat_PHYSTOP by (simp add: valid_page_def word_less_nat_alt)
  moreover obtain s' where s': "kfree p s = Inr ((), s')" "kmem_inv s' (p # ps)" "syms s' = syms s"
    using kfree_valid [OF Suc.prems(1) vp] kmem_inv_push [OF Suc.prems(1) vp] Suc.prems(5) by auto
  moreover have "\<exists>s''. freerange_from (p + PGSIZE) PHYSTOP s' = Inr ((), s'') \<and>
      kmem_inv s'' (rev (pages (p + PGSIZE) k) @ p # ps) \<and> syms s'' = syms s'"
  proof (rule Suc.IH [OF s'(2)])
    show "page_aligned (p + PGSIZE)"
      using Suc.prems(2) by (simp add: page_aligned_def mod_PGSIZE_0 next_p)
    show "sym_end (syms s') \<le> p + PGSIZE"
      using Suc.prems(3) s'(3) by (simp add: word_le_nat_alt next_p)
    show "unat (p + PGSIZE) + 4096 * k = unat PHYSTOP"
      using Suc.prems(4) by (simp add: next_p)
    show "\<forall>q \<in> set (p # ps). q < p + PGSIZE"
      using Suc.prems(5) by (auto simp: word_less_nat_alt next_p)
  qed
  ultimately show ?case
    by (subst freerange_from.simps) (auto simp: pages_Suc)
qed

section \<open>Properties\<close>

text \<open>
  C15: \<^verbatim>\<open>kalloc\<close> either finds the free list empty, returns null and changes nothing, or takes
  the first page off the list: the page it returns is a page of the allocator, no longer
  free, filled with 5s, and no byte outside it changes.
\<close>

theorem kalloc_takes_head:
  assumes "kmem_inv s ps"
  shows "\<exists>s'. kalloc s = Inr (if ps = [] then 0 else hd ps, s') \<and> kmem_inv s' (tl ps) \<and>
    (ps \<noteq> [] \<longrightarrow> valid_page s' (hd ps) \<and> hd ps \<notin> set (tl ps) \<and>
       load_bytes (mem s') (hd ps) 4096 = replicate 4096 5) \<and>
    (\<forall>x. ps = [] \<or> \<not> in_page (hd ps) x \<longrightarrow> mem s' x = mem s x)"
proof (cases ps)
  case Nil
  with assms km.alloc_none [of s] show ?thesis by auto
next
  case (Cons p qs)
  with assms have inv: "kmem_inv s (p # qs)" by simp
  obtain s' where s': "kalloc s = Inr (p, s')" "kmem_inv s' qs" "valid_page s' p"
      "\<forall>x. \<not> in_page p x \<longrightarrow> mem s' x = mem s x"
    using km.alloc_some [OF inv] by blast
  have "mem s' = memset (mem s) p 5 (ucast PGSIZE)"
    using s'(1) kalloc_cons [OF inv] by (auto simp: ret_eq_Inr)
  then have "load_bytes (mem s') p 4096 = replicate 4096 5"
    using load_bytes_memset [of 4096 "ucast PGSIZE" "mem s" p 5] by (simp add: PGSIZE_def)
  with Cons inv s' show ?thesis by (auto simp: kmem_inv_def)
qed

text \<open>
  C16: \<^verbatim>\<open>kfree\<close> puts a page that is not free at the head of the free list and leaves all memory
  outside the page alone, and the next \<^verbatim>\<open>kalloc\<close> returns that page.
\<close>

theorem kfree_then_kalloc:
  assumes "kmem_inv s ps" and "valid_page s p" and "p \<notin> set ps"
  shows "\<exists>s' s''. kfree p s = Inr ((), s') \<and> kmem_inv s' (p # ps) \<and>
    (\<forall>x. \<not> in_page p x \<longrightarrow> mem s' x = mem s x) \<and>
    kalloc s' = Inr (p, s'') \<and> kmem_inv s'' ps"
proof -
  obtain s' where s': "kfree p s = Inr ((), s')" "kmem_inv s' (p # ps)"
      "\<forall>x. \<not> in_page p x \<longrightarrow> mem s' x = mem s x"
    using km.free_ok [OF assms] by blast
  with km.free_then_alloc [OF assms s'(1)] show ?thesis by blast
qed


text \<open>
  C12: At boot \<^verbatim>\<open>kinit\<close> returns and leaves on the free list exactly the pages between the end of
  the kernel, rounded up, and \<^verbatim>\<open>PHYSTOP\<close>, each once, the highest page first.
\<close>

theorem kinit_frees_all:
  assumes "cpu_ok s" and "freelist s = 0" and "sym_end (syms s) \<noteq> 0" and "sym_end (syms s) \<le> PHYSTOP"
  shows "\<exists>s'. kinit s = Inr ((), s') \<and>
    kmem_inv s' (rev (pages (PGROUNDUP (sym_end (syms s)))
      ((unat PHYSTOP - unat (PGROUNDUP (sym_end (syms s)))) div 4096)))"
proof -
  let ?e = "sym_end (syms s)" and ?s = "initlock KmemLock ''kmem'' s"
  have le: "unat ?e \<le> 0x88000000" using assms(4) unat_PHYSTOP by (simp add: word_le_nat_alt)
  then have up: "unat (PGROUNDUP ?e) = (unat ?e + 4095) - (unat ?e + 4095) mod 4096"
    by (intro unat_PGROUNDUP) simp
  then have ge: "unat ?e \<le> unat (PGROUNDUP ?e)" and al: "unat (PGROUNDUP ?e) mod 4096 = 0"
    by (simp_all add: minus_mod_eq_mult_div)
  moreover have "unat (PGROUNDUP ?e) \<le> 0x88000000"
    using al up le by (simp add: minus_mod_eq_mult_div)
  moreover have "kmem_inv ?s []"
    using assms by (simp add: kmem_inv_def initlock_def upd_lock_def lock_free_def cpu_ok_def machine_defs)
  ultimately show ?thesis
    using freerange_from_frees [of ?s "[]" "PGROUNDUP ?e" "(unat PHYSTOP - unat (PGROUNDUP ?e)) div 4096"]
    by (auto simp: kinit_def freerange_def Let_def page_aligned_def mod_PGSIZE_0 word_le_nat_alt
      initlock_def upd_lock_def unat_PHYSTOP)
qed

section \<open>Witnesses\<close>

abbreviation sample_kstate :: kstate where
  "sample_kstate \<equiv> kstate0\<lparr>freelist := 0x80023000\<rparr>"

lemma kmem_inv_sample: "kmem_inv sample_kstate [0x80023000]"
  by (simp add: kmem_inv_def valid_page_def page_aligned_def)
     (simp add: kstate0_def PGSIZE_def PHYSTOP_def KERNBASE_def load64_zero)

theorem kalloc_takes_head_witness:
  "\<exists>s'. kalloc sample_kstate = Inr (0x80023000, s') \<and> kmem_inv s' []"
  using kalloc_takes_head [OF kmem_inv_sample] by auto

theorem kfree_then_kalloc_witness:
  "\<exists>s' s''. kfree 0x80024000 sample_kstate = Inr ((), s') \<and> kalloc s' = Inr (0x80024000, s'')"
proof -
  have "valid_page sample_kstate 0x80024000"
    by (simp add: valid_page_def page_aligned_def)
       (simp add: kstate0_def PGSIZE_def PHYSTOP_def KERNBASE_def)
  then show ?thesis using kfree_then_kalloc [OF kmem_inv_sample, where p = "0x80024000"] by auto
qed


theorem kinit_frees_all_witness:
  "\<exists>s'. kinit kstate0 = Inr ((), s') \<and> kmem_inv s' (rev (pages 0x80022000 32734))"
proof -
  have "sym_end (syms kstate0) = 0x80022000" "freelist kstate0 = 0" by (simp_all add: kstate0_def)
  then show ?thesis
    using kinit_frees_all [of kstate0]
    by (simp add: PGROUNDUP_def PGSIZE_def PHYSTOP_def KERNBASE_def)
qed

end
