(* ===== verification/Vm.thy ===== *)
theory Vm
  imports Kalloc
begin

text \<open>
  \<^verbatim>\<open>kernel/vm.c\<close>: Sv39 page tables in physical memory, user address spaces and the copies
  between kernel and user memory. A page table is read as a function from virtual addresses to
  leaf entries (\<open>lookup\<close>); \<open>pt_wf\<close> says that its tables form a tree of separate pages.
  A kernel buffer that is copied from or to is passed as its list of bytes. The permission
  bits, an \<^verbatim>\<open>int\<close> in C, are given as the 64-bit value they are widened to.
\<close>

section \<open>Page-table entries\<close>

definition PTE_V :: uint64 where "PTE_V = push_bit 0 1"
definition PTE_R :: uint64 where "PTE_R = push_bit 1 1"
definition PTE_W :: uint64 where "PTE_W = push_bit 2 1"
definition PTE_X :: uint64 where "PTE_X = push_bit 3 1"
definition PTE_U :: uint64 where "PTE_U = push_bit 4 1"

definition PA2PTE :: "uint64 \<Rightarrow> uint64" where "PA2PTE pa = push_bit 10 (drop_bit 12 pa)"
definition PTE2PA :: "uint64 \<Rightarrow> uint64" where "PTE2PA pte = push_bit 12 (drop_bit 10 pte)"
definition PTE_FLAGS :: "uint64 \<Rightarrow> uint64" where "PTE_FLAGS pte = pte AND 0x3FF"

definition PX :: "nat \<Rightarrow> uint64 \<Rightarrow> uint64" where
  "PX level va = drop_bit (12 + 9 * level) va AND 0x1FF"

definition MAKE_SATP :: "uint64 \<Rightarrow> uint64" where
  "MAKE_SATP pt = push_bit 60 8 OR drop_bit 12 pt"

text \<open>\<open>pte_at t i\<close> is \<^verbatim>\<open>&pagetable[i]\<close>.\<close>

definition pte_at :: "uint64 \<Rightarrow> uint64 \<Rightarrow> uint64" where
  "pte_at pagetable i = pagetable + 8 * i"

abbreviation has :: "uint64 \<Rightarrow> uint64 \<Rightarrow> bool" where
  "has pte flag \<equiv> pte AND flag \<noteq> 0"

section \<open>Walking and mapping\<close>

text \<open>The loop of \<^verbatim>\<open>walk\<close> from \<open>level\<close> down to 1, and the entry it ends at.\<close>

fun walk_level :: "nat \<Rightarrow> uint64 \<Rightarrow> uint64 \<Rightarrow> bool \<Rightarrow> kstate \<Rightarrow> uint64 kres" where
  "walk_level 0 pagetable va alloc s = ret (pte_at pagetable (PX 0 va)) s"
| "walk_level (Suc l) pagetable va alloc s =
    (let pte = pte_at pagetable (PX (Suc l) va)
     in if has (load64 (mem s) pte) PTE_V
        then walk_level l (PTE2PA (load64 (mem s) pte)) va alloc s
        else if \<not> alloc then ret 0 s
        else bindE (kalloc s) (\<lambda>pagetable s.
          if pagetable = 0 then ret 0 s
          else
            let s = s\<lparr>mem := memset (mem s) pagetable 0 (ucast PGSIZE)\<rparr>;
                s = s\<lparr>mem := store64 (mem s) pte (PA2PTE pagetable OR PTE_V)\<rparr>
            in walk_level l pagetable va alloc s))"

definition walk :: "uint64 \<Rightarrow> uint64 \<Rightarrow> bool \<Rightarrow> kstate \<Rightarrow> uint64 kres" where
  "walk pagetable va alloc s =
    (if va \<ge> MAXVA then panic ''walk'' else walk_level 2 pagetable va alloc s)"

definition walkaddr :: "uint64 \<Rightarrow> uint64 \<Rightarrow> kstate \<Rightarrow> uint64 kres" where
  "walkaddr pagetable va s =
    (if va \<ge> MAXVA then ret 0 s
     else bindE (walk pagetable va False s) (\<lambda>pte s.
       if pte = 0 then ret 0 s
       else if \<not> has (load64 (mem s) pte) PTE_V then ret 0 s
       else if \<not> has (load64 (mem s) pte) PTE_U then ret 0 s
       else ret (PTE2PA (load64 (mem s) pte)) s))"

lemma walk_success_bound: "walk pt va al s = Inr r \<Longrightarrow> va < MAXVA"
  by (auto simp: walk_def not_le split: if_splits)

lemma unat_MAXVA: "unat MAXVA = 2 ^ 38"
  by (simp add: MAXVA_def)

lemma walk_success_measure:
  "walk pt va al s = Inr r \<Longrightarrow> 2 ^ 64 - unat (va + PGSIZE) < 2 ^ 64 - unat va"
proof -
  assume "walk pt va al s = Inr r"
  then have "unat va < 2 ^ 38"
    using walk_success_bound unat_MAXVA by (metis word_less_nat_alt)
  moreover from this have "unat (va + PGSIZE) = unat va + 4096"
    by (subst unat_add_no_wrap) simp_all
  ultimately show ?thesis by simp
qed

function mappages_from ::
  "uint64 \<Rightarrow> uint64 \<Rightarrow> uint64 \<Rightarrow> uint64 \<Rightarrow> uint64 \<Rightarrow> kstate \<Rightarrow> int kres" where
  "mappages_from pagetable a lst pa perm s =
    bindE (walk pagetable a True s) (\<lambda>pte s.
      if pte = 0 then ret (-1) s
      else if has (load64 (mem s) pte) PTE_V then panic ''mappages: remap''
      else
        let s = s\<lparr>mem := store64 (mem s) pte (PA2PTE pa OR perm OR PTE_V)\<rparr>
        in if a = lst then ret 0 s
           else mappages_from pagetable (a + PGSIZE) lst (pa + PGSIZE) perm s)"
  by pat_completeness auto
termination
  by (relation "measure (\<lambda>(pt, a, lst, pa, perm, s). 2 ^ 64 - unat a)")
     (auto dest!: walk_success_measure)

declare mappages_from.simps [simp del]

definition mappages ::
  "uint64 \<Rightarrow> uint64 \<Rightarrow> uint64 \<Rightarrow> uint64 \<Rightarrow> uint64 \<Rightarrow> kstate \<Rightarrow> int kres" where
  "mappages pagetable va sz pa perm s =
    (if va mod PGSIZE \<noteq> 0 then panic ''mappages: va not aligned''
     else if sz mod PGSIZE \<noteq> 0 then panic ''mappages: size not aligned''
     else if sz = 0 then panic ''mappages: size''
     else mappages_from pagetable va (va + sz - PGSIZE) pa perm s)"

definition kvmmap :: "uint64 \<Rightarrow> uint64 \<Rightarrow> uint64 \<Rightarrow> uint64 \<Rightarrow> uint64 \<Rightarrow> kstate \<Rightarrow> unit kres" where
  "kvmmap kpgtbl va pa sz perm s =
    bindE (mappages kpgtbl va sz pa perm s) (\<lambda>r s. if r \<noteq> 0 then panic ''kvmmap'' else ret () s)"

text \<open>\<^verbatim>\<open>proc_mapstacks\<close> of \<^verbatim>\<open>proc.c\<close>, from process \<open>i\<close> on, for \<open>n\<close> more processes.\<close>

primrec mapstacks_from :: "nat \<Rightarrow> nat \<Rightarrow> uint64 \<Rightarrow> kstate \<Rightarrow> unit kres" where
  "mapstacks_from 0 i kpgtbl s = ret () s"
| "mapstacks_from (Suc n) i kpgtbl s =
    bindE (kalloc s) (\<lambda>pa s.
      if pa = 0 then panic ''kalloc''
      else bindE (kvmmap kpgtbl (KSTACK i) pa PGSIZE (PTE_R OR PTE_W) s) (\<lambda>_ s.
        mapstacks_from n (i + 1) kpgtbl s))"

definition proc_mapstacks :: "uint64 \<Rightarrow> kstate \<Rightarrow> unit kres" where
  "proc_mapstacks kpgtbl s = mapstacks_from NPROC 0 kpgtbl s"

definition kvmmake :: "kstate \<Rightarrow> uint64 kres" where
  "kvmmake s =
    bindE (kalloc s) (\<lambda>kpgtbl s.
    let s = s\<lparr>mem := memset (mem s) kpgtbl 0 (ucast PGSIZE)\<rparr>; etext = sym_etext (syms s) in
    bindE (kvmmap kpgtbl UART0 UART0 PGSIZE (PTE_R OR PTE_W) s) (\<lambda>_ s.
    bindE (kvmmap kpgtbl VIRTIO0 VIRTIO0 PGSIZE (PTE_R OR PTE_W) s) (\<lambda>_ s.
    bindE (kvmmap kpgtbl PLIC PLIC 0x4000000 (PTE_R OR PTE_W) s) (\<lambda>_ s.
    bindE (kvmmap kpgtbl KERNBASE KERNBASE (etext - KERNBASE) (PTE_R OR PTE_X) s) (\<lambda>_ s.
    bindE (kvmmap kpgtbl etext etext (PHYSTOP - etext) (PTE_R OR PTE_W) s) (\<lambda>_ s.
    bindE (kvmmap kpgtbl TRAMPOLINE (sym_trampoline (syms s)) PGSIZE (PTE_R OR PTE_X) s) (\<lambda>_ s.
    bindE (proc_mapstacks kpgtbl s) (\<lambda>_ s.
    ret kpgtbl s))))))))"

definition kvminit :: "kstate \<Rightarrow> unit kres" where
  "kvminit s = bindE (kvmmake s) (\<lambda>pt s. ret () (s\<lparr>kernel_pagetable := pt\<rparr>))"

definition kvminithart :: "kstate \<Rightarrow> kstate" where
  "kvminithart s = upd_hart (\<lambda>h. h\<lparr>h_satp := MAKE_SATP (kernel_pagetable s)\<rparr>) s"

section \<open>User address spaces\<close>

function uvmunmap_from :: "uint64 \<Rightarrow> uint64 \<Rightarrow> uint64 \<Rightarrow> bool \<Rightarrow> kstate \<Rightarrow> unit kres" where
  "uvmunmap_from pagetable a end_va do_free s =
    (if a < end_va
     then bindE (walk pagetable a False s) (\<lambda>pte s.
       if pte = 0 then panic ''uvmunmap: walk''
       else if \<not> has (load64 (mem s) pte) PTE_V then panic ''uvmunmap: not mapped''
       else if PTE_FLAGS (load64 (mem s) pte) = PTE_V then panic ''uvmunmap: not a leaf''
       else bindE (if do_free then kfree (PTE2PA (load64 (mem s) pte)) s else ret () s) (\<lambda>_ s.
         let s = s\<lparr>mem := store64 (mem s) pte 0\<rparr>
         in uvmunmap_from pagetable (a + PGSIZE) end_va do_free s))
     else ret () s)"
  by pat_completeness auto
termination
  by (relation "measure (\<lambda>(pt, a, e, f, s). 2 ^ 64 - unat a)") (auto dest!: walk_success_measure)

declare uvmunmap_from.simps [simp del]

definition uvmunmap :: "uint64 \<Rightarrow> uint64 \<Rightarrow> uint64 \<Rightarrow> bool \<Rightarrow> kstate \<Rightarrow> unit kres" where
  "uvmunmap pagetable va npages do_free s =
    (if va mod PGSIZE \<noteq> 0 then panic ''uvmunmap: not aligned''
     else uvmunmap_from pagetable va (va + npages * PGSIZE) do_free s)"

definition uvmcreate :: "kstate \<Rightarrow> uint64 kres" where
  "uvmcreate s =
    bindE (kalloc s) (\<lambda>pagetable s.
      if pagetable = 0 then ret 0 s
      else ret pagetable (s\<lparr>mem := memset (mem s) pagetable 0 (ucast PGSIZE)\<rparr>))"

definition uvmfirst :: "uint64 \<Rightarrow> uchar list \<Rightarrow> uint \<Rightarrow> kstate \<Rightarrow> unit kres" where
  "uvmfirst pagetable src sz s =
    (if ucast sz \<ge> PGSIZE then panic ''uvmfirst: more than a page''
     else bindE (kalloc s) (\<lambda>pg s.
       let s = s\<lparr>mem := memset (mem s) pg 0 (ucast PGSIZE)\<rparr>
       in bindE (mappages pagetable 0 PGSIZE pg (PTE_W OR PTE_R OR PTE_X OR PTE_U) s) (\<lambda>_ s.
          ret () (s\<lparr>mem := store_bytes (mem s) pg (take (unat sz) src)\<rparr>))))"

definition uvmdealloc :: "uint64 \<Rightarrow> uint64 \<Rightarrow> uint64 \<Rightarrow> kstate \<Rightarrow> uint64 kres" where
  "uvmdealloc pagetable oldsz newsz s =
    (if newsz \<ge> oldsz then ret oldsz s
     else if PGROUNDUP newsz < PGROUNDUP oldsz
     then
       let npages = (ucast ((PGROUNDUP oldsz - PGROUNDUP newsz) div PGSIZE) :: 32 word)
       in bindE (uvmunmap pagetable (PGROUNDUP newsz) (scast npages) True s) (\<lambda>_ s. ret newsz s)
     else ret newsz s)"

lemma mappages_success_measure:
  "mappages pt va sz pa perm s = Inr r \<Longrightarrow> 2 ^ 64 - unat (va + PGSIZE) < 2 ^ 64 - unat va"
  by (subst (asm) mappages_def, subst (asm) mappages_from.simps)
     (auto simp: bindE_eq_Inr_iff split: if_splits dest!: walk_success_measure)

function uvmalloc_from :: "uint64 \<Rightarrow> uint64 \<Rightarrow> uint64 \<Rightarrow> uint64 \<Rightarrow> uint64 \<Rightarrow> kstate \<Rightarrow> uint64 kres" where
  "uvmalloc_from pagetable a oldsz newsz xperm s =
    (if a < newsz
     then bindE (kalloc s) (\<lambda>pg s.
       if pg = 0
       then bindE (uvmdealloc pagetable a oldsz s) (\<lambda>_ s. ret 0 s)
       else
         let s = s\<lparr>mem := memset (mem s) pg 0 (ucast PGSIZE)\<rparr>
         in bindE (mappages pagetable a PGSIZE pg (PTE_R OR PTE_U OR xperm) s) (\<lambda>r s.
            if r \<noteq> 0
            then bindE (kfree pg s) (\<lambda>_ s.
                 bindE (uvmdealloc pagetable a oldsz s) (\<lambda>_ s. ret 0 s))
            else uvmalloc_from pagetable (a + PGSIZE) oldsz newsz xperm s))
     else ret newsz s)"
  by pat_completeness auto
termination
  by (relation "measure (\<lambda>(pt, a, e, f, x, s). 2 ^ 64 - unat a)")
     (auto dest!: mappages_success_measure)

declare uvmalloc_from.simps [simp del]

definition uvmalloc :: "uint64 \<Rightarrow> uint64 \<Rightarrow> uint64 \<Rightarrow> uint64 \<Rightarrow> kstate \<Rightarrow> uint64 kres" where
  "uvmalloc pagetable oldsz newsz xperm s =
    (if newsz < oldsz then ret oldsz s
     else uvmalloc_from pagetable (PGROUNDUP oldsz) (PGROUNDUP oldsz) newsz xperm s)"

text \<open>
  \<^verbatim>\<open>freewalk\<close> recurses through the tree of tables. \<open>depth\<close> bounds the recursion: three
  levels of tables need depth 3, and a tree that goes deeper runs out (\<^const>\<open>Forever\<close>).
  \<open>freewalk_from depth i n\<close> is the loop from entry \<open>i\<close> over \<open>n\<close> entries.
\<close>

function (sequential) freewalk_from :: "nat \<Rightarrow> nat \<Rightarrow> nat \<Rightarrow> uint64 \<Rightarrow> kstate \<Rightarrow> unit kres" where
  "freewalk_from 0 i n pagetable s = Inl Forever"
| "freewalk_from (Suc depth) i 0 pagetable s = kfree pagetable s"
| "freewalk_from (Suc depth) i (Suc n) pagetable s =
    (let pte = load64 (mem s) (pte_at pagetable (of_nat i))
     in if has pte PTE_V \<and> \<not> has pte (PTE_R OR PTE_W OR PTE_X)
        then bindE (freewalk_from depth 0 512 (PTE2PA pte) s) (\<lambda>_ s.
             let s = s\<lparr>mem := store64 (mem s) (pte_at pagetable (of_nat i)) 0\<rparr>
             in freewalk_from (Suc depth) (i + 1) n pagetable s)
        else if has pte PTE_V then panic ''freewalk: leaf''
        else freewalk_from (Suc depth) (i + 1) n pagetable s)"
  by pat_completeness auto
termination
  by (relation "measures [\<lambda>(d, i, n, p, s). d, \<lambda>(d, i, n, p, s). n]") auto

definition freewalk :: "uint64 \<Rightarrow> kstate \<Rightarrow> unit kres" where
  "freewalk pagetable s = freewalk_from 3 0 512 pagetable s"

definition uvmfree :: "uint64 \<Rightarrow> uint64 \<Rightarrow> kstate \<Rightarrow> unit kres" where
  "uvmfree pagetable sz s =
    bindE (if sz > 0 then uvmunmap pagetable 0 (PGROUNDUP sz div PGSIZE) True s else ret () s)
      (\<lambda>_ s. freewalk pagetable s)"

definition uvmcopy_err :: "uint64 \<Rightarrow> uint64 \<Rightarrow> kstate \<Rightarrow> int kres" where
  "uvmcopy_err new i s = bindE (uvmunmap new 0 (i div PGSIZE) True s) (\<lambda>_ s. ret (-1) s)"

function uvmcopy_from :: "uint64 \<Rightarrow> uint64 \<Rightarrow> uint64 \<Rightarrow> uint64 \<Rightarrow> kstate \<Rightarrow> int kres" where
  "uvmcopy_from old new i sz s =
    (if i < sz
     then bindE (walk old i False s) (\<lambda>pte s.
       if pte = 0 then panic ''uvmcopy: pte should exist''
       else if \<not> has (load64 (mem s) pte) PTE_V then panic ''uvmcopy: page not present''
       else
         let pa = PTE2PA (load64 (mem s) pte);
             flags = PTE_FLAGS (load64 (mem s) pte)
         in bindE (kalloc s) (\<lambda>pg s.
            if pg = 0 then uvmcopy_err new i s
            else
              let s = s\<lparr>mem := memmove (mem s) pg pa (ucast PGSIZE)\<rparr>
              in bindE (mappages new i PGSIZE pg flags s) (\<lambda>r s.
                 if r \<noteq> 0 then bindE (kfree pg s) (\<lambda>_ s. uvmcopy_err new i s)
                 else uvmcopy_from old new (i + PGSIZE) sz s)))
     else ret 0 s)"
  by pat_completeness auto
termination
  by (relation "measure (\<lambda>(old, new, i, sz, s). 2 ^ 64 - unat i)") (auto dest!: walk_success_measure)

declare uvmcopy_from.simps [simp del]

definition uvmcopy :: "uint64 \<Rightarrow> uint64 \<Rightarrow> uint64 \<Rightarrow> kstate \<Rightarrow> int kres" where
  "uvmcopy old new sz s = uvmcopy_from old new 0 sz s"

definition uvmclear :: "uint64 \<Rightarrow> uint64 \<Rightarrow> kstate \<Rightarrow> unit kres" where
  "uvmclear pagetable va s =
    bindE (walk pagetable va False s) (\<lambda>pte s.
      if pte = 0 then panic ''uvmclear''
      else ret () (s\<lparr>mem := store64 (mem s) pte (load64 (mem s) pte AND NOT PTE_U)\<rparr>))"

section \<open>Copying between kernel and user memory\<close>

definition chunk :: "uint64 \<Rightarrow> uint64 \<Rightarrow> uint64" where
  "chunk va len =
    (let n = PGSIZE - (va - PGROUNDDOWN va) in if n > len then len else n)"

lemma unat_page_offset: "unat (va - PGROUNDDOWN va) = unat va mod 4096"
  by (subst unat_sub) (simp_all add: word_le_nat_alt unat_PGROUNDDOWN)

lemma unat_chunk: "unat (chunk va len) = min (4096 - unat va mod 4096) (unat len)"
proof -
  have "va - PGROUNDDOWN va \<le> PGSIZE"
    by (simp add: word_le_nat_alt unat_page_offset less_imp_le)
  then have "unat (PGSIZE - (va - PGROUNDDOWN va)) = 4096 - unat va mod 4096"
    by (simp add: unat_sub unat_page_offset)
  then show ?thesis by (auto simp: chunk_def Let_def word_less_nat_alt)
qed

lemma unat_minus_chunk: "unat (len - chunk va len) = unat len - unat (chunk va len)"
  by (rule unat_sub) (simp add: word_le_nat_alt unat_chunk)

lemma chunk_decreases: "0 < len \<Longrightarrow> unat (len - chunk va len) < unat len"
  by (simp add: unat_minus_chunk unat_chunk word_less_nat_alt)

text \<open>
  \<^verbatim>\<open>copyout\<close>: \<open>src\<close> holds the \<open>len\<close> bytes at the kernel address of the source. \<^verbatim>\<open>copyin\<close> and
  \<^verbatim>\<open>copyinstr\<close> return, beside their result, the bytes they have stored from \<^verbatim>\<open>dst\<close> on.
\<close>

function copyout :: "uint64 \<Rightarrow> uint64 \<Rightarrow> uchar list \<Rightarrow> uint64 \<Rightarrow> kstate \<Rightarrow> int kres" where
  "copyout pagetable dstva src len s =
    (if len > 0
     then
       let va0 = PGROUNDDOWN dstva
       in if va0 \<ge> MAXVA then ret (-1) s
          else bindE (walk pagetable va0 False s) (\<lambda>pte s.
            if pte = 0 \<or> \<not> has (load64 (mem s) pte) PTE_V \<or> \<not> has (load64 (mem s) pte) PTE_U \<or>
               \<not> has (load64 (mem s) pte) PTE_W
            then ret (-1) s
            else
              let pa0 = PTE2PA (load64 (mem s) pte);
                  n = chunk dstva len;
                  s = s\<lparr>mem := store_bytes (mem s) (pa0 + (dstva - va0)) (take (unat n) src)\<rparr>
              in copyout pagetable (va0 + PGSIZE) (drop (unat n) src) (len - n) s)
     else ret 0 s)"
  by pat_completeness auto
termination
  by (relation "measure (\<lambda>(pt, va, src, len, s). unat len)") (auto intro: chunk_decreases)

declare copyout.simps [simp del]

function copyin :: "uint64 \<Rightarrow> uint64 \<Rightarrow> uint64 \<Rightarrow> kstate \<Rightarrow> (int \<times> uchar list) kres" where
  "copyin pagetable srcva len s =
    (if len > 0
     then
       let va0 = PGROUNDDOWN srcva
       in bindE (walkaddr pagetable va0 s) (\<lambda>pa0 s.
          if pa0 = 0 then ret (-1, []) s
          else
            let n = chunk srcva len;
                bs = load_bytes (mem s) (pa0 + (srcva - va0)) (unat n)
            in bindE (copyin pagetable (va0 + PGSIZE) (len - n) s) (\<lambda>r s. ret (fst r, bs @ snd r) s))
     else ret (0, []) s)"
  by pat_completeness auto
termination
  by (relation "measure (\<lambda>(pt, va, len, s). unat len)") (auto intro: chunk_decreases)

declare copyin.simps [simp del]

text \<open>
  The inner loop of \<^verbatim>\<open>copyinstr\<close> over at most \<open>n\<close> bytes from \<open>p\<close>: the bytes stored, and
  whether the last of them is the null.
\<close>

primrec copyinstr_page :: "nat \<Rightarrow> memory \<Rightarrow> uint64 \<Rightarrow> uchar list \<times> bool" where
  "copyinstr_page 0 m p = ([], False)"
| "copyinstr_page (Suc n) m p =
    (if m p = 0 then ([0], True)
     else let (bs, got_null) = copyinstr_page n m (p + 1) in (m p # bs, got_null))"

function copyinstr :: "uint64 \<Rightarrow> uint64 \<Rightarrow> uint64 \<Rightarrow> kstate \<Rightarrow> (int \<times> uchar list) kres" where
  "copyinstr pagetable srcva mx s =
    (if mx > 0
     then
       let va0 = PGROUNDDOWN srcva
       in bindE (walkaddr pagetable va0 s) (\<lambda>pa0 s.
          if pa0 = 0 then ret (-1, []) s
          else
            let n = chunk srcva mx;
                (bs, got_null) = copyinstr_page (unat n) (mem s) (pa0 + (srcva - va0))
            in if got_null then ret (0, bs) s
               else bindE (copyinstr pagetable (va0 + PGSIZE) (mx - n) s) (\<lambda>r s.
                    ret (fst r, bs @ snd r) s))
     else ret (-1, []) s)"
  by pat_completeness auto
termination
  by (relation "measure (\<lambda>(pt, va, len, s). unat len)") (auto intro: chunk_decreases)

declare copyinstr.simps [simp del]

end
