(* ===== verification/Pagetable.thy ===== *)
theory Pagetable
  imports Vm
begin

text \<open>
  What the page-table code of \<^verbatim>\<open>vm.c\<close> achieves. A page table is a tree of pages
  (\<open>pt_ok\<close>, \<open>tabs\<close>) that stands for a function from virtual addresses to entries
  (\<open>lookup\<close>). Walking with allocation grows the tree and keeps the function; mapping a range
  updates the function on exactly that range.
\<close>

section \<open>Entries\<close>

lemma PTE2PA_aligned [simp]: "page_aligned (PTE2PA e)"
proof -
  have "PTE2PA e = PGROUNDDOWN (PTE2PA e)"
    unfolding PGROUNDDOWN_def PG_mask PTE2PA_def
    by (intro bit_eqI) (auto simp: bit_simps)
  then have "unat (PTE2PA e) mod 4096 = 0"
    using PGROUNDDOWN_aligned [of "PTE2PA e"] by simp
  then show ?thesis by (simp add: page_aligned_def mod_PGSIZE_0)
qed

lemma page_aligned_PGROUNDDOWN: "page_aligned p \<Longrightarrow> PGROUNDDOWN p = p"
  by (rule in_page_PGROUNDDOWN) simp_all

definition leaf_flags :: "uint64 \<Rightarrow> bool" where
  "leaf_flags f \<longleftrightarrow> f AND NOT (mask 10) = 0"

lemma leaf_flags_bit: "leaf_flags f \<Longrightarrow> 10 \<le> n \<Longrightarrow> \<not> bit f n"
proof -
  assume "leaf_flags f" "10 \<le> n"
  then have "\<not> bit (f AND NOT (mask 10)) n" unfolding leaf_flags_def by simp
  with \<open>10 \<le> n\<close> show ?thesis
    by (auto simp: bit_simps dest: bit_imp_le_length)
qed

lemma PTE2PA_PA2PTE:
  assumes "page_aligned pa" and "leaf_flags f"
  shows "PTE2PA (PA2PTE pa OR f) = pa"
proof -
  have "PTE2PA (PA2PTE pa OR f) = PGROUNDDOWN pa"
    unfolding PGROUNDDOWN_def PG_mask PTE2PA_def PA2PTE_def
    using leaf_flags_bit [OF assms(2)]
    by (intro bit_eqI) (auto simp: bit_simps)
  then show ?thesis using assms(1) by (simp add: page_aligned_PGROUNDDOWN)
qed

lemma leaf_flags_PTE_V [simp]: "leaf_flags PTE_V"
  by (simp add: leaf_flags_def PTE_V_def mask_eq_exp_minus_1)

lemma leaf_flags_OR [simp]: "leaf_flags f \<Longrightarrow> leaf_flags g \<Longrightarrow> leaf_flags (f OR g)"
  by (auto simp: leaf_flags_def bit.conj_disj_distrib2)

lemma has_V_bit: "has e PTE_V \<longleftrightarrow> bit e 0"
  by (simp add: PTE_V_def and_one_eq odd_iff_mod_2_eq_one bit_0)

lemma has_V_OR [simp]: "has (e OR PTE_V) PTE_V"
  unfolding has_V_bit by (simp add: bit_simps PTE_V_def)

lemma PTE_V_nonzero [simp]: "PTE_V \<noteq> 0"
  by (simp add: PTE_V_def)

lemma has_V_0 [simp]: "\<not> has 0 PTE_V"
  by simp

lemma PX_less: "unat (PX l va) < 512"
proof -
  have "PX l va = take_bit 9 (drop_bit (12 + 9 * l) va)"
    by (simp add: PX_def take_bit_eq_mask mask_eq_exp_minus_1)
  then have "unat (PX l va) = take_bit 9 (unat (drop_bit (12 + 9 * l) va))"
    by (simp add: unsigned_take_bit_eq)
  then show ?thesis
    using take_bit_nat_less_exp [of 9 "unat (drop_bit (12 + 9 * l) va)"] by simp
qed

lemma bit_PX: "bit (PX l va) n \<longleftrightarrow> n < 9 \<and> bit va (12 + 9 * l + n)"
proof -
  have "PX l va = take_bit 9 (drop_bit (12 + 9 * l) va)"
    by (simp add: PX_def take_bit_eq_mask mask_eq_exp_minus_1)
  then show ?thesis by (auto simp: bit_simps)
qed

lemma below_MAXVA_bit: "va < MAXVA \<Longrightarrow> 38 \<le> n \<Longrightarrow> \<not> bit va n"
proof -
  assume "va < MAXVA" "38 \<le> n"
  then have "unat va < 2 ^ 38" using unat_MAXVA by (metis word_less_nat_alt)
  then have "take_bit 38 (unat va) = unat va" by (simp add: take_bit_nat_eq_self)
  then have "\<not> bit (unat va) n" using \<open>38 \<le> n\<close> by (metis bit_take_bit_iff not_le)
  then show ?thesis by (simp add: bit_simps)
qed

text \<open>The three indices determine the page of an address below \<^verbatim>\<open>MAXVA\<close>.\<close>

lemma bit_PGROUNDDOWN: "bit (PGROUNDDOWN v) n \<longleftrightarrow> 12 \<le> n \<and> bit v n"
  unfolding PGROUNDDOWN_def PG_mask
  by (cases "n < 64") (auto simp: bit_simps dest: bit_imp_le_length)

lemma PGROUNDDOWN_eq_iff: "PGROUNDDOWN v = PGROUNDDOWN w \<longleftrightarrow> (\<forall>n \<ge> 12. bit v n = bit w n)"
proof
  assume eq: "PGROUNDDOWN v = PGROUNDDOWN w"
  have "12 \<le> n \<and> bit v n \<longleftrightarrow> 12 \<le> n \<and> bit w n" for n
    using eq by (metis bit_PGROUNDDOWN)
  then show "\<forall>n \<ge> 12. bit v n = bit w n" by blast
next
  assume "\<forall>n \<ge> 12. bit v n = bit w n"
  then show "PGROUNDDOWN v = PGROUNDDOWN w" by (intro bit_eqI) (auto simp: bit_PGROUNDDOWN)
qed

lemma PX_eq_iff:
  assumes "v < MAXVA" and "w < MAXVA"
  shows "(\<forall>k \<le> 2. PX k v = PX k w) \<longleftrightarrow> PGROUNDDOWN v = PGROUNDDOWN w"
proof
  assume px: "\<forall>k \<le> 2. PX k v = PX k w"
  have "bit v n = bit w n" if "12 \<le> n" for n
  proof (cases "n < 38")
    case True
    have n: "n = 12 + 9 * ((n - 12) div 9) + (n - 12) mod 9"
      using that mult_div_mod_eq [of 9 "n - 12"] by linarith
    have "(n - 12) div 9 < 3" using True by (intro div_less_iff_less_mult [THEN iffD2]) simp_all
    then have "PX ((n - 12) div 9) v = PX ((n - 12) div 9) w" using px by simp
    then have "bit (PX ((n - 12) div 9) v) ((n - 12) mod 9) =
        bit (PX ((n - 12) div 9) w) ((n - 12) mod 9)" by simp
    then show ?thesis unfolding bit_PX n [symmetric] by simp
  next
    case False
    then show ?thesis using below_MAXVA_bit [OF assms(1), of n] below_MAXVA_bit [OF assms(2), of n] by simp
  qed
  then show "PGROUNDDOWN v = PGROUNDDOWN w" by (simp add: PGROUNDDOWN_eq_iff)
next
  assume "PGROUNDDOWN v = PGROUNDDOWN w"
  then have "bit v n = bit w n" if "12 \<le> n" for n using that by (simp add: PGROUNDDOWN_eq_iff)
  then show "\<forall>k \<le> 2. PX k v = PX k w" by (simp add: bit_eq_iff bit_PX)
qed

section \<open>Memory that changes inside some pages only\<close>

definition same_outside :: "uint64 set \<Rightarrow> memory \<Rightarrow> memory \<Rightarrow> bool" where
  "same_outside S m m' \<longleftrightarrow> (\<forall>x. (\<forall>p \<in> S. \<not> in_page p x) \<longrightarrow> m' x = m x)"

lemma same_outside_refl [simp]: "same_outside S m m"
  by (simp add: same_outside_def)

lemma same_outside_trans:
  "same_outside S m m' \<Longrightarrow> same_outside T m' m'' \<Longrightarrow> same_outside (S \<union> T) m m''"
  by (simp add: same_outside_def)

lemma same_outside_mono: "same_outside S m m' \<Longrightarrow> S \<subseteq> T \<Longrightarrow> same_outside T m m'"
  by (auto simp: same_outside_def)

lemma same_outside_memset [simp]: "same_outside {p} m (memset m p c (ucast PGSIZE))"
  by (simp add: same_outside_def memset_page)

lemma unat_pte_offset: "unat i < 512 \<Longrightarrow> unat (8 * i) = 8 * unat (i :: uint64)"
  by (simp add: unat_word_ariths)

lemma in_page_pte:
  assumes "unat i < 512" and "k < 8"
  shows "in_page t (pte_at t i + of_nat k)"
proof -
  have "unat (of_nat k :: uint64) = k" using assms(2) by (simp add: unat_of_nat)
  moreover from this have "unat (8 * i + of_nat k) = 8 * unat i + k"
    using assms by (subst unat_add_no_wrap) (simp_all add: unat_pte_offset)
  ultimately show ?thesis using assms by (simp add: in_page_def pte_at_def algebra_simps)
qed

lemma load_pte_same_outside:
  assumes "same_outside S m m'" and "\<forall>p \<in> S. page_aligned p" and "page_aligned t" and "t \<notin> S"
    and "unat i < 512"
  shows "load64 m' (pte_at t i) = load64 m (pte_at t i)"
proof -
  have "m' (pte_at t i + of_nat k) = m (pte_at t i + of_nat k)" if "k < 8" for k
  proof -
    have "\<not> in_page p (pte_at t i + of_nat k)" if "p \<in> S" for p
      using assms(2-4) that in_page_pte [OF assms(5) \<open>k < 8\<close>, of t] in_page_other by metis
    then show ?thesis using assms(1) by (simp add: same_outside_def)
  qed
  then have "load_bytes m' (pte_at t i) 8 = load_bytes m (pte_at t i) 8"
    by (intro load_bytes_cong) simp
  then show ?thesis by (simp add: load64_def)
qed

lemma same_outside_store_pte:
  assumes "unat i < 512"
  shows "same_outside {t} m (store64 m (pte_at t i) x)"
proof -
  have "store64 m (pte_at t i) x y = m y" if "\<not> in_page t y" for y
  proof -
    have "\<not> unat (y - pte_at t i) < 8"
    proof
      assume "unat (y - pte_at t i) < 8"
      moreover have "y = pte_at t i + of_nat (unat (y - pte_at t i))" by simp
      ultimately show False using in_page_pte [OF assms, of _ t] that by metis
    qed
    then show ?thesis by (simp add: store64_apply)
  qed
  then show ?thesis by (simp add: same_outside_def)
qed

lemma load_pte_store_pte:
  assumes "unat i < 512" and "unat j < 512"
  shows "load64 (store64 m (pte_at t i) x) (pte_at t j) = (if i = j then x else load64 m (pte_at t j))"
proof (cases "i = j")
  case True
  then show ?thesis by (simp add: load64_store64_same)
next
  case False
  have "store64 m (pte_at t i) x (pte_at t j + of_nat k) = m (pte_at t j + of_nat k)" if "k < 8" for k
  proof -
    have k: "unat (of_nat k :: uint64) = k" using that by (simp add: unat_of_nat)
    have jk: "unat (8 * j + of_nat k) = 8 * unat j + k"
      using k that assms by (subst unat_add_no_wrap) (simp_all add: unat_pte_offset)
    have "unat i \<noteq> unat j" using False by (simp add: word_unat_eq_iff)
    then consider "unat i < unat j" | "unat j < unat i" by linarith
    then have "\<not> unat (8 * j + of_nat k - 8 * i) < 8"
      using assms that jk by cases (simp_all add: unat_sub_if' unat_pte_offset)
    then show ?thesis by (simp add: store64_apply pte_at_def algebra_simps)
  qed
  then have "load_bytes (store64 m (pte_at t i) x) (pte_at t j) 8 = load_bytes m (pte_at t j) 8"
    by (intro load_bytes_cong) simp
  with False show ?thesis by (simp add: load64_def)
qed

section \<open>The tree of tables\<close>

definition valid_at :: "memory \<Rightarrow> uint64 \<Rightarrow> uint64 \<Rightarrow> bool" where
  "valid_at m t i \<longleftrightarrow> has (load64 m (pte_at t i)) PTE_V"

definition child :: "memory \<Rightarrow> uint64 \<Rightarrow> uint64 \<Rightarrow> uint64" where
  "child m t i = PTE2PA (load64 m (pte_at t i))"

text \<open>
  \<open>tabs l m t\<close>: the pages of the tree of tables at \<open>t\<close> with \<open>l\<close> levels below it.
  \<open>pt_ok l m t\<close>: the tables are pages, and no page occurs twice in the tree.
  \<open>ptr l m t va\<close>: the address of the leaf entry of \<open>va\<close>, 0 when a table is missing;
  \<open>lookup l m t va\<close>: that entry, 0 when a table is missing.
\<close>

fun tabs :: "nat \<Rightarrow> memory \<Rightarrow> uint64 \<Rightarrow> uint64 set" where
  "tabs 0 m t = {t}"
| "tabs (Suc l) m t = insert t (\<Union>i \<in> {i. unat i < 512 \<and> valid_at m t i}. tabs l m (child m t i))"

fun pt_ok :: "nat \<Rightarrow> memory \<Rightarrow> uint64 \<Rightarrow> bool" where
  "pt_ok 0 m t \<longleftrightarrow> page_aligned t \<and> t \<noteq> 0"
| "pt_ok (Suc l) m t \<longleftrightarrow> page_aligned t \<and> t \<noteq> 0 \<and>
    (\<forall>i. unat i < 512 \<and> valid_at m t i \<longrightarrow>
       pt_ok l m (child m t i) \<and> t \<notin> tabs l m (child m t i)) \<and>
    (\<forall>i j. unat i < 512 \<and> unat j < 512 \<and> i \<noteq> j \<and> valid_at m t i \<and> valid_at m t j \<longrightarrow>
       tabs l m (child m t i) \<inter> tabs l m (child m t j) = {})"

fun ptr :: "nat \<Rightarrow> memory \<Rightarrow> uint64 \<Rightarrow> uint64 \<Rightarrow> uint64" where
  "ptr 0 m t va = pte_at t (PX 0 va)"
| "ptr (Suc l) m t va =
    (if valid_at m t (PX (Suc l) va) then ptr l m (child m t (PX (Suc l) va)) va else 0)"

fun lookup :: "nat \<Rightarrow> memory \<Rightarrow> uint64 \<Rightarrow> uint64 \<Rightarrow> uint64" where
  "lookup 0 m t va = load64 m (pte_at t (PX 0 va))"
| "lookup (Suc l) m t va =
    (if valid_at m t (PX (Suc l) va) then lookup l m (child m t (PX (Suc l) va)) va else 0)"

lemma root_in_tabs [simp]: "t \<in> tabs l m t"
  by (cases l) auto

lemma pt_ok_root: "pt_ok l m t \<Longrightarrow> page_aligned t \<and> t \<noteq> 0"
  by (cases l) auto

lemma tabs_aligned: "pt_ok l m t \<Longrightarrow> p \<in> tabs l m t \<Longrightarrow> page_aligned p \<and> p \<noteq> 0"
  by (induction l arbitrary: t) auto

lemma pte_at_nonzero:
  assumes "page_aligned t" and "t \<noteq> 0" and "unat i < 512"
  shows "pte_at t i \<noteq> 0"
proof
  assume "pte_at t i = 0"
  with in_page_pte [OF assms(3), of 0 t] have "in_page t 0" by simp
  then have "PGROUNDDOWN 0 = t" by (rule in_page_PGROUNDDOWN [OF assms(1)])
  with assms(2) show False by (simp add: PGROUNDDOWN_def)
qed

lemma lookup_ptr:
  assumes "pt_ok l m t"
  shows "lookup l m t va = (if ptr l m t va = 0 then 0 else load64 m (ptr l m t va))"
  using assms
proof (induction l arbitrary: t)
  case 0
  then show ?case by (simp add: pte_at_nonzero PX_less)
next
  case (Suc l)
  then show ?case by (simp add: PX_less)
qed

lemma walk_level_False:
  "walk_level l t va False s = ret (ptr l (mem s) t va) s"
  by (induction l arbitrary: t) (simp_all add: valid_at_def child_def Let_def)

lemma frame_entries:
  assumes "same_outside S m m'" and "\<forall>p \<in> S. page_aligned p" and "page_aligned t" and "t \<notin> S"
    and "unat i < 512"
  shows "valid_at m' t i = valid_at m t i" and "child m' t i = child m t i"
  using load_pte_same_outside [OF assms] by (simp_all add: valid_at_def child_def)

text \<open>A tree that does not meet the changed pages is as before.\<close>

lemma tree_frame:
  assumes "same_outside S m m'" and "\<forall>p \<in> S. page_aligned p"
    and "pt_ok l m t" and "S \<inter> tabs l m t = {}"
  shows "tabs l m' t = tabs l m t \<and> pt_ok l m' t \<and> ptr l m' t va = ptr l m t va \<and>
    lookup l m' t va = lookup l m t va"
  using assms(3,4)
proof (induction l arbitrary: t)
  case 0
  then show ?case
    using load_pte_same_outside [OF assms(1,2), of t "PX 0 va"] by (auto simp: PX_less)
next
  case (Suc l)
  have t: "page_aligned t" "t \<notin> S" using Suc.prems by auto
  note same = frame_entries [OF assms(1,2) t]
  have sub: "tabs l m' (child m t i) = tabs l m (child m t i) \<and> pt_ok l m' (child m t i) \<and>
      ptr l m' (child m t i) va = ptr l m (child m t i) va \<and>
      lookup l m' (child m t i) va = lookup l m (child m t i) va"
    if "unat i < 512" "valid_at m t i" for i
    by (rule Suc.IH) (use Suc.prems that in auto)
  have "tabs (Suc l) m' t = tabs (Suc l) m t"
    using same sub by (auto; blast)
  moreover have "pt_ok (Suc l) m' t"
    using Suc.prems(1) same sub by (simp cong: conj_cong)
  ultimately show ?case using same [OF PX_less] sub [OF PX_less] by auto
qed

lemma disjoint_grow:
  "A' \<subseteq> A \<union> X \<Longrightarrow> B' \<subseteq> B \<union> Y \<Longrightarrow> A \<inter> B = {} \<Longrightarrow> X \<inter> B = {} \<Longrightarrow> A \<inter> Y = {} \<Longrightarrow> X \<inter> Y = {} \<Longrightarrow>
    A' \<inter> B' = {}"
  by blast

text \<open>
  One subtree changes: it may take in new pages \<open>Q\<close> that the whole tree did not use.
\<close>

lemma subtree_change:
  assumes ok: "pt_ok (Suc l) m t" and i: "unat i < 512" "valid_at m t i"
    and same: "same_outside (tabs l m (child m t i) \<union> Q) m m'"
    and Q: "\<forall>p \<in> Q. page_aligned p" "Q \<inter> tabs (Suc l) m t = {}"
    and sub: "pt_ok l m' (child m t i)" "tabs l m' (child m t i) \<subseteq> tabs l m (child m t i) \<union> Q"
  shows "pt_ok (Suc l) m' t" and "tabs (Suc l) m' t \<subseteq> tabs (Suc l) m t \<union> Q"
    and "\<And>j. unat j < 512 \<Longrightarrow> valid_at m' t j = valid_at m t j \<and> child m' t j = child m t j"
    and "\<And>j va. unat j < 512 \<Longrightarrow> j \<noteq> i \<Longrightarrow> valid_at m t j \<Longrightarrow>
      ptr l m' (child m t j) va = ptr l m (child m t j) va \<and>
      lookup l m' (child m t j) va = lookup l m (child m t j) va"
proof -
  let ?S = "tabs l m (child m t i) \<union> Q"
  have al: "\<forall>p \<in> ?S. page_aligned p" using ok i Q tabs_aligned by auto
  have t: "page_aligned t" "t \<notin> ?S" using ok i Q by auto
  show entries: "valid_at m' t j = valid_at m t j \<and> child m' t j = child m t j" if "unat j < 512" for j
    using frame_entries [OF same al t that] by simp
  have others: "tabs l m' (child m t j) = tabs l m (child m t j) \<and> pt_ok l m' (child m t j) \<and>
      ptr l m' (child m t j) va = ptr l m (child m t j) va \<and>
      lookup l m' (child m t j) va = lookup l m (child m t j) va"
    if j: "unat j < 512" "j \<noteq> i" "valid_at m t j" for j va
  proof (rule tree_frame [OF same al])
    show "pt_ok l m (child m t j)" using ok j by simp
    have "tabs l m (child m t i) \<inter> tabs l m (child m t j) = {}" using ok i j by simp
    moreover have "Q \<inter> tabs l m (child m t j) = {}" using Q j by auto
    ultimately show "?S \<inter> tabs l m (child m t j) = {}" by blast
  qed
  then show "ptr l m' (child m t j) va = ptr l m (child m t j) va \<and>
      lookup l m' (child m t j) va = lookup l m (child m t j) va"
    if "unat j < 512" "j \<noteq> i" "valid_at m t j" for j va using that by blast
  have tabs_j: "tabs l m' (child m t j) \<subseteq> tabs l m (child m t j) \<union> (if j = i then Q else {})"
    if "unat j < 512" "valid_at m t j" for j
    using sub(2) others that by (cases "j = i") auto
  show "tabs (Suc l) m' t \<subseteq> tabs (Suc l) m t \<union> Q"
  proof
    fix x
    assume "x \<in> tabs (Suc l) m' t"
    then consider "x = t" | j where "unat j < 512" "valid_at m t j" "x \<in> tabs l m' (child m t j)"
      using entries by auto
    then show "x \<in> tabs (Suc l) m t \<union> Q"
    proof cases
      case 2
      with tabs_j [OF 2(1,2)] show ?thesis by (auto split: if_splits)
    qed simp
  qed
  show "pt_ok (Suc l) m' t"
  proof -
    have "pt_ok l m' (child m t j) \<and> t \<notin> tabs l m' (child m t j)"
      if "unat j < 512" "valid_at m t j" for j
    proof -
      have "pt_ok l m' (child m t j)" using sub(1) others that by (cases "j = i") auto
      moreover have "t \<notin> tabs l m (child m t j)" using ok that by simp
      moreover have "t \<notin> Q" using t by simp
      ultimately show ?thesis using tabs_j [OF that] by (auto split: if_splits)
    qed
    moreover have "tabs l m' (child m t j) \<inter> tabs l m' (child m t k) = {}"
      if jk: "unat j < 512" "unat k < 512" "j \<noteq> k" "valid_at m t j" "valid_at m t k" for j k
    proof -
      have "tabs l m (child m t j) \<inter> tabs l m (child m t k) = {}" using ok jk by simp
      moreover have "Q \<inter> tabs l m (child m t j) = {}" "Q \<inter> tabs l m (child m t k) = {}"
        using Q jk by auto
      ultimately show ?thesis
        using jk(3) by (intro disjoint_grow [OF tabs_j [OF jk(1,4)] tabs_j [OF jk(2,5)]]) auto
    qed
    ultimately show ?thesis using ok entries by auto
  qed
qed

section \<open>Changing an entry\<close>

lemma zero_table:
  assumes "page_aligned p" and "p \<noteq> 0" and "\<And>j. unat j < 512 \<Longrightarrow> load64 m (pte_at p j) = 0"
  shows "pt_ok l m p \<and> tabs l m p = {p} \<and> lookup l m p va = 0"
proof -
  have "\<not> valid_at m p j" if "unat j < 512" for j
    using assms(3) [OF that] by (simp add: valid_at_def)
  then show ?thesis using assms by (cases l) (auto simp: PX_less)
qed

lemma load_pte_memset:
  assumes "unat j < 512"
  shows "load64 (memset m p 0 (ucast PGSIZE)) (pte_at p j) = 0"
proof -
  have "load_bytes (memset m p 0 (ucast PGSIZE)) (pte_at p j) 8 = load_bytes (\<lambda>_. 0) (pte_at p j) 8"
    by (rule load_bytes_cong) (simp add: memset_page in_page_pte [OF assms])
  then show ?thesis by (metis load64_def load64_zero)
qed

lemma store_leaf:
  assumes "pt_ok l m t" and "ptr l m t va \<noteq> 0"
  shows "pt_ok l (store64 m (ptr l m t va) x) t \<and>
    tabs l (store64 m (ptr l m t va) x) t \<subseteq> tabs l m t \<and>
    same_outside (tabs l m t) m (store64 m (ptr l m t va) x) \<and>
    (\<forall>v. lookup l (store64 m (ptr l m t va) x) t v =
      (if \<forall>k \<le> l. PX k v = PX k va then x else lookup l m t v))"
  using assms
proof (induction l arbitrary: t)
  case 0
  then show ?case
    by (auto simp: load_pte_store_pte PX_less intro!: same_outside_store_pte)
next
  case (Suc l)
  let ?i = "PX (Suc l) va" and ?m = "store64 m (ptr (Suc l) m t va) x"
  let ?c = "child m t ?i"
  have i: "unat ?i < 512" "valid_at m t ?i" using Suc.prems PX_less by (auto split: if_splits)
  then have ptr: "ptr (Suc l) m t va = ptr l m ?c va" by simp
  from Suc.prems i have "pt_ok l m ?c" "ptr l m ?c va \<noteq> 0" by (auto simp: ptr)
  note IH = Suc.IH [OF this, folded ptr]
  then have same: "same_outside (tabs l m ?c \<union> {}) m ?m" by simp
  have none: "\<forall>p \<in> {}. page_aligned p" "{} \<inter> tabs (Suc l) m t = {}" by simp_all
  from IH have sub: "pt_ok l ?m ?c" "tabs l ?m ?c \<subseteq> tabs l m ?c \<union> {}" by simp_all
  note ch = subtree_change [OF Suc.prems(1) i same none sub]
  note tree = ch(1,2) and entries = ch(3)
  have others: "lookup l ?m (child m t j) v = lookup l m (child m t j) v"
    if "unat j < 512" "j \<noteq> ?i" "valid_at m t j" for j v
    using ch(4) [OF that] by blast
  have "lookup (Suc l) ?m t v = (if \<forall>k \<le> Suc l. PX k v = PX k va then x else lookup (Suc l) m t v)" for v
  proof (cases "PX (Suc l) v = ?i")
    case True
    then have "lookup (Suc l) ?m t v = lookup l ?m ?c v" "lookup (Suc l) m t v = lookup l m ?c v"
      using i entries [OF PX_less] by simp_all
    moreover have "(\<forall>k \<le> Suc l. PX k v = PX k va) \<longleftrightarrow> (\<forall>k \<le> l. PX k v = PX k va)"
      using True by (auto simp: le_Suc_eq)
    ultimately show ?thesis using IH by (simp only:)
  next
    case False
    then have "lookup (Suc l) ?m t v = lookup (Suc l) m t v"
      using entries [OF PX_less] others [OF PX_less False] by simp
    with False show ?thesis by (auto simp: le_Suc_eq)
  qed
  moreover have "tabs l m ?c \<subseteq> tabs (Suc l) m t" using i by auto
  with IH have "same_outside (tabs (Suc l) m t) m ?m" by (blast intro: same_outside_mono)
  ultimately show ?case using tree by blast
qed

section \<open>Growing the tree\<close>

lemma kmem_inv_same_outside:
  assumes "kmem_inv s ps" and "same_outside S (mem s) m" and "\<forall>p \<in> S. page_aligned p"
    and "S \<inter> set ps = {}"
  shows "kmem_inv (s\<lparr>mem := m\<rparr>) ps"
proof -
  have "chain m (freelist s) ps = chain (mem s) (freelist s) ps"
  proof (rule chain_cong)
    fix q x
    assume q: "q \<in> set ps" "in_page q x"
    then have "page_aligned q" using assms(1) by (auto simp: kmem_inv_def)
    then have "\<not> in_page p x" if "p \<in> S" for p
      using assms(3,4) q that in_page_other [of p q] by blast
    then show "m x = mem s x" using assms(2) by (simp add: same_outside_def)
  qed
  with assms(1) show ?thesis by (simp add: kmem_inv_def valid_page_def)
qed

text \<open>The memory after a new zeroed table \<open>p\<close> has been entered at index \<open>i\<close> of table \<open>t\<close>.\<close>

definition with_table :: "memory \<Rightarrow> uint64 \<Rightarrow> uint64 \<Rightarrow> uint64 \<Rightarrow> memory" where
  "with_table m t i p =
    store64 (memset (memset m p 5 (ucast PGSIZE)) p 0 (ucast PGSIZE)) (pte_at t i) (PA2PTE p OR PTE_V)"

lemma with_table_entries:
  assumes "page_aligned t" and "page_aligned p" and "t \<noteq> p" and "unat i < 512" and "unat j < 512"
  shows "load64 (with_table m t i p) (pte_at t j) =
      (if i = j then PA2PTE p OR PTE_V else load64 m (pte_at t j))"
    and "load64 (with_table m t i p) (pte_at p j) = 0"
    and "same_outside {p, t} m (with_table m t i p)"
proof -
  let ?m1 = "memset m p 5 (ucast PGSIZE)"
  let ?m2 = "memset ?m1 p 0 (ucast PGSIZE)"
  have s2: "same_outside {p} m ?m2"
    using same_outside_trans [of "{p}" m ?m1 "{p}" ?m2] by simp
  have s3: "same_outside {t} ?m2 (with_table m t i p)"
    unfolding with_table_def using assms(4) by (rule same_outside_store_pte)
  show "same_outside {p, t} m (with_table m t i p)"
    using same_outside_trans [OF s2 s3] by (simp add: insert_commute)
  show "load64 (with_table m t i p) (pte_at t j) =
      (if i = j then PA2PTE p OR PTE_V else load64 m (pte_at t j))"
    using load_pte_same_outside [OF s2 _ assms(1), of j] assms
    by (simp add: with_table_def load_pte_store_pte)
  show "load64 (with_table m t i p) (pte_at p j) = 0"
    using load_pte_same_outside [OF s3 _ assms(2), of j] assms load_pte_memset [OF assms(5)] by simp
qed

lemma with_table_tree:
  assumes ok: "pt_ok (Suc l) m t" and p: "page_aligned p" "p \<noteq> 0" "p \<notin> tabs (Suc l) m t"
    and i: "unat i < 512" "\<not> valid_at m t i"
  shows "valid_at (with_table m t i p) t i" and "child (with_table m t i p) t i = p"
    and "pt_ok (Suc l) (with_table m t i p) t"
    and "tabs (Suc l) (with_table m t i p) t \<subseteq> insert p (tabs (Suc l) m t)"
    and "lookup (Suc l) (with_table m t i p) t va = lookup (Suc l) m t va"
proof -
  let ?m = "with_table m t i p"
  have t: "page_aligned t" "t \<noteq> p" using ok p by auto
  note ent = with_table_entries [OF t(1) p(1) t(2) i(1)]
  show vi: "valid_at ?m t i" by (simp add: valid_at_def ent [OF i(1)])
  show ci: "child ?m t i = p" by (simp add: child_def ent [OF i(1)] PTE2PA_PA2PTE p)
  have zero: "pt_ok l ?m p \<and> tabs l ?m p = {p} \<and> lookup l ?m p v = 0" for v
    using p ent(2) by (intro zero_table) auto
  have same: "valid_at ?m t j = valid_at m t j \<and> child ?m t j = child m t j"
    if "unat j < 512" "j \<noteq> i" for j
    using that by (simp add: valid_at_def child_def ent)
  have sub: "tabs l ?m (child m t j) = tabs l m (child m t j) \<and> pt_ok l ?m (child m t j) \<and>
      ptr l ?m (child m t j) v = ptr l m (child m t j) v \<and>
      lookup l ?m (child m t j) v = lookup l m (child m t j) v"
    if j: "unat j < 512" "valid_at m t j" for j v
    using ok p j t by (intro tree_frame [OF ent(3) [OF i(1)]]) auto
  have tabs_j: "tabs l ?m (child ?m t j) = (if j = i then {p} else tabs l m (child m t j))"
    if "unat j < 512" "valid_at ?m t j" for j
    using that ci zero same sub by (cases "j = i") auto
  have notp: "p \<notin> tabs l m (child m t j)" if "unat j < 512" "valid_at m t j" for j
    using p that by auto
  show "tabs (Suc l) ?m t \<subseteq> insert p (tabs (Suc l) m t)"
  proof
    fix x
    assume "x \<in> tabs (Suc l) ?m t"
    then consider "x = t" | j where "unat j < 512" "valid_at ?m t j" "x \<in> tabs l ?m (child ?m t j)"
      by auto
    then show "x \<in> insert p (tabs (Suc l) m t)"
    proof cases
      case 2
      with tabs_j [OF 2(1,2)] same [OF 2(1)] show ?thesis by (auto split: if_splits)
    qed simp
  qed
  have "pt_ok l ?m (child ?m t j) \<and> t \<notin> tabs l ?m (child ?m t j)"
    if "unat j < 512" "valid_at ?m t j" for j
    using tabs_j [OF that] that ci zero same [OF that(1)] sub [OF that(1)] ok t
    by (cases "j = i") auto
  moreover have "tabs l ?m (child ?m t j) \<inter> tabs l ?m (child ?m t k) = {}"
    if jk: "unat j < 512" "unat k < 512" "j \<noteq> k" "valid_at ?m t j" "valid_at ?m t k" for j k
  proof -
    have "valid_at m t j \<or> j = i" "valid_at m t k \<or> k = i" using same jk by auto
    moreover have "tabs l m (child m t j) \<inter> tabs l m (child m t k) = {}"
      if "valid_at m t j" "valid_at m t k" using ok jk that by simp
    ultimately show ?thesis
      using tabs_j [OF jk(1,4)] tabs_j [OF jk(2,5)] jk(1-3) notp by auto
  qed
  ultimately show "pt_ok (Suc l) ?m t" using t pt_ok_root [OF ok] by simp
  show "lookup (Suc l) ?m t va = lookup (Suc l) m t va"
    using zero vi ci i same [OF PX_less] sub [OF PX_less]
    by (cases "PX (Suc l) va = i") auto
qed

text \<open>
  \<open>grows l t s ps s' ps'\<close>: from \<open>s\<close> with free pages \<open>ps\<close> to \<open>s'\<close> with free pages \<open>ps'\<close> the
  tree at \<open>t\<close> has taken in pages from the free list and stands for the same function.
\<close>

definition vm_frame :: "kstate \<Rightarrow> kstate \<Rightarrow> bool" where
  "vm_frame s s' \<longleftrightarrow> (\<exists>c m f. s' = s\<lparr>cpus := c, mem := m, freelist := f\<rparr>)"

definition evolves :: "nat \<Rightarrow> uint64 \<Rightarrow> kstate \<Rightarrow> uint64 list \<Rightarrow> kstate \<Rightarrow> uint64 list \<Rightarrow> bool" where
  "evolves l t s ps s' ps' \<longleftrightarrow> vm_frame s s' \<and> kmem_inv s' ps' \<and> pt_ok l (mem s') t \<and>
    (\<exists>qs. ps = qs @ ps' \<and> tabs l (mem s') t \<subseteq> tabs l (mem s) t \<union> set qs \<and>
       same_outside (tabs l (mem s) t \<union> set qs) (mem s) (mem s'))"

definition grows :: "nat \<Rightarrow> uint64 \<Rightarrow> kstate \<Rightarrow> uint64 list \<Rightarrow> kstate \<Rightarrow> uint64 list \<Rightarrow> bool" where
  "grows l t s ps s' ps' \<longleftrightarrow> evolves l t s ps s' ps' \<and>
    (\<forall>v. lookup l (mem s') t v = lookup l (mem s) t v)"

lemma vm_frame_refl [simp]: "vm_frame s s"
  unfolding vm_frame_def by (intro exI [of _ "cpus s"] exI [of _ "mem s"] exI [of _ "freelist s"]) simp

lemma vm_frame_trans: "vm_frame s s' \<Longrightarrow> vm_frame s' s'' \<Longrightarrow> vm_frame s s''"
  unfolding vm_frame_def by (elim exE) auto

lemma vm_frame_crit [simp]: "vm_frame s (crit s)"
  unfolding vm_frame_def
  by (intro exI [of _ "cpus (crit s)"] exI [of _ "mem s"] exI [of _ "freelist s"])
     (simp add: crit_def machine_defs)

lemma vm_frame_mem [simp]: "vm_frame s (s\<lparr>mem := m\<rparr>)"
  unfolding vm_frame_def by (intro exI [of _ "cpus s"] exI [of _ m] exI [of _ "freelist s"]) simp

lemma vm_frame_freelist [simp]: "vm_frame s (s\<lparr>freelist := f\<rparr>)"
  unfolding vm_frame_def by (intro exI [of _ "cpus s"] exI [of _ "mem s"] exI [of _ f]) simp

lemma grows_refl: "kmem_inv s ps \<Longrightarrow> pt_ok l (mem s) t \<Longrightarrow> grows l t s ps s ps"
  by (simp add: grows_def evolves_def)

lemma evolves_trans:
  assumes "evolves l t s ps s1 ps1" and "evolves l t s1 ps1 s2 ps2"
  shows "evolves l t s ps s2 ps2"
proof -
  from assms(1) obtain qs where q: "ps = qs @ ps1"
      "tabs l (mem s1) t \<subseteq> tabs l (mem s) t \<union> set qs"
      "same_outside (tabs l (mem s) t \<union> set qs) (mem s) (mem s1)" by (auto simp: evolves_def)
  from assms(2) obtain rs where r: "ps1 = rs @ ps2"
      "tabs l (mem s2) t \<subseteq> tabs l (mem s1) t \<union> set rs"
      "same_outside (tabs l (mem s1) t \<union> set rs) (mem s1) (mem s2)" by (auto simp: evolves_def)
  have "same_outside (tabs l (mem s) t \<union> set (qs @ rs)) (mem s) (mem s2)"
    using same_outside_trans [OF q(3) r(3)] by (rule same_outside_mono) (use q(2) in auto)
  moreover have "tabs l (mem s2) t \<subseteq> tabs l (mem s) t \<union> set (qs @ rs)" using q r by auto
  moreover have "ps = (qs @ rs) @ ps2" using q r by simp
  ultimately show ?thesis
    using assms vm_frame_trans unfolding evolves_def by (metis (no_types, lifting))
qed

lemma grows_trans: "grows l t s ps s1 ps1 \<Longrightarrow> grows l t s1 ps1 s2 ps2 \<Longrightarrow> grows l t s ps s2 ps2"
  by (auto simp: grows_def intro: evolves_trans)

lemma evolves_free_disjoint:
  assumes "evolves l t s ps s' ps'" and "kmem_inv s ps" and "set ps \<inter> tabs l (mem s) t = {}"
  shows "set ps' \<inter> tabs l (mem s') t = {}"
proof -
  from assms(1) obtain qs where "ps = qs @ ps'" "tabs l (mem s') t \<subseteq> tabs l (mem s) t \<union> set qs"
    by (auto simp: evolves_def)
  moreover from this assms(2) have "set qs \<inter> set ps' = {}" by (simp add: kmem_inv_def)
  ultimately show ?thesis using assms(3) by auto
qed

lemma grows_crit:
  assumes "kmem_inv s ps" and "pt_ok l (mem s) t"
  shows "grows l t s ps (crit s) ps"
  using assms by (auto simp: grows_def evolves_def kmem_inv_def valid_page_def)

lemma grows_child:
  assumes g: "grows l (child (mem s) t i) s ps s' ps'" and ok: "pt_ok (Suc l) (mem s) t"
    and i: "unat i < 512" "valid_at (mem s) t i"
    and inv: "kmem_inv s ps" "set ps \<inter> tabs (Suc l) (mem s) t = {}"
  shows "grows (Suc l) t s ps s' ps' \<and> valid_at (mem s') t i \<and>
    child (mem s') t i = child (mem s) t i"
proof -
  let ?c = "child (mem s) t i"
  from g obtain qs where q: "ps = qs @ ps'" "tabs l (mem s') ?c \<subseteq> tabs l (mem s) ?c \<union> set qs"
      "same_outside (tabs l (mem s) ?c \<union> set qs) (mem s) (mem s')" by (auto simp: grows_def evolves_def)
  have Q: "\<forall>p \<in> set qs. page_aligned p" "set qs \<inter> tabs (Suc l) (mem s) t = {}"
    using inv q(1) by (auto simp: kmem_inv_def valid_page_def)
  have c: "pt_ok l (mem s') ?c" "\<forall>v. lookup l (mem s') ?c v = lookup l (mem s) ?c v"
    using g by (auto simp: grows_def evolves_def)
  note ch = subtree_change [OF ok i q(3) Q c(1) q(2)]
  have "lookup (Suc l) (mem s') t v = lookup (Suc l) (mem s) t v" for v
    using ch(3) [OF PX_less] ch(4) [OF PX_less] c(2)
    by (cases "PX (Suc l) v = i") auto
  moreover have "same_outside (tabs (Suc l) (mem s) t \<union> set qs) (mem s) (mem s')"
    using q(3) by (rule same_outside_mono) (use i in auto)
  ultimately show ?thesis
    using g q(1) ch(1,2) ch(3) [OF i(1)] i unfolding grows_def evolves_def by blast
qed

lemma grows_table:
  assumes inv: "kmem_inv s (p # ps)" and ok: "pt_ok (Suc l) (mem s) t"
    and dis: "set (p # ps) \<inter> tabs (Suc l) (mem s) t = {}"
    and i: "unat i < 512" "\<not> valid_at (mem s) t i"
  shows "grows (Suc l) t s (p # ps)
    (crit (s\<lparr>freelist := load64 (mem s) p, mem := with_table (mem s) t i p\<rparr>)) ps"
    (is "grows _ _ _ _ ?s _")
proof -
  have p: "page_aligned p" "p \<noteq> 0" "p \<notin> tabs (Suc l) (mem s) t" "p \<notin> set ps"
    using inv dis by (auto simp: kmem_inv_def)
  have t: "page_aligned t" "t \<noteq> p" using pt_ok_root [OF ok] p by auto
  note tree = with_table_tree [OF ok p(1-3) i]
  have same: "same_outside {p, t} (mem s) (with_table (mem s) t i p)"
    using with_table_entries(3) [OF t(1) p(1) t(2) i(1) i(1)] .
  have "same_outside {p, t} (memset (mem s) p 5 (ucast PGSIZE)) (with_table (mem s) t i p)"
    using same by (auto simp: same_outside_def memset_page)
  then have "kmem_inv ?s ps"
    using kmem_inv_same_outside [OF kmem_inv_pop [OF inv], of "{p, t}" "with_table (mem s) t i p"] p t dis
    by auto
  moreover have "vm_frame s ?s"
    by (rule vm_frame_trans [OF vm_frame_trans [OF vm_frame_freelist vm_frame_mem] vm_frame_crit])
  moreover have "same_outside (tabs (Suc l) (mem s) t \<union> set [p]) (mem s) (mem ?s)"
    using same by simp (erule same_outside_mono, auto)
  moreover have "tabs (Suc l) (mem ?s) t \<subseteq> tabs (Suc l) (mem s) t \<union> set [p]" using tree(4) by auto
  ultimately show ?thesis
    unfolding grows_def evolves_def using tree(3,5)
    by (intro conjI exI [of _ "[p]"]) (auto simp del: tabs.simps pt_ok.simps lookup.simps)
qed

lemma walk_level_alloc_valid:
  assumes IH: "\<And>t s ps. kmem_inv s ps \<Longrightarrow> pt_ok l (mem s) t \<Longrightarrow> set ps \<inter> tabs l (mem s) t = {} \<Longrightarrow>
      \<exists>r s' ps'. walk_level l t va True s = Inr (r, s') \<and> grows l t s ps s' ps' \<and>
        length ps \<le> length ps' + l \<and>
    (if r = 0 then ps' = [] \<and> length ps < l else r = ptr l (mem s') t va)"
    and s: "kmem_inv s ps" "pt_ok (Suc l) (mem s) t" "set ps \<inter> tabs (Suc l) (mem s) t = {}"
    and v: "valid_at (mem s) t (PX (Suc l) va)"
  shows "\<exists>r s' ps'. walk_level (Suc l) t va True s = Inr (r, s') \<and> grows (Suc l) t s ps s' ps' \<and>
    length ps \<le> length ps' + l \<and>
    (if r = 0 then ps' = [] \<and> length ps < l else r = ptr (Suc l) (mem s') t va)"
proof -
  let ?c = "child (mem s) t (PX (Suc l) va)"
  have "pt_ok l (mem s) ?c" "set ps \<inter> tabs l (mem s) ?c = {}"
    using s v PX_less by auto
  then obtain r s' ps' where r: "walk_level l ?c va True s = Inr (r, s')"
      "grows l ?c s ps s' ps'" "length ps \<le> length ps' + l" "if r = 0 then ps' = [] \<and> length ps < l else r = ptr l (mem s') ?c va"
    using IH [OF s(1)] by blast
  have "walk_level (Suc l) t va True s = Inr (r, s')"
    using r(1) v by (simp add: valid_at_def child_def)
  moreover have "grows (Suc l) t s ps s' ps'" "ptr (Suc l) (mem s') t va = ptr l (mem s') ?c va"
    using grows_child [OF r(2) s(2) PX_less v s(1,3)] by simp_all
  ultimately show ?thesis using r(3,4) by (intro exI [of _ r] exI [of _ s'] exI [of _ ps']) simp
qed

lemma walk_level_alloc:
  assumes "kmem_inv s ps" and "pt_ok l (mem s) t" and "set ps \<inter> tabs l (mem s) t = {}"
  shows "\<exists>r s' ps'. walk_level l t va True s = Inr (r, s') \<and> grows l t s ps s' ps' \<and>
    length ps \<le> length ps' + l \<and>
    (if r = 0 then ps' = [] \<and> length ps < l else r = ptr l (mem s') t va)"
  using assms
proof (induction l arbitrary: t s ps)
  case 0
  then show ?case
    by (intro exI [of _ "pte_at t (PX 0 va)"] exI [of _ s] exI [of _ ps])
       (simp add: grows_refl pte_at_nonzero PX_less)
next
  case (Suc l)
  let ?i = "PX (Suc l) va"
  consider "valid_at (mem s) t ?i" | "\<not> valid_at (mem s) t ?i" "ps = []" |
    p qs where "\<not> valid_at (mem s) t ?i" "ps = p # qs" by (cases ps) auto
  then show ?case
  proof cases
    case 1
    have "\<exists>r s' ps'. walk_level (Suc l) t va True s = Inr (r, s') \<and> grows (Suc l) t s ps s' ps' \<and>
        length ps \<le> length ps' + l \<and>
        (if r = 0 then ps' = [] \<and> length ps < l else r = ptr (Suc l) (mem s') t va)"
      by (rule walk_level_alloc_valid [OF _ Suc.prems 1]) (rule Suc.IH)
    then show ?thesis by (elim exE conjE) (intro exI conjI, assumption, assumption, auto split: if_splits)
  next
    case 2
    then have "walk_level (Suc l) t va True s = Inr (0, crit s)"
      using Suc.prems(1) by (simp add: valid_at_def kalloc_nil Let_def)
    moreover have "grows (Suc l) t s ps (crit s) []"
      using grows_crit [OF Suc.prems(1,2)] 2 by simp
    ultimately show ?thesis using 2
      by (intro exI [of _ 0] exI [of _ "crit s"] exI [of _ "[]"]) simp
  next
    case 3
    let ?s = "crit (s\<lparr>freelist := load64 (mem s) p, mem := with_table (mem s) t ?i p\<rparr>)"
    have p: "page_aligned p" "p \<noteq> 0" "p \<notin> tabs (Suc l) (mem s) t"
      using Suc.prems 3 by (auto simp: kmem_inv_def)
    note tree = with_table_tree [OF Suc.prems(2) p PX_less 3(1)]
    have g: "grows (Suc l) t s (p # qs) ?s qs"
      using Suc.prems 3 by (intro grows_table) (simp_all add: PX_less del: tabs.simps pt_ok.simps)
    have dis: "set qs \<inter> tabs (Suc l) (mem ?s) t = {}"
      using evolves_free_disjoint [of "Suc l" t s "p # qs" ?s qs] g Suc.prems 3
      unfolding grows_def by blast
    have "walk_level (Suc l) t va True s = walk_level l p va True ?s"
      using Suc.prems(1) 3 p(2) by (simp add: valid_at_def kalloc_cons Let_def with_table_def)
    also have "\<dots> = walk_level (Suc l) t va True ?s"
      using tree(1,2) by (simp add: valid_at_def child_def Let_def)
    finally have eq: "walk_level (Suc l) t va True s = walk_level (Suc l) t va True ?s" .
    have "kmem_inv ?s qs" "pt_ok (Suc l) (mem ?s) t" using g unfolding grows_def evolves_def by blast+
    then have "\<exists>r s' ps'. walk_level (Suc l) t va True ?s = Inr (r, s') \<and>
        grows (Suc l) t ?s qs s' ps' \<and> length qs \<le> length ps' + l \<and>
        (if r = 0 then ps' = [] \<and> length qs < l else r = ptr (Suc l) (mem s') t va)"
      using tree(1) by (intro walk_level_alloc_valid [OF Suc.IH _ _ dis]) simp_all
    then obtain r s' ps' where "walk_level (Suc l) t va True s = Inr (r, s')"
        "grows (Suc l) t ?s qs s' ps'" "length qs \<le> length ps' + l"
        "if r = 0 then ps' = [] \<and> length qs < l else r = ptr (Suc l) (mem s') t va"
      unfolding eq by blast
    then show ?thesis using grows_trans [OF g] 3(2)
      by (intro exI [of _ r] exI [of _ s'] exI [of _ ps']) (auto split: if_splits)
  qed
qed

section \<open>Mapping a range\<close>

lemma page_range:
  assumes "page_aligned a"
  shows "PGROUNDDOWN v = a \<longleftrightarrow> unat a \<le> unat v \<and> unat v < unat a + 4096"
proof -
  from assms obtain q where q: "unat a = 4096 * q"
    by (auto simp: page_aligned_def mod_PGSIZE_0)
  have "PGROUNDDOWN v = a \<longleftrightarrow> 4096 * (unat v div 4096) = 4096 * q"
    by (simp add: word_unat_eq_iff unat_PGROUNDDOWN q minus_mod_eq_mult_div)
  also have "\<dots> \<longleftrightarrow> 4096 * q \<le> unat v \<and> unat v < 4096 * q + 4096"
    by auto
  finally show ?thesis by (simp add: q)
qed

text \<open>The function \<open>old\<close> with \<open>k\<close> pages from \<open>a\<close> on mapped to \<open>pa\<close> on.\<close>

definition map_range :: "uint64 \<Rightarrow> nat \<Rightarrow> uint64 \<Rightarrow> uint64 \<Rightarrow> (uint64 \<Rightarrow> uint64) \<Rightarrow> uint64 \<Rightarrow> uint64" where
  "map_range a k pa perm old v =
    (if unat a \<le> unat v \<and> unat v < unat a + 4096 * k
     then PA2PTE (pa + (PGROUNDDOWN v - a)) OR perm OR PTE_V else old v)"

lemma map_range_step:
  assumes "page_aligned a" and "unat a + 4096 < 2 ^ 64"
  shows "map_range (a + PGSIZE) k (pa + PGSIZE) perm
      (\<lambda>v. if PGROUNDDOWN v = a then PA2PTE pa OR perm OR PTE_V else old v) v =
    map_range a (Suc k) pa perm old v"
proof -
  have a: "unat (a + PGSIZE) = unat a + 4096" using assms(2) by (subst unat_add_no_wrap) simp_all
  show ?thesis
    using page_range [OF assms(1), of v] by (auto simp: map_range_def a)
qed

lemma walk_alloc:
  assumes "kmem_inv s ps" and "pt_ok 2 (mem s) t" and "set ps \<inter> tabs 2 (mem s) t = {}" and "a < MAXVA"
  obtains r s' ps' where "walk t a True s = Inr (r, s')" and "grows 2 t s ps s' ps'"
    and "length ps \<le> length ps' + 2"
    and "r = 0 \<Longrightarrow> ps' = [] \<and> length ps < 2" and "r \<noteq> 0 \<Longrightarrow> r = ptr 2 (mem s') t a"
proof -
  from walk_level_alloc [OF assms(1-3), of a] obtain r s' ps' where
    r: "walk_level 2 t a True s = Inr (r, s')" "grows 2 t s ps s' ps'" "length ps \<le> length ps' + 2"
    "if r = 0 then ps' = [] \<and> length ps < 2 else r = ptr 2 (mem s') t a" by blast
  moreover from r(1) assms(4) have "walk t a True s = Inr (r, s')" by (simp add: walk_def not_le)
  ultimately show thesis using that [of r s' ps'] by (auto split: if_splits)
qed

lemma evolves_store_leaf:
  assumes "grows 2 t s ps s' ps'" and "ptr 2 (mem s') t a \<noteq> 0" and "a < MAXVA"
    and "set ps' \<inter> tabs 2 (mem s') t = {}" and "page_aligned a"
  shows "evolves 2 t s ps (s'\<lparr>mem := store64 (mem s') (ptr 2 (mem s') t a) e\<rparr>) ps'"
    and "v < MAXVA \<Longrightarrow> lookup 2 (store64 (mem s') (ptr 2 (mem s') t a) e) t v =
      (if PGROUNDDOWN v = a then e else lookup 2 (mem s) t v)"
proof -
  have ok: "pt_ok 2 (mem s') t" using assms(1) by (simp add: grows_def evolves_def)
  note st = store_leaf [OF ok assms(2), of e]
  let ?s = "s'\<lparr>mem := store64 (mem s') (ptr 2 (mem s') t a) e\<rparr>"
  have "kmem_inv ?s ps'"
    using assms(1,4) st tabs_aligned [OF ok]
    by (intro kmem_inv_same_outside [of _ _ "tabs 2 (mem s') t"]) (auto simp: grows_def evolves_def)
  then have "evolves 2 t s' ps' ?s ps'" using st by (simp add: evolves_def)
  then show "evolves 2 t s ps ?s ps'" using assms(1) evolves_trans unfolding grows_def by blast
  assume v: "v < MAXVA"
  have "PGROUNDDOWN a = a" using assms(5) by (rule page_aligned_PGROUNDDOWN)
  then show "lookup 2 (store64 (mem s') (ptr 2 (mem s') t a) e) t v =
      (if PGROUNDDOWN v = a then e else lookup 2 (mem s) t v)"
    using st assms(1) PX_eq_iff [OF v assms(3)] by (simp add: grows_def)
qed

definition unmapped :: "memory \<Rightarrow> uint64 \<Rightarrow> uint64 \<Rightarrow> nat \<Rightarrow> bool" where
  "unmapped m t a n \<longleftrightarrow>
    (\<forall>v < MAXVA. unat a \<le> unat v \<and> unat v < unat a + 4096 * n \<longrightarrow> \<not> has (lookup 2 m t v) PTE_V)"

lemma mappages_from_step:
  assumes s: "kmem_inv s ps" "pt_ok 2 (mem s) t" "set ps \<inter> tabs 2 (mem s) t = {}"
    and a: "page_aligned a" "a < MAXVA" "\<not> has (lookup 2 (mem s) t a) PTE_V"
  obtains (full) s' where "mappages_from t a lst pa perm s = Inr (-1, s')" and "grows 2 t s ps s' []"
      and "length ps < 2"
  | (go) s' ps' where "mappages_from t a lst pa perm s =
        (if a = lst then ret 0 s' else mappages_from t (a + PGSIZE) lst (pa + PGSIZE) perm s')"
      and "evolves 2 t s ps s' ps'" and "length ps \<le> length ps' + 2"
      and "\<forall>v < MAXVA. lookup 2 (mem s') t v =
        (if PGROUNDDOWN v = a then PA2PTE pa OR perm OR PTE_V else lookup 2 (mem s) t v)"
proof -
  obtain r s1 ps1 where r: "walk t a True s = Inr (r, s1)" "grows 2 t s ps s1 ps1"
    "length ps \<le> length ps1 + 2" "r = 0 \<Longrightarrow> ps1 = [] \<and> length ps < 2"
    "r \<noteq> 0 \<Longrightarrow> r = ptr 2 (mem s1) t a"
    using walk_alloc [OF s a(2)] by blast
  show thesis
  proof (cases "r = 0")
    case True
    with r(1) have "mappages_from t a lst pa perm s = Inr (-1, s1)"
      by (subst mappages_from.simps) simp
    with True r(2,4) show thesis by (intro full [of s1]) simp_all
  next
    case False
    let ?e = "PA2PTE pa OR perm OR PTE_V"
    let ?s = "s1\<lparr>mem := store64 (mem s1) (ptr 2 (mem s1) t a) ?e\<rparr>"
    have ptr: "r = ptr 2 (mem s1) t a" "ptr 2 (mem s1) t a \<noteq> 0" using r(5) False by auto
    have dis: "set ps1 \<inter> tabs 2 (mem s1) t = {}"
      using evolves_free_disjoint [OF _ s(1,3)] r(2) unfolding grows_def by blast
    have "load64 (mem s1) r = lookup 2 (mem s1) t a"
      using lookup_ptr [of 2 "mem s1" t a] r(2) ptr by (simp add: grows_def evolves_def)
    then have "\<not> has (load64 (mem s1) r) PTE_V" using a(3) r(2) by (simp add: grows_def)
    then have "mappages_from t a lst pa perm s =
        (if a = lst then ret 0 ?s else mappages_from t (a + PGSIZE) lst (pa + PGSIZE) perm ?s)"
      using r(1) False ptr(1) by (subst mappages_from.simps) (simp add: Let_def)
    moreover note st = evolves_store_leaf [OF r(2) ptr(2) a(2) dis a(1)]
    ultimately show thesis using st(2) [of _ ?e] r(3) by (intro go [of ?s ps1] st(1)) simp_all
  qed
qed

lemma map_range_0 [simp]: "map_range a 0 pa perm old v = old v"
  by (auto simp: map_range_def)

lemma map_range_cong:
  "old v = old' v \<Longrightarrow> map_range a k pa perm old v = map_range a k pa perm old' v"
  by (simp add: map_range_def)

lemma mappages_from_maps:
  assumes "kmem_inv s ps" and "pt_ok 2 (mem s) t" and "set ps \<inter> tabs 2 (mem s) t = {}"
    and "page_aligned a" and "unat a + 4096 * Suc n \<le> 2 ^ 38" and "unmapped (mem s) t a (Suc n)"
  shows "\<exists>r s' ps' k. mappages_from t a (a + of_nat (4096 * n)) pa perm s = Inr (r, s') \<and>
    evolves 2 t s ps s' ps' \<and> k \<le> Suc n \<and>
    (if k = Suc n then r = 0 else r = -1 \<and> ps' = [] \<and> length ps < 2 * Suc n) \<and>
    (\<forall>v < MAXVA. lookup 2 (mem s') t v = map_range a k pa perm (lookup 2 (mem s) t) v)"
  using assms
proof (induction n arbitrary: a pa s ps)
  case (0 a pa s ps)
  have a: "a < MAXVA" "unat a + 4096 < 2 ^ 64" using 0 unat_MAXVA by (simp_all add: word_less_nat_alt)
  then have "\<not> has (lookup 2 (mem s) t a) PTE_V" using 0 by (simp add: unmapped_def)
  with 0(1-4) a(1) show ?case
  proof (cases rule: mappages_from_step [where lst = "a + of_nat (4096 * 0)" and pa = pa and perm = perm])
    case (full s')
    then show ?thesis
      by (intro exI [of _ "-1"] exI [of _ s'] exI [of _ "[]"] exI [of _ 0]) (simp_all add: grows_def)
  next
    case (go s' ps')
    then show ?thesis
      using map_range_step [OF 0(4) a(2), of 0 pa perm "lookup 2 (mem s) t"]
      by (intro exI [of _ 0] exI [of _ s'] exI [of _ ps'] exI [of _ 1]) simp_all
  qed
next
  case (Suc n)
  let ?lst = "a + of_nat (4096 * Suc n)"
  have a: "a < MAXVA" "unat a + 4096 < 2 ^ 64"
    using Suc.prems unat_MAXVA by (simp_all add: word_less_nat_alt)
  have a1: "unat (a + PGSIZE) = unat a + 4096" using a(2) by (subst unat_add_no_wrap) simp_all
  have lst: "?lst = (a + PGSIZE) + of_nat (4096 * n)" by (simp add: PGSIZE_def)
  have "unat (of_nat (4096 * Suc n) :: uint64) = 4096 * Suc n"
    using Suc.prems(5) by (simp only: unat_of_nat) simp
  then have neq: "a \<noteq> ?lst" by (metis add_cancel_right_right mult_eq_0_iff nat.distinct(1) unat_0
        zero_neq_numeral)
  have "\<not> has (lookup 2 (mem s) t a) PTE_V" using Suc.prems a by (simp add: unmapped_def)
  with Suc.prems(1-4) a(1) show ?case
  proof (cases rule: mappages_from_step [where lst = ?lst and pa = pa and perm = perm])
    case (full s')
    then show ?thesis
      by (intro exI [of _ "-1"] exI [of _ s'] exI [of _ "[]"] exI [of _ 0]) (simp_all add: grows_def)
  next
    case (go s' ps')
    have "\<exists>r s'' ps'' k. mappages_from t (a + PGSIZE) ((a + PGSIZE) + of_nat (4096 * n)) (pa + PGSIZE) perm s' =
        Inr (r, s'') \<and> evolves 2 t s' ps' s'' ps'' \<and> k \<le> Suc n \<and>
        (if k = Suc n then r = 0 else r = -1 \<and> ps'' = [] \<and> length ps' < 2 * Suc n) \<and>
        (\<forall>v < MAXVA. lookup 2 (mem s'') t v =
           map_range (a + PGSIZE) k (pa + PGSIZE) perm (lookup 2 (mem s') t) v)"
    proof (rule Suc.IH)
      show "kmem_inv s' ps'" "pt_ok 2 (mem s') t" using go(2) by (simp_all add: evolves_def)
      show "set ps' \<inter> tabs 2 (mem s') t = {}"
        using evolves_free_disjoint [OF go(2) Suc.prems(1,3)] .
      show "page_aligned (a + PGSIZE)"
        using Suc.prems(4) by (simp add: page_aligned_def mod_PGSIZE_0 a1)
      show "unat (a + PGSIZE) + 4096 * Suc n \<le> 2 ^ 38" using Suc.prems(5) by (simp add: a1)
      show "unmapped (mem s') t (a + PGSIZE) (Suc n)"
        using Suc.prems(6) go(4) page_range [OF Suc.prems(4)] by (auto simp: unmapped_def a1)
    qed
    then obtain r s'' ps'' k where IH:
        "mappages_from t (a + PGSIZE) ((a + PGSIZE) + of_nat (4096 * n)) (pa + PGSIZE) perm s' = Inr (r, s'')"
        "evolves 2 t s' ps' s'' ps''" "k \<le> Suc n" "if k = Suc n then r = 0 else r = -1 \<and> ps'' = [] \<and> length ps' < 2 * Suc n"
        "\<forall>v < MAXVA. lookup 2 (mem s'') t v =
           map_range (a + PGSIZE) k (pa + PGSIZE) perm (lookup 2 (mem s') t) v" by blast
    have "mappages_from t a ?lst pa perm s = Inr (r, s'')"
      using go(1) neq IH(1) unfolding lst by simp
    moreover have "lookup 2 (mem s'') t v = map_range a (Suc k) pa perm (lookup 2 (mem s) t) v"
      if "v < MAXVA" for v
    proof -
      let ?f = "\<lambda>v. if PGROUNDDOWN v = a then PA2PTE pa OR perm OR PTE_V else lookup 2 (mem s) t v"
      have "lookup 2 (mem s'') t v = map_range (a + PGSIZE) k (pa + PGSIZE) perm (lookup 2 (mem s') t) v"
        using IH(5) that by blast
      also have "\<dots> = map_range (a + PGSIZE) k (pa + PGSIZE) perm ?f v"
        using go(4) that by (intro map_range_cong) blast
      finally show ?thesis by (simp only: map_range_step [OF Suc.prems(4) a(2)])
    qed
    ultimately show ?thesis
      using evolves_trans [OF go(2) IH(2)] IH(3,4) go(3)
      by (intro exI [of _ r] exI [of _ s''] exI [of _ ps''] exI [of _ "Suc k"]) (auto split: if_splits)
  qed
qed

text \<open>
  C3: \<^verbatim>\<open>mappages\<close> on a range of unmapped pages below \<^verbatim>\<open>MAXVA\<close> never panics. When it returns 0 the
  page table maps exactly the pages of the range, each to its own physical page with the given
  permissions, and every other address as before; this is so whenever two free pages per page of
  the range are there for tables. When memory runs out it returns -1, has used
  up the free list and has mapped a proper prefix of the range. Either way the tables stay a tree,
  grown only by pages taken from the free list, and no other page of memory changes.
\<close>

theorem mappages_maps_range:
  assumes "kmem_inv s ps" and "pt_ok 2 (mem s) pt" and "set ps \<inter> tabs 2 (mem s) pt = {}"
    and "page_aligned va" and "0 < n" and "unat va + 4096 * n \<le> 2 ^ 38" and "unmapped (mem s) pt va n"
  shows "\<exists>r s' ps' k. mappages pt va (of_nat (4096 * n)) pa perm s = Inr (r, s') \<and>
    evolves 2 pt s ps s' ps' \<and> k \<le> n \<and>
    (if k = n then r = 0 else r = -1 \<and> ps' = [] \<and> length ps < 2 * n) \<and>
    (\<forall>v < MAXVA. lookup 2 (mem s') pt v = map_range va k pa perm (lookup 2 (mem s) pt) v)"
proof -
  obtain k where n: "n = Suc k" using assms(5) by (cases n) auto
  have sz: "unat (of_nat (4096 * n) :: uint64) = 4096 * n"
    using assms(6) by (simp only: unat_of_nat) simp
  have "(of_nat (4096 * n) :: uint64) mod PGSIZE = 0" unfolding mod_PGSIZE_0 sz by simp
  moreover have "(of_nat (4096 * n) :: uint64) \<noteq> 0" using sz assms(5) by (metis mult_eq_0_iff
        less_irrefl unat_0 zero_neq_numeral)
  moreover have "va + of_nat (4096 * n) - PGSIZE = va + of_nat (4096 * k)"
    by (simp add: n PGSIZE_def)
  moreover have "va mod PGSIZE = 0" using assms(4) by (simp add: page_aligned_def)
  ultimately have "mappages pt va (of_nat (4096 * n)) pa perm s =
      mappages_from pt va (va + of_nat (4096 * k)) pa perm s"
    unfolding mappages_def by (simp only: if_False simp_thms)
  then show ?thesis
    using mappages_from_maps [OF assms(1-4), of k pa perm] assms(6,7) unfolding n by simp
qed

section \<open>Witnesses\<close>

text \<open>Two free pages, and an empty page table at \<open>0x80023000\<close>.\<close>

definition sample_vm :: kstate where
  "sample_vm = kstate0\<lparr>freelist := 0x80024000, mem := store64 (\<lambda>_. 0) 0x80024000 0x80025000\<rparr>"

lemma sample_vm_entries:
  "t \<noteq> 0x80024000 \<Longrightarrow> page_aligned t \<Longrightarrow> unat j < 512 \<Longrightarrow> load64 (mem sample_vm) (pte_at t j) = 0"
proof -
  assume t: "t \<noteq> 0x80024000" "page_aligned t" and j: "unat j < 512"
  have "same_outside {0x80024000} (\<lambda>_. 0) (store64 (\<lambda>_. 0) (pte_at 0x80024000 0) 0x80025000)"
    by (rule same_outside_store_pte) simp
  from load_pte_same_outside [OF this _ t(2) _ j] t(1) show ?thesis
    by (simp add: sample_vm_def load64_zero pte_at_def page_aligned_def PGSIZE_def)
qed

lemma sample_vm_pt: "pt_ok 2 (mem sample_vm) 0x80023000 \<and> tabs 2 (mem sample_vm) 0x80023000 = {0x80023000}
    \<and> lookup 2 (mem sample_vm) 0x80023000 v = 0"
  by (rule zero_table) (simp_all add: sample_vm_entries page_aligned_def PGSIZE_def)

lemma sample_vm_inv: "kmem_inv sample_vm [0x80024000, 0x80025000]"
proof -
  have "load64 (mem sample_vm) 0x80025000 = 0"
    using sample_vm_entries [of "0x80025000" 0] by (simp add: pte_at_def page_aligned_def PGSIZE_def)
  then have "chain (mem sample_vm) 0x80024000 [0x80024000, 0x80025000]"
    by (simp add: sample_vm_def load64_store64_same)
  then show ?thesis
    by (simp add: kmem_inv_def sample_vm_def valid_page_def page_aligned_def)
       (simp add: kstate0_def PGSIZE_def PHYSTOP_def KERNBASE_def)
qed

lemma sample_vm_unmapped: "unmapped (mem sample_vm) 0x80023000 va n"
  using sample_vm_pt by (simp add: unmapped_def)

theorem mappages_maps_range_witness:
  "\<exists>s'. mappages 0x80023000 0x1000 0x1000 0x80026000 (PTE_R OR PTE_U) sample_vm = Inr (0, s') \<and>
    (\<forall>v < MAXVA. lookup 2 (mem s') 0x80023000 v =
      map_range 0x1000 1 0x80026000 (PTE_R OR PTE_U) (\<lambda>_. 0) v)"
proof -
  have z: "lookup 2 (mem sample_vm) 0x80023000 = (\<lambda>_. 0)" using sample_vm_pt by auto
  have d: "set [0x80024000, 0x80025000] \<inter> tabs 2 (mem sample_vm) 0x80023000 = {}"
    using sample_vm_pt by simp
  have al: "page_aligned 0x1000" by (simp add: page_aligned_def PGSIZE_def)
  have n: "(0 :: nat) < 1" "unat (0x1000 :: uint64) + 4096 * 1 \<le> 2 ^ 38" by simp_all
  have sz: "of_nat (4096 * 1) = (0x1000 :: uint64)" by simp
  from mappages_maps_range [OF sample_vm_inv conjunct1 [OF sample_vm_pt] d al n sample_vm_unmapped,
      of "0x80026000" "PTE_R OR PTE_U", unfolded z sz]
  show ?thesis by (elim exE conjE) (auto split: if_splits)
qed

end
