(* ===== verification/Usercopy.thy ===== *)
theory Usercopy
  imports Pagetable
begin

text \<open>
  What the copies between kernel and user memory of \<^verbatim>\<open>vm.c\<close> achieve: they act on exactly the
  bytes that the page table maps for the user, and on nothing else.
\<close>

section \<open>Copying to and from user memory\<close>

definition user_mapped :: "memory \<Rightarrow> uint64 \<Rightarrow> uint64 \<Rightarrow> bool" where
  "user_mapped m t va \<longleftrightarrow> va < MAXVA \<and> has (lookup 2 m t va) PTE_V \<and> has (lookup 2 m t va) PTE_U"

definition user_writable :: "memory \<Rightarrow> uint64 \<Rightarrow> uint64 \<Rightarrow> bool" where
  "user_writable m t va \<longleftrightarrow> user_mapped m t va \<and> has (lookup 2 m t va) PTE_W"

text \<open>The physical address of \<open>va\<close>, and the pages that the user may write.\<close>

definition uaddr :: "memory \<Rightarrow> uint64 \<Rightarrow> uint64 \<Rightarrow> uint64" where
  "uaddr m t va = PTE2PA (lookup 2 m t va) + (va - PGROUNDDOWN va)"

definition upages :: "memory \<Rightarrow> uint64 \<Rightarrow> uint64 set" where
  "upages m t = {PTE2PA (lookup 2 m t v) | v. user_writable m t v}"

lemma PX_PGROUNDDOWN [simp]: "PX k (PGROUNDDOWN v) = PX k v"
  by (intro bit_eqI) (simp add: bit_PX bit_PGROUNDDOWN)

lemma lookup_page [simp]: "lookup l m t (PGROUNDDOWN v) = lookup l m t v"
  by (induction l arbitrary: t) simp_all

lemma ptr_page [simp]: "ptr l m t (PGROUNDDOWN v) = ptr l m t v"
  by (induction l arbitrary: t) simp_all

lemma page_aligned_PGROUNDDOWN_self [simp]: "page_aligned (PGROUNDDOWN v)"
  by (simp add: page_aligned_def mod_PGSIZE_0 PGROUNDDOWN_aligned)

lemma PGROUNDDOWN_below_MAXVA [simp]: "PGROUNDDOWN v < MAXVA \<longleftrightarrow> v < MAXVA"
proof -
  have "unat v - unat v mod 4096 < 2 ^ 38 \<longleftrightarrow> unat v < 2 ^ 38"
    by (simp add: minus_mod_eq_mult_div) (simp add: div_less_iff_less_mult)
  then show ?thesis by (simp add: word_less_nat_alt unat_PGROUNDDOWN unat_MAXVA)
qed

lemma user_page [simp]:
  "user_mapped m t (PGROUNDDOWN v) = user_mapped m t v"
  "user_writable m t (PGROUNDDOWN v) = user_writable m t v"
  by (simp_all add: user_mapped_def user_writable_def)

lemma walk_False:
  "walk t va False s = (if va < MAXVA then ret (ptr 2 (mem s) t va) s else panic ''walk'')"
  by (auto simp: walk_def walk_level_False)

lemma walkaddr_eq:
  assumes "pt_ok 2 (mem s) t"
  shows "walkaddr t va s = ret (if user_mapped (mem s) t va then PTE2PA (lookup 2 (mem s) t va) else 0) s"
  using lookup_ptr [OF assms, of va]
  by (auto simp: walkaddr_def walk_False user_mapped_def not_le split: if_splits)

lemma add_in_page:
  assumes "k < 4096 - unat va mod 4096"
  shows "unat (va + of_nat k) = unat va + k" and "PGROUNDDOWN (va + of_nat k) = PGROUNDDOWN va"
proof -
  have "unat (PGROUNDDOWN va) + 4096 \<le> 2 ^ 64"
    by (rule page_aligned_room) simp
  then have "unat va + k < 2 ^ 64" using assms by (simp add: unat_PGROUNDDOWN)
  moreover have "unat (of_nat k :: uint64) = k"
    using assms by (simp add: unat_of_nat)
  ultimately show eq: "unat (va + of_nat k) = unat va + k"
    using unat_add_no_wrap [of va "of_nat k"] by simp
  show "PGROUNDDOWN (va + of_nat k) = PGROUNDDOWN va"
    using assms by (subst page_range) (simp_all add: eq unat_PGROUNDDOWN, linarith)
qed

lemma user_add:
  assumes "k < 4096 - unat va mod 4096"
  shows "user_mapped m t (va + of_nat k) = user_mapped m t va"
    and "user_writable m t (va + of_nat k) = user_writable m t va"
    and "uaddr m t (va + of_nat k) = PTE2PA (lookup 2 m t va) + (va - PGROUNDDOWN va) + of_nat k"
proof -
  note eq = add_in_page(2) [OF assms]
  show "user_mapped m t (va + of_nat k) = user_mapped m t va" by (metis eq user_page(1))
  show "user_writable m t (va + of_nat k) = user_writable m t va" by (metis eq user_page(2))
  have "lookup 2 m t (va + of_nat k) = lookup 2 m t va" by (metis eq lookup_page)
  then show "uaddr m t (va + of_nat k) = PTE2PA (lookup 2 m t va) + (va - PGROUNDDOWN va) + of_nat k"
    by (simp add: uaddr_def eq algebra_simps)
qed

definition user_readable :: "memory \<Rightarrow> uint64 \<Rightarrow> uint64 \<Rightarrow> bool" where
  "user_readable m t va \<longleftrightarrow> user_mapped m t va \<and> PTE2PA (lookup 2 m t va) \<noteq> 0"

lemma user_readable_add:
  assumes "k < 4096 - unat va mod 4096"
  shows "user_readable m t (va + of_nat k) = user_readable m t va"
proof -
  have "lookup 2 m t (va + of_nat k) = lookup 2 m t va" by (metis add_in_page(2) [OF assms] lookup_page)
  then show ?thesis by (simp add: user_readable_def user_add(1) [OF assms])
qed

text \<open>A range is its first chunk and the rest, which starts at the next page.\<close>

lemma next_page:
  assumes "k < unat (len - chunk va len)"
  shows "va + of_nat (unat (chunk va len) + k) = PGROUNDDOWN va + PGSIZE + of_nat k"
proof -
  let ?c = "unat (chunk va len)"
  have "?c = 4096 - unat va mod 4096" using assms by (simp add: unat_minus_chunk unat_chunk)
  then have "of_nat ?c = PGSIZE - (va - PGROUNDDOWN va)"
    by (simp add: word_unat_eq_iff unat_sub_le unat_of_nat unat_page_offset word_le_nat_alt less_imp_le)
  then have "va + of_nat ?c = PGROUNDDOWN va + PGSIZE" by (simp only: algebra_simps)
  then show ?thesis by (simp only: of_nat_add add.assoc [symmetric])
qed

lemma all_less_split:
  assumes "c \<le> (n :: nat)"
  shows "(\<forall>k < n. Q k) \<longleftrightarrow> (\<forall>k < c. Q k) \<and> (\<forall>k < n - c. Q (c + k))"
proof
  assume r: "(\<forall>k < c. Q k) \<and> (\<forall>k < n - c. Q (c + k))"
  show "\<forall>k < n. Q k"
  proof (intro allI impI)
    fix k
    assume "k < n"
    with r show "Q k" by (cases "k < c") (auto dest: spec [of _ "k - c"])
  qed
qed (use assms in auto)

lemma all_chunk:
  "(\<forall>k < unat len. P (va + of_nat k)) \<longleftrightarrow>
    (\<forall>k < unat (chunk va len). P (va + of_nat k)) \<and>
    (\<forall>k < unat (len - chunk va len). P (PGROUNDDOWN va + PGSIZE + of_nat k))"
proof -
  let ?c = "unat (chunk va len)"
  have "(\<forall>k < unat len - ?c. P (va + of_nat (?c + k))) \<longleftrightarrow>
      (\<forall>k < unat len - ?c. P (PGROUNDDOWN va + PGSIZE + of_nat k))"
    by (intro all_cong arg_cong [where f = P] next_page) (simp only: unat_minus_chunk)
  moreover have "?c \<le> unat len" by (simp add: unat_chunk)
  ultimately show ?thesis
    unfolding unat_minus_chunk using all_less_split [of ?c "unat len" "\<lambda>k. P (va + of_nat k)"] by blast
qed

lemma map_chunk:
  assumes "0 < len"
  shows "map (\<lambda>k. f (va + of_nat k)) [0..<unat len] =
    map (\<lambda>k. f (va + of_nat k)) [0..<unat (chunk va len)] @
    map (\<lambda>k. f (PGROUNDDOWN va + PGSIZE + of_nat k)) [0..<unat (len - chunk va len)]"
proof (rule nth_equalityI)
  show "length (map (\<lambda>k. f (va + of_nat k)) [0..<unat len]) =
      length (map (\<lambda>k. f (va + of_nat k)) [0..<unat (chunk va len)] @
        map (\<lambda>k. f (PGROUNDDOWN va + PGSIZE + of_nat k)) [0..<unat (len - chunk va len)])"
    by (simp add: unat_minus_chunk unat_chunk)
next
  fix i
  assume "i < length (map (\<lambda>k. f (va + of_nat k)) [0..<unat len])"
  then have i: "i < unat len" by simp
  show "map (\<lambda>k. f (va + of_nat k)) [0..<unat len] ! i =
      (map (\<lambda>k. f (va + of_nat k)) [0..<unat (chunk va len)] @
        map (\<lambda>k. f (PGROUNDDOWN va + PGSIZE + of_nat k)) [0..<unat (len - chunk va len)]) ! i"
  proof (cases "i < unat (chunk va len)")
    case True
    with i show ?thesis by (simp add: nth_append)
  next
    case False
    with i have j: "i - unat (chunk va len) < unat (len - chunk va len)"
      by (simp only: unat_minus_chunk)
    have "va + of_nat i = PGROUNDDOWN va + PGSIZE + of_nat (i - unat (chunk va len))"
      using next_page [OF j] False by (simp only: le_add_diff_inverse not_less)
    with i j False show ?thesis by (simp add: nth_append del: of_nat_diff)
  qed
qed

lemma chunk_in_page: "k < unat (chunk va len) \<Longrightarrow> k < 4096 - unat va mod 4096"
  by (simp add: unat_chunk)

lemma chunk_pos: "0 < len \<Longrightarrow> 0 < unat (chunk va len)"
  by (simp add: unat_chunk word_less_nat_alt)

lemma chunk_all_same:
  assumes "\<And>k. k < unat (chunk va len) \<Longrightarrow> P (va + of_nat k) = P va" and "0 < len"
  shows "(\<forall>k < unat (chunk va len). P (va + of_nat k)) \<longleftrightarrow> P va"
  using assms(1) chunk_pos [OF assms(2), of va] by blast

lemma chunk_bytes:
  "load_bytes m (PTE2PA (lookup 2 m t va) + (va - PGROUNDDOWN va)) (unat (chunk va len)) =
    map (\<lambda>k. m (uaddr m t (va + of_nat k))) [0..<unat (chunk va len)]"
  by (simp add: load_bytes_def user_add(3) [OF chunk_in_page])

lemma copyin_step:
  assumes "pt_ok 2 (mem s) t" and "0 < len"
  shows "copyin t va len s =
    (if user_readable (mem s) t va
     then bindE (copyin t (PGROUNDDOWN va + PGSIZE) (len - chunk va len) s) (\<lambda>r s'. ret (fst r,
       map (\<lambda>k. mem s (uaddr (mem s) t (va + of_nat k))) [0..<unat (chunk va len)] @ snd r) s')
     else ret (-1, []) s)"
  using assms
  by (subst copyin.simps) (simp add: walkaddr_eq user_readable_def Let_def chunk_bytes)

text \<open>
  \<^verbatim>\<open>copyin\<close> never panics and leaves the state alone; it returns 0 exactly when every address of
  the range is mapped for the user, and then the bytes the page table maps the range to.
\<close>

lemma copyin_correct:
  assumes "pt_ok 2 (mem s) t"
  shows "\<exists>bs. copyin t va len s =
      Inr ((if \<forall>k < unat len. user_readable (mem s) t (va + of_nat k) then 0 else -1, bs), s) \<and>
    ((\<forall>k < unat len. user_readable (mem s) t (va + of_nat k)) \<longrightarrow>
      bs = map (\<lambda>k. mem s (uaddr (mem s) t (va + of_nat k))) [0..<unat len])"
proof (induction "unat len" arbitrary: va len rule: less_induct)
  case less
  let ?c = "chunk va len" and ?P = "\<lambda>v. user_readable (mem s) t v"
  show ?case
  proof (cases "len = 0")
    case True
    then show ?thesis by (subst copyin.simps) simp
  next
    case False
    then have len: "0 < len" by (simp add: word_gt_0)
    define Q where "Q \<longleftrightarrow> (\<forall>k < unat (len - ?c). ?P (PGROUNDDOWN va + PGSIZE + of_nat k))"
    from less [OF chunk_decreases [OF len], of "PGROUNDDOWN va + PGSIZE" va]
    obtain bs where bs: "copyin t (PGROUNDDOWN va + PGSIZE) (len - ?c) s = Inr ((if Q then 0 else -1, bs), s)"
        "Q \<longrightarrow> bs = map (\<lambda>k. mem s (uaddr (mem s) t (PGROUNDDOWN va + PGSIZE + of_nat k)))
          [0..<unat (len - ?c)]"
      unfolding Q_def by blast
    have "(\<forall>k < unat ?c. ?P (va + of_nat k)) \<longleftrightarrow> ?P va"
      by (rule chunk_all_same [OF _ len]) (rule user_readable_add, rule chunk_in_page)
    then have cond: "(\<forall>k < unat len. ?P (va + of_nat k)) \<longleftrightarrow> ?P va \<and> Q"
      unfolding all_chunk [of len ?P va] Q_def by blast
    show ?thesis
      unfolding cond copyin_step [OF assms len] map_chunk [OF len, of "\<lambda>v. mem s (uaddr (mem s) t v)"]
      using bs by (cases "?P va") (simp_all add: ret_def)
  qed
qed

section \<open>Writing to user memory\<close>

lemma uaddr_in_page: "in_page (PTE2PA (lookup 2 m t va)) (uaddr m t va)"
  by (simp add: in_page_def uaddr_def unat_page_offset)

lemma store_chunk_same_outside:
  assumes "length bs \<le> unat (chunk va len)"
  shows "same_outside {PTE2PA (lookup 2 m t va)} m (store_bytes m (uaddr m t va) bs)"
proof -
  have "in_page (PTE2PA (lookup 2 m t va)) x" if "unat (x - uaddr m t va) < length bs" for x
  proof -
    have "unat (x - uaddr m t va) < unat (chunk va len)" using that assms by simp
    then have "unat (x - uaddr m t va) < 4096 - unat va mod 4096" by (rule chunk_in_page)
    then have "unat ((va - PGROUNDDOWN va) + (x - uaddr m t va)) = unat va mod 4096 + unat (x - uaddr m t va)"
      by (subst unat_add_no_wrap) (simp_all add: unat_page_offset)
    moreover have "x - PTE2PA (lookup 2 m t va) = (va - PGROUNDDOWN va) + (x - uaddr m t va)"
      by (simp add: uaddr_def)
    ultimately show ?thesis
      using \<open>unat (x - uaddr m t va) < 4096 - unat va mod 4096\<close> unfolding in_page_def by (simp only:)
  qed
  then show ?thesis using assms by (auto simp: same_outside_def store_bytes_apply unat_chunk)
qed

text \<open>No physical page is mapped writable at two virtual pages.\<close>

definition no_alias :: "memory \<Rightarrow> uint64 \<Rightarrow> bool" where
  "no_alias m t \<longleftrightarrow> (\<forall>v w. user_writable m t v \<and> user_writable m t w \<and>
     PTE2PA (lookup 2 m t v) = PTE2PA (lookup 2 m t w) \<longrightarrow> PGROUNDDOWN v = PGROUNDDOWN w)"

text \<open>Writing to pages that are not tables does not change what is mapped.\<close>

lemma user_frame:
  assumes "pt_ok 2 m t" and "upages m t \<inter> tabs 2 m t = {}" and "same_outside (upages m t) m m'"
  shows "pt_ok 2 m' t" and "tabs 2 m' t = tabs 2 m t" and "lookup 2 m' t = lookup 2 m t"
    and "user_writable m' t = user_writable m t" and "upages m' t = upages m t"
    and "uaddr m' t = uaddr m t" and "user_readable m' t = user_readable m t"
    and "no_alias m' t = no_alias m t"
proof -
  have al: "\<forall>p \<in> upages m t. page_aligned p" by (auto simp: upages_def)
  note fr = tree_frame [OF assms(3) al assms(1,2)]
  show "pt_ok 2 m' t" "tabs 2 m' t = tabs 2 m t" using fr by simp_all
  show l: "lookup 2 m' t = lookup 2 m t" using fr by auto
  show w: "user_writable m' t = user_writable m t"
    by (simp add: fun_eq_iff user_writable_def user_mapped_def l)
  show "upages m' t = upages m t" by (simp add: upages_def l w)
  show "uaddr m' t = uaddr m t" by (simp add: fun_eq_iff uaddr_def l)
  show "user_readable m' t = user_readable m t"
    by (simp add: fun_eq_iff user_readable_def user_mapped_def l)
  show "no_alias m' t = no_alias m t" by (simp add: no_alias_def l w)
qed

lemma copyout_step:
  assumes "pt_ok 2 (mem s) t" and "0 < len"
  shows "copyout t va src len s =
    (if user_writable (mem s) t va
     then copyout t (PGROUNDDOWN va + PGSIZE) (drop (unat (chunk va len)) src) (len - chunk va len)
       (s\<lparr>mem := store_bytes (mem s) (uaddr (mem s) t va) (take (unat (chunk va len)) src)\<rparr>)
     else ret (-1) s)"
proof -
  have mx: "MAXVA \<le> PGROUNDDOWN va \<longleftrightarrow> \<not> va < MAXVA"
    using PGROUNDDOWN_below_MAXVA [of va] by (simp only: not_less [symmetric])
  note lk = lookup_ptr [OF assms(1), of va]
  consider "\<not> va < MAXVA" | "va < MAXVA" "ptr 2 (mem s) t va = 0" | "va < MAXVA" "ptr 2 (mem s) t va \<noteq> 0"
    by blast
  then show ?thesis
  proof cases
    case 1
    then show ?thesis using assms(2) mx
      by (subst copyout.simps) (simp add: user_writable_def user_mapped_def Let_def)
  next
    case 2
    then show ?thesis using assms(2) mx lk
      by (subst copyout.simps) (simp add: walk_False user_writable_def user_mapped_def Let_def)
  next
    case 3
    then show ?thesis using assms(2) mx lk
      by (subst copyout.simps) (simp add: walk_False user_writable_def user_mapped_def Let_def uaddr_def)
  qed
qed

lemma upagesI: "user_writable m t va \<Longrightarrow> PTE2PA (lookup 2 m t va) \<in> upages m t"
  by (auto simp: upages_def)

lemma chunk_writable:
  assumes "0 < len"
  shows "(\<forall>k < unat len. user_writable m t (va + of_nat k)) \<longleftrightarrow> user_writable m t va \<and>
    (\<forall>k < unat (len - chunk va len). user_writable m t (PGROUNDDOWN va + PGSIZE + of_nat k))"
proof -
  have "(\<forall>k < unat (chunk va len). user_writable m t (va + of_nat k)) \<longleftrightarrow> user_writable m t va"
    by (rule chunk_all_same [OF _ assms]) (rule user_add(2), rule chunk_in_page)
  then show ?thesis unfolding all_chunk [of len "user_writable m t" va] by blast
qed

text \<open>
  C4: \<^verbatim>\<open>copyout\<close> never panics, whatever address and length a user program passes: it returns 0
  exactly when the whole destination range is mapped writable for the user, -1 otherwise, and in
  either case no byte changes outside the physical pages that the page table maps writable for the
  user, so neither kernel memory nor the page tables nor the free list are touched.
\<close>

theorem copyout_confined:
  assumes "pt_ok 2 (mem s) t" and "upages (mem s) t \<inter> tabs 2 (mem s) t = {}"
  shows "\<exists>m'. copyout t va src len s =
      Inr (if \<forall>k < unat len. user_writable (mem s) t (va + of_nat k) then 0 else -1, s\<lparr>mem := m'\<rparr>) \<and>
    same_outside (upages (mem s) t) (mem s) m'"
  using assms
proof (induction "unat len" arbitrary: va src len s rule: less_induct)
  case less
  show ?case
  proof (cases "len = 0")
    case True
    then show ?thesis by (subst copyout.simps) (auto intro!: exI [of _ "mem s"])
  next
    case False
    then have len: "0 < len" by (simp add: word_gt_0)
    show ?thesis
    proof (cases "user_writable (mem s) t va")
      case w: True
      let ?m = "store_bytes (mem s) (uaddr (mem s) t va) (take (unat (chunk va len)) src)"
      have "same_outside {PTE2PA (lookup 2 (mem s) t va)} (mem s) ?m"
        by (rule store_chunk_same_outside [where len = len]) simp
      then have same: "same_outside (upages (mem s) t) (mem s) ?m"
        using upagesI [OF w] by (auto intro: same_outside_mono)
      note fr = user_frame [OF less.prems same]
      have "\<exists>m'. copyout t (PGROUNDDOWN va + PGSIZE) (drop (unat (chunk va len)) src)
          (len - chunk va len) (s\<lparr>mem := ?m\<rparr>) =
          Inr (if \<forall>k < unat (len - chunk va len).
              user_writable (mem (s\<lparr>mem := ?m\<rparr>)) t (PGROUNDDOWN va + PGSIZE + of_nat k) then 0 else -1,
            (s\<lparr>mem := ?m\<rparr>)\<lparr>mem := m'\<rparr>) \<and>
          same_outside (upages (mem (s\<lparr>mem := ?m\<rparr>)) t) (mem (s\<lparr>mem := ?m\<rparr>)) m'"
        using fr less.prems by (intro less.hyps [OF chunk_decreases [OF len]]) simp_all
      then obtain m' where m': "copyout t (PGROUNDDOWN va + PGSIZE) (drop (unat (chunk va len)) src)
          (len - chunk va len) (s\<lparr>mem := ?m\<rparr>) =
          Inr (if \<forall>k < unat (len - chunk va len).
              user_writable (mem s) t (PGROUNDDOWN va + PGSIZE + of_nat k) then 0 else -1, s\<lparr>mem := m'\<rparr>)"
          "same_outside (upages (mem s) t) ?m m'" using fr by auto
      have "same_outside (upages (mem s) t) (mem s) m'"
        using same_outside_trans [OF same m'(2)] by simp
      with m'(1) w show ?thesis
        unfolding copyout_step [OF less.prems(1) len] chunk_writable [OF len] by auto
    next
      case nw: False
      then show ?thesis
        unfolding copyout_step [OF less.prems(1) len] chunk_writable [OF len]
        by (auto intro!: exI [of _ "mem s"])
    qed
  qed
qed

lemma uaddr_inj:
  assumes "no_alias m t" and "user_writable m t v" and "user_writable m t w" and "uaddr m t v = uaddr m t w"
  shows "v = w"
proof -
  have "PTE2PA (lookup 2 m t v) = PTE2PA (lookup 2 m t w)"
    by (rule in_page_unique [OF PTE2PA_aligned PTE2PA_aligned uaddr_in_page])
       (simp add: assms(4) uaddr_in_page)
  moreover from this assms(1-3) have "PGROUNDDOWN v = PGROUNDDOWN w" unfolding no_alias_def by blast
  ultimately show ?thesis using assms(4) by (simp only: uaddr_def add_left_cancel diff_eq_eq diff_add_cancel)
qed

lemma add_of_nat_inj:
  assumes "(va :: uint64) + of_nat j = va + of_nat k" and "j < 2 ^ 64" and "k < 2 ^ 64"
  shows "j = k"
proof -
  have "unat (of_nat j :: uint64) = unat (of_nat k :: uint64)" using assms(1) by simp
  then show ?thesis using assms(2,3) by (simp only: unat_of_nat) simp
qed

lemma uaddr_add: "k < unat (chunk va len) \<Longrightarrow> uaddr m t (va + of_nat k) = uaddr m t va + of_nat k"
  using user_add(3) [OF chunk_in_page, of k va len m t] by (simp only: uaddr_def [of m t va])

lemma store_chunk_at:
  assumes "k < unat (chunk va len)" and "unat (chunk va len) \<le> length src"
  shows "store_bytes m (uaddr m t va) (take (unat (chunk va len)) src) (uaddr m t (va + of_nat k)) = src ! k"
proof -
  have "uaddr m t (va + of_nat k) - uaddr m t va = of_nat k"
    using uaddr_add [OF assms(1), of m t] by simp
  moreover have "unat (of_nat k :: uint64) = k"
    using chunk_in_page [OF assms(1)] by (simp add: unat_of_nat)
  ultimately show ?thesis using assms by (simp add: store_bytes_apply unat_chunk)
qed

lemma store_chunk_other:
  assumes "\<And>k. k < unat (chunk va len) \<Longrightarrow> x \<noteq> uaddr m t (va + of_nat k)"
  shows "store_bytes m (uaddr m t va) (take (unat (chunk va len)) src) x = m x"
proof -
  have "\<not> unat (x - uaddr m t va) < unat (chunk va len)"
  proof
    assume k: "unat (x - uaddr m t va) < unat (chunk va len)"
    have "uaddr m t (va + of_nat (unat (x - uaddr m t va))) = x"
      using uaddr_add [OF k, of m t] by simp
    with assms [OF k] show False by simp
  qed
  then show ?thesis by (auto simp: store_bytes_apply unat_chunk)
qed

text \<open>The bytes a successful \<^verbatim>\<open>copyout\<close> writes.\<close>

lemma copyout_bytes_step:
  assumes ok: "no_alias m t" "\<forall>k < unat len. user_writable m t (va + of_nat k)" "unat len \<le> length src"
    and here: "\<forall>k < unat (len - chunk va len).
        m' (uaddr m t (PGROUNDDOWN va + PGSIZE + of_nat k)) = drop (unat (chunk va len)) src ! k"
    and other: "\<forall>x. (\<forall>k < unat (len - chunk va len). x \<noteq> uaddr m t (PGROUNDDOWN va + PGSIZE + of_nat k)) \<longrightarrow>
        m' x = store_bytes m (uaddr m t va) (take (unat (chunk va len)) src) x"
  shows "\<forall>k < unat len. m' (uaddr m t (va + of_nat k)) = src ! k"
    and "\<forall>x. (\<forall>k < unat len. x \<noteq> uaddr m t (va + of_nat k)) \<longrightarrow> m' x = m x"
proof -
  let ?c = "unat (chunk va len)" and ?va = "PGROUNDDOWN va + PGSIZE"
  have c: "?c \<le> unat len" by (simp add: unat_chunk)
  have rest: "?va + of_nat j = va + of_nat (?c + j)" and lt: "?c + j < unat len"
    if "j < unat (len - chunk va len)" for j
    using next_page [OF that] that by (simp_all only: unat_minus_chunk)
  show "\<forall>k < unat len. m' (uaddr m t (va + of_nat k)) = src ! k"
  proof (intro allI impI)
    fix k
    assume k: "k < unat len"
    show "m' (uaddr m t (va + of_nat k)) = src ! k"
    proof (cases "k < ?c")
      case True
      have "uaddr m t (va + of_nat k) \<noteq> uaddr m t (?va + of_nat j)"
        if j: "j < unat (len - chunk va len)" for j
      proof
        assume "uaddr m t (va + of_nat k) = uaddr m t (?va + of_nat j)"
        then have "va + of_nat k = va + of_nat (?c + j)"
          using uaddr_inj [OF ok(1)] ok(2) k lt [OF j] unfolding rest [OF j] by blast
        moreover have "unat len < 2 ^ 64" using unsigned_less [of len] by simp
        ultimately have "k = ?c + j" using k lt [OF j] by (intro add_of_nat_inj) simp_all
        with True show False by simp
      qed
      then show ?thesis using other store_chunk_at [OF True, of src m t] c ok(3) by simp
    next
      case False
      then have j: "k - ?c < unat (len - chunk va len)" using k by (simp only: unat_minus_chunk)
      then have "m' (uaddr m t (va + of_nat (?c + (k - ?c)))) = drop ?c src ! (k - ?c)"
        using here unfolding rest [OF j, symmetric] by blast
      also have "\<dots> = src ! (?c + (k - ?c))" using c ok(3) by (intro nth_drop) simp
      finally show ?thesis using False by (simp only: not_less le_add_diff_inverse)
    qed
  qed
  show "\<forall>x. (\<forall>k < unat len. x \<noteq> uaddr m t (va + of_nat k)) \<longrightarrow> m' x = m x"
  proof (intro allI impI)
    fix x
    assume x: "\<forall>k < unat len. x \<noteq> uaddr m t (va + of_nat k)"
    have "x \<noteq> uaddr m t (?va + of_nat j)" if "j < unat (len - chunk va len)" for j
      using x lt [OF that] unfolding rest [OF that] by blast
    then have "m' x = store_bytes m (uaddr m t va) (take ?c src) x" using other by blast
    also have "\<dots> = m x" using x c by (intro store_chunk_other) auto
    finally show "m' x = m x" .
  qed
qed

text \<open>The bytes a successful \<^verbatim>\<open>copyout\<close> writes.\<close>

lemma copyout_bytes:
  assumes "pt_ok 2 (mem s) t" and "upages (mem s) t \<inter> tabs 2 (mem s) t = {}" and "no_alias (mem s) t"
    and "\<forall>k < unat len. user_writable (mem s) t (va + of_nat k)" and "unat len \<le> length src"
  shows "\<exists>m'. copyout t va src len s = Inr (0, s\<lparr>mem := m'\<rparr>) \<and>
    same_outside (upages (mem s) t) (mem s) m' \<and>
    (\<forall>k < unat len. m' (uaddr (mem s) t (va + of_nat k)) = src ! k) \<and>
    (\<forall>x. (\<forall>k < unat len. x \<noteq> uaddr (mem s) t (va + of_nat k)) \<longrightarrow> m' x = mem s x)"
  using assms
proof (induction "unat len" arbitrary: va src len s rule: less_induct)
  case less
  show ?case
  proof (cases "len = 0")
    case True
    then show ?thesis by (subst copyout.simps) (auto intro!: exI [of _ "mem s"])
  next
    case False
    then have len: "0 < len" by (simp add: word_gt_0)
    let ?c = "unat (chunk va len)" and ?u = "uaddr (mem s) t"
    let ?m = "store_bytes (mem s) (?u va) (take ?c src)" and ?va = "PGROUNDDOWN va + PGSIZE"
    have w: "user_writable (mem s) t va"
        "\<forall>k < unat (len - chunk va len). user_writable (mem s) t (?va + of_nat k)"
      using less.prems(4) chunk_writable [OF len] by blast+
    have "same_outside {PTE2PA (lookup 2 (mem s) t va)} (mem s) ?m"
      by (rule store_chunk_same_outside [where len = len]) simp
    then have same: "same_outside (upages (mem s) t) (mem s) ?m"
      using upagesI [OF w(1)] by (auto intro: same_outside_mono)
    note fr = user_frame [OF less.prems(1,2) same]
    have "\<exists>m'. copyout t ?va (drop ?c src) (len - chunk va len) (s\<lparr>mem := ?m\<rparr>) =
          Inr (0, (s\<lparr>mem := ?m\<rparr>)\<lparr>mem := m'\<rparr>) \<and>
        same_outside (upages (mem (s\<lparr>mem := ?m\<rparr>)) t) (mem (s\<lparr>mem := ?m\<rparr>)) m' \<and>
        (\<forall>k < unat (len - chunk va len). m' (uaddr (mem (s\<lparr>mem := ?m\<rparr>)) t (?va + of_nat k)) = drop ?c src ! k) \<and>
        (\<forall>x. (\<forall>k < unat (len - chunk va len). x \<noteq> uaddr (mem (s\<lparr>mem := ?m\<rparr>)) t (?va + of_nat k)) \<longrightarrow>
           m' x = mem (s\<lparr>mem := ?m\<rparr>) x)"
      using less.prems w fr
      by (intro less.hyps [OF chunk_decreases [OF len]]) (simp_all add: unat_minus_chunk)
    then obtain m' where m': "copyout t ?va (drop ?c src) (len - chunk va len) (s\<lparr>mem := ?m\<rparr>) = Inr (0, s\<lparr>mem := m'\<rparr>)"
        "same_outside (upages (mem s) t) ?m m'"
        "\<forall>k < unat (len - chunk va len). m' (?u (?va + of_nat k)) = drop ?c src ! k"
        "\<forall>x. (\<forall>k < unat (len - chunk va len). x \<noteq> ?u (?va + of_nat k)) \<longrightarrow> m' x = ?m x"
      using fr by auto
    have "copyout t va src len s = Inr (0, s\<lparr>mem := m'\<rparr>)"
      unfolding copyout_step [OF less.prems(1) len] using w(1) m'(1) by simp
    moreover have "same_outside (upages (mem s) t) (mem s) m'"
      using same_outside_trans [OF same m'(2)] by simp
    ultimately show ?thesis
      using copyout_bytes_step [OF less.prems(3-5) m'(3,4)] by blast
  qed
qed

text \<open>
  C11: What \<^verbatim>\<open>copyout\<close> writes to a user range, \<^verbatim>\<open>copyin\<close> reads back from it: on a range that is
  mapped writable and not aliased, \<^verbatim>\<open>copyout\<close> returns 0, and \<^verbatim>\<open>copyin\<close> of the same range
  then returns 0 and exactly the bytes that were copied out, across any number of page boundaries;
  no byte outside the range changes.
\<close>

theorem copyout_copyin_roundtrip:
  assumes "pt_ok 2 (mem s) t" and "upages (mem s) t \<inter> tabs 2 (mem s) t = {}" and "no_alias (mem s) t"
    and "\<forall>k < unat len. user_writable (mem s) t (va + of_nat k)" and "0 \<notin> upages (mem s) t"
    and "unat len = length src"
  shows "\<exists>s'. copyout t va src len s = Inr (0, s') \<and> copyin t va len s' = Inr ((0, src), s') \<and>
    (\<forall>x. (\<forall>k < unat len. x \<noteq> uaddr (mem s) t (va + of_nat k)) \<longrightarrow> mem s' x = mem s x)"
proof -
  obtain m' where m': "copyout t va src len s = Inr (0, s\<lparr>mem := m'\<rparr>)"
      "same_outside (upages (mem s) t) (mem s) m'"
      "\<forall>k < unat len. m' (uaddr (mem s) t (va + of_nat k)) = src ! k"
      "\<forall>x. (\<forall>k < unat len. x \<noteq> uaddr (mem s) t (va + of_nat k)) \<longrightarrow> m' x = mem s x"
    using copyout_bytes [OF assms(1-4) eq_refl [OF assms(6)]] by blast
  note fr = user_frame [OF assms(1,2) m'(2)]
  have "user_readable (mem s) t v" if "user_writable (mem s) t v" for v
    using that assms(5) upagesI [OF that] by (auto simp: user_readable_def user_writable_def)
  then have rd: "\<forall>k < unat len. user_readable m' t (va + of_nat k)" using assms(4) by (simp add: fr)
  have "map (\<lambda>k. m' (uaddr m' t (va + of_nat k))) [0..<unat len] = src"
    using m'(3) assms(6) by (intro nth_equalityI) (simp_all add: fr)
  then have "copyin t va len (s\<lparr>mem := m'\<rparr>) = Inr ((0, src), s\<lparr>mem := m'\<rparr>)"
    using copyin_correct [of "s\<lparr>mem := m'\<rparr>" t va len] fr(1) rd by auto
  then show ?thesis using m'(1,4) by (intro exI [of _ "s\<lparr>mem := m'\<rparr>"]) simp
qed

section \<open>Witnesses\<close>

lemma has_bit: "n < 64 \<Longrightarrow> has e (push_bit n 1) \<longleftrightarrow> bit (e :: uint64) n"
  by (simp add: push_bit_eq_mult and_exp_eq_0_iff_not_bit)

lemma PA2PTE_low_bit: "n < 10 \<Longrightarrow> \<not> bit (PA2PTE pa) n"
  by (simp add: PA2PTE_def bit_simps)

definition RWU :: uint64 where
  "RWU = PTE_R OR PTE_W OR PTE_U"

lemma RWU_flags:
  "has (PA2PTE pa OR RWU OR PTE_V) PTE_V" "has (PA2PTE pa OR RWU OR PTE_V) PTE_U"
  "has (PA2PTE pa OR RWU OR PTE_V) PTE_W"
  unfolding PTE_V_def PTE_U_def PTE_W_def RWU_def PTE_R_def
  by (simp_all only: has_bit) (simp_all add: bit_simps)

lemma RWU_leaf: "leaf_flags (RWU OR PTE_V)"
  by (simp add: leaf_flags_def RWU_def PTE_R_def PTE_W_def PTE_U_def PTE_V_def mask_eq_exp_minus_1)

text \<open>A user address space of one page at 0, mapped to \<open>0x80026000\<close>.\<close>

definition sample_space :: "kstate \<Rightarrow> bool" where
  "sample_space s \<longleftrightarrow> pt_ok 2 (mem s) 0x80023000 \<and>
    tabs 2 (mem s) 0x80023000 \<subseteq> {0x80023000, 0x80024000, 0x80025000} \<and>
    (\<forall>v < MAXVA. lookup 2 (mem s) 0x80023000 v =
      (if unat v < 4096 then PA2PTE 0x80026000 OR RWU OR PTE_V else 0))"

lemma sample_space_exists: "\<exists>s. sample_space s"
proof -
  have d: "set [0x80024000, 0x80025000] \<inter> tabs 2 (mem sample_vm) 0x80023000 = {}"
    using sample_vm_pt by simp
  have al: "page_aligned 0" by (simp add: page_aligned_def)
  have n: "unat (0 :: uint64) + 4096 * Suc 0 \<le> 2 ^ 38" by simp
  have z: "lookup 2 (mem sample_vm) 0x80023000 = (\<lambda>_. 0)" using sample_vm_pt by auto
  obtain r :: int and s ps k where s: "evolves 2 0x80023000 sample_vm [0x80024000, 0x80025000] s ps"
      "if k = Suc 0 then r = 0 else r = -1 \<and> ps = [] \<and> length [0x80024000, 0x80025000 :: uint64] < 2 * Suc 0"
      "\<forall>v < MAXVA. lookup 2 (mem s) 0x80023000 v = map_range 0 k 0x80026000 RWU (\<lambda>_. 0) v"
    using mappages_from_maps [OF sample_vm_inv conjunct1 [OF sample_vm_pt] d al n sample_vm_unmapped,
        of "0x80026000" RWU, unfolded z] by (elim exE conjE) (rule that)
  have k: "k = Suc 0" using s(2) by (cases "k = Suc 0") simp_all
  have "PGROUNDDOWN v = 0" if "unat v < 4096" for v
    using that page_range [OF al, of v] by simp
  then have "\<forall>v < MAXVA. lookup 2 (mem s) 0x80023000 v =
      (if unat v < 4096 then PA2PTE 0x80026000 OR RWU OR PTE_V else 0)"
    using s(3) by (simp add: k map_range_def)
  moreover have "pt_ok 2 (mem s) 0x80023000" using s(1) unfolding evolves_def by blast
  moreover have "tabs 2 (mem s) 0x80023000 \<subseteq> {0x80023000, 0x80024000, 0x80025000}"
  proof -
    obtain qs where q: "[0x80024000, 0x80025000] = qs @ ps"
        "tabs 2 (mem s) 0x80023000 \<subseteq> tabs 2 (mem sample_vm) 0x80023000 \<union> set qs"
      using s(1) unfolding evolves_def by blast
    have "set qs \<subseteq> set [0x80024000, 0x80025000]" unfolding q(1) by simp
    with q(2) sample_vm_pt show ?thesis by auto
  qed
  ultimately show ?thesis unfolding sample_space_def by blast
qed

lemma sample_space_user:
  assumes "sample_space s"
  shows "user_writable (mem s) 0x80023000 v \<longleftrightarrow> unat v < 4096"
    and "user_writable (mem s) 0x80023000 v \<Longrightarrow> PTE2PA (lookup 2 (mem s) 0x80023000 v) = 0x80026000"
proof -
  have mx: "v < MAXVA" if "unat v < 4096" using that by (simp add: word_less_nat_alt unat_MAXVA)
  note l = assms [unfolded sample_space_def, THEN conjunct2, THEN conjunct2, rule_format]
  show w: "user_writable (mem s) 0x80023000 v \<longleftrightarrow> unat v < 4096"
    using mx l [of v] RWU_flags by (auto simp: user_writable_def user_mapped_def split: if_splits)
  assume "user_writable (mem s) 0x80023000 v"
  then have "lookup 2 (mem s) 0x80023000 v = PA2PTE 0x80026000 OR RWU OR PTE_V"
    using w mx l [of v] by simp
  moreover have "page_aligned 0x80026000" by (simp add: page_aligned_def PGSIZE_def)
  ultimately show "PTE2PA (lookup 2 (mem s) 0x80023000 v) = 0x80026000"
    using PTE2PA_PA2PTE [OF _ RWU_leaf, of "0x80026000"] by simp
qed

lemma sample_space_pages:
  assumes "sample_space s"
  shows "pt_ok 2 (mem s) 0x80023000" and "upages (mem s) 0x80023000 \<inter> tabs 2 (mem s) 0x80023000 = {}"
    and "no_alias (mem s) 0x80023000" and "0 \<notin> upages (mem s) 0x80023000"
proof -
  have "upages (mem s) 0x80023000 \<subseteq> {0x80026000}"
    using sample_space_user(2) [OF assms] by (auto simp: upages_def)
  then show "upages (mem s) 0x80023000 \<inter> tabs 2 (mem s) 0x80023000 = {}" "0 \<notin> upages (mem s) 0x80023000"
    using assms by (auto simp: sample_space_def)
  show "pt_ok 2 (mem s) 0x80023000" using assms by (simp add: sample_space_def)
  have "PGROUNDDOWN v = 0" if "unat v < 4096" for v
    using that page_range [of 0 v] by (simp add: page_aligned_def)
  then show "no_alias (mem s) 0x80023000"
    using sample_space_user(1) [OF assms] by (simp add: no_alias_def)
qed

theorem copyout_confined_witness:
  "\<exists>s m. sample_space s \<and> copyout 0x80023000 0xfff [1, 2] 2 s = Inr (-1, s\<lparr>mem := m\<rparr>) \<and>
    same_outside (upages (mem s) 0x80023000) (mem s) m"
proof -
  obtain s where s: "sample_space s" using sample_space_exists by blast
  have "\<not> user_writable (mem s) 0x80023000 (0xfff + of_nat 1)"
    by (simp add: sample_space_user(1) [OF s])
  moreover have "1 < unat (2 :: uint64)" by simp
  ultimately have no: "(\<forall>k < unat (2 :: uint64). user_writable (mem s) 0x80023000 (0xfff + of_nat k)) = False"
    by blast
  from copyout_confined [OF sample_space_pages(1,2) [OF s], where va = "0xfff" and len = 2 and src = "[1, 2]", unfolded no if_False] s
  show ?thesis by blast
qed

theorem copyout_copyin_roundtrip_witness:
  "\<exists>s s'. copyout 0x80023000 16 [104, 105, 0] 3 s = Inr (0, s') \<and>
    copyin 0x80023000 16 3 s' = Inr ((0, [104, 105, 0]), s')"
proof -
  obtain s where s: "sample_space s" using sample_space_exists by blast
  have w: "\<forall>k < unat (3 :: uint64). user_writable (mem s) 0x80023000 (16 + of_nat k)"
  proof (intro allI impI)
    fix k
    assume "k < unat (3 :: uint64)"
    then have "k < 3" by simp
    then have "k = 0 \<or> k = 1 \<or> k = 2" by linarith
    then show "user_writable (mem s) 0x80023000 (16 + of_nat k)"
      by (elim disjE) (simp_all add: sample_space_user(1) [OF s])
  qed
  have "unat (3 :: uint64) = length [104, 105, 0 :: uchar]" by simp
  from copyout_copyin_roundtrip [OF sample_space_pages(1-3) [OF s] w sample_space_pages(4) [OF s] this]
  show ?thesis by blast
qed

end
