(* ===== verification/Procsync.thy ===== *)
theory Procsync
  imports Usercopy
begin

text \<open>
  The part of \<^verbatim>\<open>kernel/proc.c\<close> that switches between processes: \<^verbatim>\<open>sched\<close>, \<^verbatim>\<open>yield\<close>,
  \<^verbatim>\<open>sleep\<close>, \<^verbatim>\<open>wakeup\<close>, \<^verbatim>\<open>kill\<close> and the scheduler's scan. A process runs in bursts: a burst
  ends where \<^verbatim>\<open>sched\<close> calls \<^verbatim>\<open>swtch\<close>, and its value says why the CPU was given up
  (\<^const>\<open>Asleep\<close>, \<^const>\<open>Yielded\<close>, \<^const>\<open>Exited\<close>) and in which state. What the code does after
  \<^verbatim>\<open>swtch\<close> returns is a definition of its own (\<open>sleep_return\<close>, \<open>yield_return\<close>,
  \<open>scheduler_return\<close>), the start of the next burst.
\<close>

section \<open>Operations\<close>

text \<open>The current process, where the code dereferences \<^verbatim>\<open>myproc()\<close>.\<close>

definition curproc :: "kstate \<Rightarrow> nat kres" where
  "curproc s = bindE (myproc s) (\<lambda>p s. case p of None \<Rightarrow> Inl NullDeref | Some p \<Rightarrow> ret p s)"

text \<open>\<^verbatim>\<open>sched\<close> up to \<^verbatim>\<open>swtch\<close>; the value is the local variable \<^verbatim>\<open>intena\<close>.\<close>

definition sched :: "kstate \<Rightarrow> bool kres" where
  "sched s =
    bindE (curproc s) (\<lambda>p s.
    if \<not> holding (ProcLock p) s then panic ''sched p->lock''
    else if cpu_noff (mycpu s) \<noteq> 1 then panic ''sched locks''
    else if p_state (procs s p) = RUNNING then panic ''sched running''
    else if intr_get s then panic ''sched interruptible''
    else ret (cpu_intena (mycpu s)) s)"

definition sched_return :: "bool \<Rightarrow> kstate \<Rightarrow> kstate" where
  "sched_return intena s = upd_cpu (\<lambda>c. c\<lparr>cpu_intena := intena\<rparr>) s"

definition yield :: "kstate \<Rightarrow> unit kres" where
  "yield s =
    bindE (curproc s) (\<lambda>p s.
    bindE (acquire (ProcLock p) s) (\<lambda>_ s.
    let s = upd_proc p (\<lambda>q. q\<lparr>p_state := RUNNABLE\<rparr>) s
    in bindE (sched s) (\<lambda>intena s. Inl (Yielded intena s))))"

definition yield_return :: "bool \<Rightarrow> nat \<Rightarrow> kstate \<Rightarrow> unit kres" where
  "yield_return intena p s = release (ProcLock p) (sched_return intena s)"

text \<open>
  \<^verbatim>\<open>sleep\<close> up to \<^verbatim>\<open>swtch\<close>. \<open>resume\<close> is the caller's loop counter, kept in its stack frame.
\<close>

definition sleep :: "chan \<Rightarrow> lockid \<Rightarrow> int \<Rightarrow> kstate \<Rightarrow> 'a kres" where
  "sleep ch lk resume s =
    bindE (curproc s) (\<lambda>p s.
    bindE (acquire (ProcLock p) s) (\<lambda>_ s.
    bindE (release lk s) (\<lambda>_ s.
    let s = upd_proc p (\<lambda>q. q\<lparr>p_chan := Some ch\<rparr>) s;
        s = upd_proc p (\<lambda>q. q\<lparr>p_state := SLEEPING\<rparr>) s
    in bindE (sched s) (\<lambda>intena s. Inl (Asleep ch resume intena s)))))"

definition sleep_return :: "bool \<Rightarrow> nat \<Rightarrow> lockid \<Rightarrow> kstate \<Rightarrow> unit kres" where
  "sleep_return intena p lk s =
    (let s = sched_return intena s;
         s = upd_proc p (\<lambda>q. q\<lparr>p_chan := None\<rparr>) s
     in bindE (release (ProcLock p) s) (\<lambda>_ s. acquire lk s))"

text \<open>
  \<^verbatim>\<open>wakeup\<close> from process \<open>i\<close> on, for \<open>n\<close> processes. The channel may be the null pointer: in
  \<^verbatim>\<open>exit\<close> it is \<^verbatim>\<open>p->parent\<close>.
\<close>

primrec wakeup_from :: "nat \<Rightarrow> nat \<Rightarrow> chan option \<Rightarrow> kstate \<Rightarrow> unit kres" where
  "wakeup_from 0 i ch s = ret () s"
| "wakeup_from (Suc n) i ch s =
    bindE (myproc s) (\<lambda>me s.
    bindE (if Some i \<noteq> me
           then bindE (acquire (ProcLock i) s) (\<lambda>_ s.
             let s = (if p_state (procs s i) = SLEEPING \<and> p_chan (procs s i) = ch
                      then upd_proc i (\<lambda>q. q\<lparr>p_state := RUNNABLE\<rparr>) s else s)
             in release (ProcLock i) s)
           else ret () s) (\<lambda>_ s. wakeup_from n (i + 1) ch s))"

definition wakeup :: "chan option \<Rightarrow> kstate \<Rightarrow> unit kres" where
  "wakeup ch s = wakeup_from NPROC 0 ch s"

primrec kill_from :: "nat \<Rightarrow> nat \<Rightarrow> int \<Rightarrow> kstate \<Rightarrow> int kres" where
  "kill_from 0 i pid s = ret (-1) s"
| "kill_from (Suc n) i pid s =
    bindE (acquire (ProcLock i) s) (\<lambda>_ s.
    if p_pid (procs s i) = pid
    then
      let s = upd_proc i (\<lambda>q. q\<lparr>p_killed := 1\<rparr>) s;
          s = (if p_state (procs s i) = SLEEPING
               then upd_proc i (\<lambda>q. q\<lparr>p_state := RUNNABLE\<rparr>) s else s)
      in bindE (release (ProcLock i) s) (\<lambda>_ s. ret 0 s)
    else bindE (release (ProcLock i) s) (\<lambda>_ s. kill_from n (i + 1) pid s))"

definition kill :: "int \<Rightarrow> kstate \<Rightarrow> int kres" where
  "kill pid s = kill_from NPROC 0 pid s"

definition setkilled :: "nat \<Rightarrow> kstate \<Rightarrow> unit kres" where
  "setkilled p s =
    bindE (acquire (ProcLock p) s) (\<lambda>_ s.
    let s = upd_proc p (\<lambda>q. q\<lparr>p_killed := 1\<rparr>) s in release (ProcLock p) s)"

definition killed :: "nat \<Rightarrow> kstate \<Rightarrow> int kres" where
  "killed p s =
    bindE (acquire (ProcLock p) s) (\<lambda>_ s.
    let k = p_killed (procs s p) in bindE (release (ProcLock p) s) (\<lambda>_ s. ret k s))"

text \<open>
  The scheduler of a hart: it starts with no process, turns interrupts on before each pass over
  the table, and in a pass, from process \<open>i\<close> on, switches to the first runnable process,
  which it makes the running one with its lock held. When the process switches back,
  \<open>scheduler_return\<close> runs and the pass goes on with the next index.
\<close>

definition scheduler_start :: "kstate \<Rightarrow> kstate" where
  "scheduler_start s = upd_cpu (\<lambda>c. c\<lparr>cpu_proc := None\<rparr>) s"

definition scheduler_pass :: "kstate \<Rightarrow> kstate" where
  "scheduler_pass s = intr_on s"

primrec scheduler_from :: "nat \<Rightarrow> nat \<Rightarrow> kstate \<Rightarrow> nat option kres" where
  "scheduler_from 0 i s = ret None s"
| "scheduler_from (Suc n) i s =
    bindE (acquire (ProcLock i) s) (\<lambda>_ s.
    if p_state (procs s i) = RUNNABLE
    then
      let s = upd_proc i (\<lambda>q. q\<lparr>p_state := RUNNING\<rparr>) s;
          s = upd_cpu (\<lambda>c. c\<lparr>cpu_proc := Some i\<rparr>) s
      in ret (Some i) s
    else bindE (release (ProcLock i) s) (\<lambda>_ s. scheduler_from n (i + 1) s))"

definition scheduler_return :: "nat \<Rightarrow> kstate \<Rightarrow> unit kres" where
  "scheduler_return p s =
    (let s = upd_cpu (\<lambda>c. c\<lparr>cpu_proc := None\<rparr>) s in release (ProcLock p) s)"

text \<open>Copies to and from a user or a kernel address.\<close>

definition either_copyout :: "bool \<Rightarrow> uint64 \<Rightarrow> uchar list \<Rightarrow> uint64 \<Rightarrow> kstate \<Rightarrow> int kres" where
  "either_copyout user_dst dst src len s =
    bindE (myproc s) (\<lambda>p s.
    if user_dst
    then case p of None \<Rightarrow> Inl NullDeref | Some p \<Rightarrow> copyout (p_pagetable (procs s p)) dst src len s
    else ret 0 (s\<lparr>mem := store_bytes (mem s) dst (take (unat len) src)\<rparr>))"

definition either_copyin :: "bool \<Rightarrow> uint64 \<Rightarrow> uint64 \<Rightarrow> kstate \<Rightarrow> (int \<times> uchar list) kres" where
  "either_copyin user_src src len s =
    bindE (myproc s) (\<lambda>p s.
    if user_src
    then case p of None \<Rightarrow> Inl NullDeref | Some p \<Rightarrow> copyin (p_pagetable (procs s p)) src len s
    else ret (0, load_bytes (mem s) src (unat len)) s)"

section \<open>Wakeup\<close>

definition proc_locks_free :: "kstate \<Rightarrow> bool" where
  "proc_locks_free s \<longleftrightarrow> (\<forall>i < NPROC. lock_free (ProcLock i) s)"

text \<open>The table after a wakeup on \<open>ch\<close> of the processes \<open>i \<le> p < k\<close> by process \<open>me\<close>.\<close>

definition awaken :: "nat \<Rightarrow> nat \<Rightarrow> chan option \<Rightarrow> nat option \<Rightarrow> (nat \<Rightarrow> proc) \<Rightarrow> nat \<Rightarrow> proc" where
  "awaken i k ch me ps p =
    (if i \<le> p \<and> p < k \<and> Some p \<noteq> me \<and> p_state (ps p) = SLEEPING \<and> p_chan (ps p) = ch
     then (ps p)\<lparr>p_state := RUNNABLE\<rparr> else ps p)"

lemma proc_locks_free_simps [simp]:
  "proc_locks_free (crit s) = proc_locks_free s"
  "proc_locks_free (s\<lparr>procs := ps\<rparr>) = proc_locks_free s"
  by (simp_all add: proc_locks_free_def)

lemma awaken_none [simp]: "awaken i i ch me ps = ps"
  by (auto simp: awaken_def)

lemma awaken_Suc:
  assumes "i < k"
  shows "awaken (Suc i) k ch me (awaken i (Suc i) ch me ps) = awaken i k ch me ps"
proof
  fix p
  show "awaken (Suc i) k ch me (awaken i (Suc i) ch me ps) p = awaken i k ch me ps p"
    using assms by (cases "p = i") (auto simp: awaken_def)
qed

lemma crit_awaken_one:
  "awaken i (Suc i) ch me ps =
    (if Some i \<noteq> me \<and> p_state (ps i) = SLEEPING \<and> p_chan (ps i) = ch
     then ps(i := (ps i)\<lparr>p_state := RUNNABLE\<rparr>) else ps)"
  by (auto simp: awaken_def fun_eq_iff le_less_Suc_eq)

lemma wakeup_from_eq:
  assumes "cpu_ok s" and "\<forall>p. i \<le> p \<and> p < i + n \<longrightarrow> lock_free (ProcLock p) s" and "n \<noteq> 0"
  shows "wakeup_from n i ch s =
    ret () (crit (s\<lparr>procs := awaken i (i + n) ch (cpu_proc (mycpu s)) (procs s)\<rparr>))"
  using assms
proof (induction n arbitrary: i s)
  case 0
  then show ?case by simp
next
  case (Suc n)
  let ?me = "cpu_proc (mycpu s)"
  let ?s = "crit (s\<lparr>procs := awaken i (Suc i) ch ?me (procs s)\<rparr>)"
  have "lock_free (ProcLock i) s" using Suc.prems(2) by simp
  then have step: "wakeup_from (Suc n) i ch s = wakeup_from n (i + 1) ch ?s"
    using Suc.prems(1) by (simp add: crit_awaken_one Let_def upd_proc_def)
  show ?case
  proof (cases "n = 0")
    case True
    with step show ?thesis by simp
  next
    case False
    have "wakeup_from n (i + 1) ch ?s =
        ret () (crit (?s\<lparr>procs := awaken (i + 1) (i + 1 + n) ch (cpu_proc (mycpu ?s)) (procs ?s)\<rparr>))"
      using Suc.prems False by (intro Suc.IH) auto
    with step show ?thesis by (simp add: awaken_Suc)
  qed
qed

lemma wakeup_eq:
  assumes "cpu_ok s" and "proc_locks_free s"
  shows "wakeup ch s = ret () (crit (s\<lparr>procs := awaken 0 NPROC ch (cpu_proc (mycpu s)) (procs s)\<rparr>))"
  using wakeup_from_eq [of s 0 NPROC ch] assms
  by (simp add: wakeup_def proc_locks_free_def NPROC_def)

section \<open>Sleep and the scheduler\<close>

lemma crit_locked_in [simp]: "cpu_ok s \<Longrightarrow> crit (locked_in lk s) = locked_in lk s"
  by (auto simp: cpu_ok_def crit_def locked_in_def push_off_def machine_defs Let_def)

lemma locked_in_commute:
  "a \<noteq> b \<Longrightarrow> locked_in a (locked_in b s) = locked_in b (locked_in a s)"
  by (simp add: locked_in_def push_off_def machine_defs Let_def fun_upd_twist)

lemma release_locked_in_outer [simp]:
  assumes "a \<noteq> b" and "cpu_ok s" and "lock_free b s"
  shows "release b (locked_in a (locked_in b s)) = ret () (locked_in a s)"
  unfolding locked_in_commute [OF assms(1)] using assms by simp

lemma holding_locked_in [simp]: "holding lk (locked_in lk s)"
  by (simp add: holding_def locked_in_def push_off_def machine_defs Let_def)

lemma intr_get_locked_in [simp]: "\<not> intr_get (locked_in lk s)"
  by (simp add: locked_in_def push_off_def machine_defs Let_def)

lemma cpu_intena_locked_in:
  "cpu_noff (mycpu s) = 0 \<Longrightarrow> cpu_intena (mycpu (locked_in lk s)) = intr_get s"
  by (simp add: locked_in_def push_off_def machine_defs Let_def)

lemma curproc_ok [simp]:
  "cpu_ok s \<Longrightarrow> cpu_proc (mycpu s) = Some p \<Longrightarrow> curproc s = ret p (crit s)"
  by (simp add: curproc_def)

lemma set_proc_locked_in [simp]:
  "upd_cpu (\<lambda>c. c\<lparr>cpu_proc := x\<rparr>) (locked_in lk s) = locked_in lk (upd_cpu (\<lambda>c. c\<lparr>cpu_proc := x\<rparr>) s)"
  by (cases s, cases "cpus s (tp s)") (simp add: locked_in_def push_off_def machine_defs Let_def)

lemma cpu_ok_set_proc [simp]: "cpu_ok (upd_cpu (\<lambda>c. c\<lparr>cpu_proc := x\<rparr>) s) = cpu_ok s"
  by (auto simp: cpu_ok_def machine_defs)

lemma set_proc_simps [simp]:
  "cpu_noff (mycpu (upd_cpu (\<lambda>c. c\<lparr>cpu_proc := x\<rparr>) s)) = cpu_noff (mycpu s)"
  "cpu_proc (mycpu (upd_cpu (\<lambda>c. c\<lparr>cpu_proc := x\<rparr>) s)) = x"
  "procs (upd_cpu f s) = procs s"
  by (simp_all add: machine_defs)

lemma lock_free_upd_cpu [simp]: "lock_free lk (upd_cpu f s) = lock_free lk s"
  by (auto simp: lock_free_def machine_defs)

lemma sched_ok:
  assumes "cpu_ok s" and "cpu_noff (mycpu s) = 0" and "cpu_proc (mycpu s) = Some p"
    and "p_state (procs s p) \<noteq> RUNNING"
  shows "sched (locked_in (ProcLock p) s) = ret (intr_get s) (locked_in (ProcLock p) s)"
  using assms by (simp add: sched_def cpu_intena_locked_in)

lemma sleep_eq:
  assumes "cpu_ok s" and "cpu_noff (mycpu s) = 0" and "cpu_proc (mycpu s) = Some p"
    and "lock_free lk s" and "lock_free (ProcLock p) s" and "lk \<noteq> ProcLock p"
  shows "sleep ch lk r (locked_in lk s) =
    Inl (Asleep ch r (intr_get s) (locked_in (ProcLock p)
      (s\<lparr>procs := (procs s)(p := (procs s p)\<lparr>p_chan := Some ch, p_state := SLEEPING\<rparr>)\<rparr>)))"
  using assms sched_ok [of "s\<lparr>procs := (procs s)(p := (procs s p)\<lparr>p_chan := Some ch, p_state := SLEEPING\<rparr>)\<rparr>" p]
  by (simp add: sleep_def Let_def upd_proc_def)

lemma scheduler_return_eq:
  assumes "cpu_ok s" and "lock_free (ProcLock p) s"
  shows "scheduler_return p (locked_in (ProcLock p) s) =
    ret () (crit (upd_cpu (\<lambda>c. c\<lparr>cpu_proc := None\<rparr>) s))"
  using assms by (simp add: scheduler_return_def)

text \<open>The hart after the return of a sleeper with its saved interrupt flag.\<close>

definition resume_intr :: "bool \<Rightarrow> kstate \<Rightarrow> kstate" where
  "resume_intr ie s = (if ie then intr_on else intr_off) (upd_cpu (\<lambda>c. c\<lparr>cpu_intena := ie\<rparr>) s)"

lemma resume_intr_simps [simp]:
  "lock_free lk (resume_intr ie s) = lock_free lk s"
  "procs (resume_intr ie s) = procs s"
  "cpu_noff (mycpu (resume_intr ie s)) = cpu_noff (mycpu s)"
  "cpu_proc (mycpu (resume_intr ie s)) = cpu_proc (mycpu s)"
  "intr_get (resume_intr ie s) = ie"
  by (simp_all add: resume_intr_def lock_free_def machine_defs)

lemma clear_then_set_bits: "(w AND NOT b) OR b = w OR (b :: 'a::len word)"
  by (rule bit_word_eqI) (auto simp: bit_simps)

lemma release_intena:
  assumes "cpu_noff (mycpu s) = 0" and "lock_free lk s"
  shows "release lk (upd_cpu (\<lambda>c. c\<lparr>cpu_intena := ie\<rparr>) (locked_in lk s)) = ret () (resume_intr ie s)"
  using assms
  by (cases s, cases "cpus s (tp s)", cases "harts s (tp s)")
    (simp add: release_def release_check_def release_store_def pop_off_def holding_def resume_intr_def
      locked_in_def lock_free_def push_off_def machine_defs Let_def spinlock_self clear_then_set_bits)

lemma sleep_return_eq:
  assumes "cpu_noff (mycpu s) = 0" and "lock_free (ProcLock p) s" and "lock_free lk s"
  shows "sleep_return ie p lk (locked_in (ProcLock p) s) =
    ret () (locked_in lk (resume_intr ie (s\<lparr>procs := (procs s)(p := (procs s p)\<lparr>p_chan := None\<rparr>)\<rparr>)))"
proof -
  let ?s = "s\<lparr>procs := (procs s)(p := (procs s p)\<lparr>p_chan := None\<rparr>)\<rparr>"
  have "upd_proc p (\<lambda>q. q\<lparr>p_chan := None\<rparr>) (sched_return ie (locked_in (ProcLock p) s)) =
      upd_cpu (\<lambda>c. c\<lparr>cpu_intena := ie\<rparr>) (locked_in (ProcLock p) ?s)"
    by (cases s) (simp add: sched_return_def upd_proc_def upd_cpu_def locked_in_def push_off_def machine_defs Let_def)
  then show ?thesis
    using assms release_intena [of ?s "ProcLock p" ie] by (simp add: sleep_return_def Let_def)
qed

lemma scheduler_from_runnable:
  assumes "cpu_ok s" and "lock_free (ProcLock i) s" and "p_state (procs s i) = RUNNABLE"
  shows "scheduler_from (Suc n) i s = ret (Some i) (locked_in (ProcLock i)
    (upd_cpu (\<lambda>c. c\<lparr>cpu_proc := Some i\<rparr>) (s\<lparr>procs := (procs s)(i := (procs s i)\<lparr>p_state := RUNNING\<rparr>)\<rparr>)))"
  using assms by (simp add: Let_def upd_proc_def)

section \<open>Kill\<close>

definition killed_proc :: "proc \<Rightarrow> proc" where
  "killed_proc q = (if p_state q = SLEEPING then q\<lparr>p_killed := 1, p_state := RUNNABLE\<rparr> else q\<lparr>p_killed := 1\<rparr>)"

lemma kill_from_eq:
  assumes "cpu_ok s" and "\<forall>p. i \<le> p \<and> p < i + n \<longrightarrow> lock_free (ProcLock p) s" and "n \<noteq> 0"
  shows "kill_from n i pid s =
    (case find (\<lambda>p. p_pid (procs s p) = pid) [i..<i + n] of
       None \<Rightarrow> ret (-1) (crit s)
     | Some p \<Rightarrow> ret 0 (crit (s\<lparr>procs := (procs s)(p := killed_proc (procs s p))\<rparr>)))"
  using assms
proof (induction n arbitrary: i s)
  case 0
  then show ?case by simp
next
  case (Suc n)
  have free: "lock_free (ProcLock i) s" using Suc.prems(2) by simp
  have upt: "[i..<i + Suc n] = i # [Suc i..<Suc i + n]" by (simp add: upt_conv_Cons)
  show ?case
  proof (cases "p_pid (procs s i) = pid")
    case True
    then show ?thesis
      using free Suc.prems(1) unfolding upt by (simp add: Let_def upd_proc_def killed_proc_def)
  next
    case False
    have step: "kill_from (Suc n) i pid s = kill_from n (i + 1) pid (crit s)"
      using free False Suc.prems(1) by simp
    show ?thesis
    proof (cases "n = 0")
      case True
      with step False show ?thesis by simp
    next
      case n: False
      have "kill_from n (i + 1) pid (crit s) =
        (case find (\<lambda>p. p_pid (procs (crit s) p) = pid) [i + 1..<i + 1 + n] of
           None \<Rightarrow> ret (-1) (crit (crit s))
         | Some p \<Rightarrow> ret 0 (crit ((crit s)\<lparr>procs := (procs (crit s))(p := killed_proc (procs (crit s) p))\<rparr>)))"
        using Suc.prems n by (intro Suc.IH) auto
      with step False show ?thesis unfolding upt by (simp add: fun_upd_def del: upt_Suc split: option.split)
    qed
  qed
qed

section \<open>Properties\<close>

text \<open>
  C22: \<^verbatim>\<open>wakeup(chan)\<close> called with no process lock held returns, makes runnable exactly the processes
  other than the caller that sleep on \<^verbatim>\<open>chan\<close>, and changes nothing else of the process table, the
  locks, memory or the nesting depth.
\<close>

theorem wakeup_wakes_sleepers:
  assumes "cpu_ok s" and "proc_locks_free s"
  shows "\<exists>s'. wakeup ch s = Inr ((), s') \<and>
    (\<forall>p. procs s' p =
      (if p < NPROC \<and> Some p \<noteq> cpu_proc (mycpu s) \<and> p_state (procs s p) = SLEEPING \<and> p_chan (procs s p) = ch
       then (procs s p)\<lparr>p_state := RUNNABLE\<rparr> else procs s p)) \<and>
    locks s' = locks s \<and> mem s' = mem s \<and> harts s' = harts s \<and>
    cpu_noff (mycpu s') = cpu_noff (mycpu s)"
  using wakeup_eq [OF assms] by (simp add: awaken_def)



section \<open>Witnesses\<close>

text \<open>A hart that runs process 3, with process 5 asleep.\<close>

definition sample_procs :: kstate where
  "sample_procs = kstate0\<lparr>cpus := (\<lambda>_. zero_cpu\<lparr>cpu_proc := Some 3\<rparr>),
     procs := (\<lambda>p. zero_proc\<lparr>p_pid := int p + 1, p_state := (if p = 5 then SLEEPING else RUNNABLE),
                p_chan := (if p = 5 then Some ChanTicks else None)\<rparr>)\<rparr>"

lemma sample_procs_ok [simp]:
  "cpu_ok sample_procs" "lock_free lk sample_procs" "proc_locks_free sample_procs"
  "cpu_noff (mycpu sample_procs) = 0" "cpu_proc (mycpu sample_procs) = Some 3"
  by (simp_all add: sample_procs_def cpu_ok_def lock_free_def proc_locks_free_def kstate0_def zero_cpu_def
      zero_spinlock_def machine_defs)

theorem wakeup_wakes_sleepers_witness:
  "\<exists>s'. wakeup (Some ChanTicks) sample_procs = Inr ((), s') \<and> p_state (procs s' 5) = RUNNABLE"
proof -
  obtain s' where s': "wakeup (Some ChanTicks) sample_procs = Inr ((), s')"
    and p: "\<forall>p. procs s' p =
      (if p < NPROC \<and> Some p \<noteq> cpu_proc (mycpu sample_procs) \<and> p_state (procs sample_procs p) = SLEEPING \<and>
          p_chan (procs sample_procs p) = Some ChanTicks
       then (procs sample_procs p)\<lparr>p_state := RUNNABLE\<rparr> else procs sample_procs p)"
    using wakeup_wakes_sleepers [OF sample_procs_ok(1,3), of "Some ChanTicks"] by blast
  have "procs s' 5 = (procs sample_procs 5)\<lparr>p_state := RUNNABLE\<rparr>"
    using p [rule_format, of 5] by (simp add: NPROC_def) (simp add: sample_procs_def)
  with s' show ?thesis by simp
qed



end
