(* ===== verification/Ring.thy ===== *)
theory Ring
  imports Xv6_Prelude
begin

text \<open>
  Ring buffers, as the pipe, the UART and the console have them: an array of a power of two of
  elements and two counters that run on and wrap around at their width. The content is the list
  of the elements between the read and the write counter.
\<close>

definition ring_list :: "'a::len word \<Rightarrow> (nat \<Rightarrow> 'b) \<Rightarrow> 'a word \<Rightarrow> 'a word \<Rightarrow> 'b list" where
  "ring_list sz b r w = map (\<lambda>i. b (unat ((r + of_nat i) mod sz))) [0..<unat (w - r)]"

lemma length_ring_list [simp]: "length (ring_list sz b r w) = unat (w - r)"
  by (simp add: ring_list_def)

lemma ring_list_empty_iff: "ring_list sz b r w = [] \<longleftrightarrow> r = w"
  by (auto simp: ring_list_def unat_eq_zero)

lemma mod_distinct:
  assumes "i < (d::nat)" and "d < n"
  shows "(a + i) mod n \<noteq> (a + d) mod n"
proof
  assume "(a + i) mod n = (a + d) mod n"
  then have "n dvd (a + d) - (a + i)" using assms by (metis mod_eq_dvd_iff_nat add_le_cancel_left less_imp_le)
  then have "n dvd d - i" by simp
  with assms show False using nat_dvd_not_less [of "d - i" n] by simp
qed

lemma ring_list_snoc:
  assumes "w \<noteq> r"
  shows "ring_list sz b r w = ring_list sz b r (w - 1) @ [b (unat ((w - 1) mod sz))]"
proof -
  have "w - r \<noteq> 0" using assms by simp
  then have "unat (w - r - 1) = unat (w - r) - 1" and "0 < unat (w - r)"
    by (rule unat_minus_one, simp add: unat_gt_0)
  moreover have eq: "w - r - 1 = w - 1 - r" by simp
  ultimately have len: "unat (w - r) = Suc (unat (w - 1 - r))" by simp
  have "r + of_nat (unat (w - 1 - r)) = w - 1" by simp
  then show ?thesis unfolding ring_list_def len by simp
qed

lemma ring_list_append:
  assumes "w - r \<le> e - r"
  shows "ring_list sz b r e = ring_list sz b r w @ ring_list sz b w e"
proof -
  have "unat (e - r) = unat (w - r) + unat (e - w)"
  proof -
    have "(e - r) - (w - r) = e - w" by simp
    then have "unat (e - w) = unat (e - r) - unat (w - r)" using unat_sub_le [OF assms] by metis
    then show ?thesis using assms by (simp add: word_le_nat_alt)
  qed
  moreover have "[0..<a + k] = [0..<a] @ map (\<lambda>i. a + i) [0..<k]" for a k :: nat
    by (induction k) simp_all
  ultimately have "[0..<unat (e - r)] = [0..<unat (w - r)] @ map (\<lambda>i. unat (w - r) + i) [0..<unat (e - w)]"
    by simp
  moreover have "r + of_nat (unat (w - r) + i) = w + of_nat i" for i
  proof -
    have "r + of_nat (unat (w - r) + i) = r + ((w - r) + of_nat i)" by simp
    also have "\<dots> = (r + (w - r)) + of_nat i" by (rule add.assoc [symmetric])
    also have "\<dots> = w + of_nat i" by simp
    finally show ?thesis .
  qed
  ultimately show ?thesis by (simp add: ring_list_def)
qed

text \<open>The interface a ring needs from its size.\<close>

locale ring =
  fixes sz :: "'a::len word"
  assumes pow2: "\<exists>k. unat sz = 2 ^ k"
begin

lemma sz_dvd: "unat sz dvd 2 ^ LENGTH('a)"
proof -
  obtain k where k: "unat sz = 2 ^ k" using pow2 by blast
  then have "(2::nat) ^ k < 2 ^ LENGTH('a)" using unsigned_less [of sz, where ?'a = nat] by simp
  then have "k < LENGTH('a)" by (rule power_less_imp_less_exp [rotated]) simp
  then show ?thesis unfolding k by (intro le_imp_power_dvd) simp
qed

lemma slot: "unat ((r + of_nat i) mod sz) = (unat r + i) mod unat sz"
proof -
  have "unat (r + of_nat i) = (unat r + i) mod 2 ^ LENGTH('a)"
    by (simp add: unat_word_ariths unat_of_nat mod_add_right_eq)
  then show ?thesis by (simp add: unat_mod mod_mod_cancel [OF sz_dvd])
qed

lemma put:
  assumes "unat (w - r) < unat sz"
  shows "ring_list sz (b(unat (w mod sz) := x)) r (w + 1) = ring_list sz b r w @ [x]"
proof -
  let ?d = "unat (w - r)"
  have w: "r + of_nat ?d = w" by simp
  have "Suc ?d < 2 ^ LENGTH('a)" using assms unsigned_less [of sz, where ?'a = nat] by linarith
  then have "unat ((w - r) + 1) = Suc ?d" by (simp add: unat_word_ariths)
  moreover have "(w - r) + 1 = w + 1 - r" by simp
  ultimately have len: "unat (w + 1 - r) = Suc ?d" by metis
  have last: "unat (w mod sz) = (unat r + ?d) mod unat sz" using slot [of r ?d] unfolding w .
  have "b' (unat ((r + of_nat i) mod sz)) = b (unat ((r + of_nat i) mod sz))"
    if "i < ?d" and "b' = b(unat (w mod sz) := x)" for i b'
    using that assms mod_distinct [of i ?d "unat sz" "unat r"] by (simp add: slot last)
  then show ?thesis
    by (simp add: ring_list_def len w)
qed

lemma get:
  assumes "w \<noteq> r"
  shows "ring_list sz b r w = b (unat (r mod sz)) # ring_list sz b (r + 1) w"
proof -
  have "w - r \<noteq> 0" using assms by simp
  then have "unat (w - r - 1) = unat (w - r) - 1" and "0 < unat (w - r)"
    by (rule unat_minus_one, simp add: unat_gt_0)
  moreover have "w - r - 1 = w - (r + 1)" by simp
  ultimately have len: "unat (w - r) = Suc (unat (w - (r + 1)))" by simp
  have "[0..<unat (w - r)] = 0 # map Suc [0..<unat (w - (r + 1))]"
    unfolding len map_Suc_upt by (simp add: upt_conv_Cons del: upt_Suc)
  then show ?thesis by (simp add: ring_list_def add.assoc)
qed

lemma put_other:
  assumes "unat (e - r) < unat sz" and "w - r \<le> e - r"
  shows "ring_list sz (b(unat (e mod sz) := x)) r w = ring_list sz b r w"
proof -
  let ?b = "b(unat (e mod sz) := x)"
  have "(w - r) \<le> (e + 1) - r"
  proof -
    have "Suc (unat (e - r)) < 2 ^ LENGTH('a)" using assms unsigned_less [of sz, where ?'a = nat] by linarith
    then have "unat ((e - r) + 1) = Suc (unat (e - r))" by (simp add: unat_word_ariths)
    moreover have "(e - r) + 1 = e + 1 - r" by simp
    ultimately have "unat (e + 1 - r) = Suc (unat (e - r))" by metis
    then show ?thesis using assms(2) by (simp add: word_le_nat_alt)
  qed
  from ring_list_append [OF this, of sz ?b]
  have "ring_list sz ?b r w = take (unat (w - r)) (ring_list sz ?b r (e + 1))" by simp
  also have "\<dots> = take (unat (w - r)) (ring_list sz b r e)"
    unfolding put [OF assms(1)] using assms(2) by (simp add: word_le_nat_alt)
  also have "\<dots> = ring_list sz b r w" using ring_list_append [OF assms(2), of sz b] by simp
  finally show ?thesis .
qed

end

end
