(* ===== verification/Uart.thy ===== *)
theory Uart
  imports Procsync Ring
begin

text \<open>
  \<^verbatim>\<open>kernel/uart.c\<close>, the driver of the 16550 UART (its interrupt handler, which calls the
  console, is in \<open>Console\<close>), and \<^verbatim>\<open>consputc\<close> of \<^verbatim>\<open>kernel/console.c\<close>. A read of the line
  status register shows the next value the device supplies; its lowest bit tells whether input
  waits. A store to the transmit register appends to \<open>uart_out\<close>; stores to the control
  registers are recorded in \<open>mmio\<close>.
\<close>

section \<open>Registers\<close>

definition RHR :: uint64 where "RHR = 0"
definition THR :: uint64 where "THR = 0"
definition IER :: uint64 where "IER = 1"
definition IER_RX_ENABLE :: uint where "IER_RX_ENABLE = push_bit 0 1"
definition IER_TX_ENABLE :: uint where "IER_TX_ENABLE = push_bit 1 1"
definition FCR :: uint64 where "FCR = 2"
definition FCR_FIFO_ENABLE :: uint where "FCR_FIFO_ENABLE = push_bit 0 1"
definition FCR_FIFO_CLEAR :: uint where "FCR_FIFO_CLEAR = push_bit 1 3"
definition LCR :: uint64 where "LCR = 3"
definition LCR_EIGHT_BITS :: uint where "LCR_EIGHT_BITS = push_bit 0 3"
definition LCR_BAUD_LATCH :: uint where "LCR_BAUD_LATCH = push_bit 7 1"
definition LSR_RX_READY :: uchar where "LSR_RX_READY = push_bit 0 1"
definition LSR_TX_IDLE :: uchar where "LSR_TX_IDLE = push_bit 5 1"
definition UART_TX_BUF_SIZE :: uint64 where "UART_TX_BUF_SIZE = 32"

definition WriteReg :: "uint64 \<Rightarrow> uint \<Rightarrow> kstate \<Rightarrow> kstate" where
  "WriteReg reg v s = s\<lparr>mmio := mmio s @ [(UART0 + reg, v)]\<rparr>"

definition read_lsr :: "kstate \<Rightarrow> uchar \<times> kstate" where
  "read_lsr s =
    (let v = (case uart_lsr s of [] \<Rightarrow> LSR_TX_IDLE | x # _ \<Rightarrow> x AND NOT LSR_RX_READY)
     in (if uart_in s = [] then v else v OR LSR_RX_READY, s\<lparr>uart_lsr := tl (uart_lsr s)\<rparr>))"

definition write_thr :: "int \<Rightarrow> kstate \<Rightarrow> kstate" where
  "write_thr c s = s\<lparr>uart_out := uart_out s @ [word_of_int c]\<rparr>"

section \<open>Operations\<close>

definition uartinit :: "kstate \<Rightarrow> kstate" where
  "uartinit s =
    (let s = WriteReg IER 0x00 s;
         s = WriteReg LCR LCR_BAUD_LATCH s;
         s = WriteReg 0 0x03 s;
         s = WriteReg 1 0x00 s;
         s = WriteReg LCR LCR_EIGHT_BITS s;
         s = WriteReg FCR (FCR_FIFO_ENABLE OR FCR_FIFO_CLEAR) s;
         s = WriteReg IER (IER_TX_ENABLE OR IER_RX_ENABLE) s
     in initlock UartTxLock ''uart'' s)"

text \<open>
  The loop of \<^verbatim>\<open>uartstart\<close>. Each round sends one byte, so the number of buffered bytes plus one
  bounds the rounds.
\<close>

primrec uartstart_loop :: "nat \<Rightarrow> kstate \<Rightarrow> unit kres" where
  "uartstart_loop 0 s = Inl Forever"
| "uartstart_loop (Suc n) s =
    (if tx_w (uart s) = tx_r (uart s) then ret () s
     else
       let (lsr, s) = read_lsr s
       in if lsr AND LSR_TX_IDLE = 0 then ret () s
          else
            let c = tx_buf (uart s) (unat (tx_r (uart s) mod UART_TX_BUF_SIZE));
                s = s\<lparr>uart := (uart s)\<lparr>tx_r := tx_r (uart s) + 1\<rparr>\<rparr>
            in bindE (wakeup (Some ChanUartTxR) s) (\<lambda>_ s.
               uartstart_loop n (write_thr (uint c) s)))"

definition uartstart :: "kstate \<Rightarrow> unit kres" where
  "uartstart s = uartstart_loop (Suc (unat (tx_w (uart s) - tx_r (uart s)))) s"

definition uartputc_loop :: "int \<Rightarrow> kstate \<Rightarrow> unit kres" where
  "uartputc_loop c s =
    (if tx_w (uart s) = tx_r (uart s) + UART_TX_BUF_SIZE then sleep ChanUartTxR UartTxLock c s
     else
       let s = s\<lparr>uart := (uart s)\<lparr>tx_buf := (tx_buf (uart s))
                   (unat (tx_w (uart s) mod UART_TX_BUF_SIZE) := word_of_int c)\<rparr>\<rparr>;
           s = s\<lparr>uart := (uart s)\<lparr>tx_w := tx_w (uart s) + 1\<rparr>\<rparr>
       in bindE (uartstart s) (\<lambda>_ s. release UartTxLock s))"

definition uartputc :: "int \<Rightarrow> kstate \<Rightarrow> unit kres" where
  "uartputc c s =
    bindE (acquire UartTxLock s) (\<lambda>_ s.
    if panicked s then Inl Forever else uartputc_loop c s)"

text \<open>The wait of \<^verbatim>\<open>uartputc_sync\<close>, for at most \<open>n\<close> reads of the status register.\<close>

primrec uart_wait :: "nat \<Rightarrow> kstate \<Rightarrow> unit kres" where
  "uart_wait 0 s = Inl Forever"
| "uart_wait (Suc n) s =
    (let (lsr, s) = read_lsr s in if lsr AND LSR_TX_IDLE = 0 then uart_wait n s else ret () s)"

definition uartputc_sync :: "int \<Rightarrow> kstate \<Rightarrow> unit kres" where
  "uartputc_sync c s =
    (let s = push_off s
     in if panicked s then Inl Forever
        else bindE (uart_wait (Suc (length (uart_lsr s))) s) (\<lambda>_ s. pop_off (write_thr c s)))"

definition uartgetc :: "kstate \<Rightarrow> int kres" where
  "uartgetc s =
    (let (lsr, s) = read_lsr s
     in if lsr AND 0x01 \<noteq> 0
        then ret (uint (hd (uart_in s))) (s\<lparr>uart_in := tl (uart_in s)\<rparr>)
        else ret (-1) s)"

definition BACKSPACE :: int where "BACKSPACE = 0x100"

definition consputc :: "int \<Rightarrow> kstate \<Rightarrow> unit kres" where
  "consputc c s =
    (if c = BACKSPACE
     then bindE (uartputc_sync 8 s) (\<lambda>_ s. bindE (uartputc_sync 32 s) (\<lambda>_ s. uartputc_sync 8 s))
     else uartputc_sync c s)"

section \<open>The transmit ring\<close>

interpretation tx: ring UART_TX_BUF_SIZE
  by unfold_locales (rule exI [of _ 5], simp add: UART_TX_BUF_SIZE_def)

definition tx_queue :: "kstate \<Rightarrow> uchar list" where
  "tx_queue s = ring_list UART_TX_BUF_SIZE (tx_buf (uart s)) (tx_r (uart s)) (tx_w (uart s))"

definition uart_inv :: "kstate \<Rightarrow> bool" where
  "uart_inv s \<longleftrightarrow> tx_w (uart s) - tx_r (uart s) \<le> UART_TX_BUF_SIZE"

text \<open>The state after \<open>k\<close> bytes of the ring have been sent.\<close>

definition tx_sent :: "nat \<Rightarrow> uchar list \<Rightarrow> (nat \<Rightarrow> proc) \<Rightarrow> kstate \<Rightarrow> kstate" where
  "tx_sent k lsr ps s = s\<lparr>uart := (uart s)\<lparr>tx_r := tx_r (uart s) + of_nat k\<rparr>,
     uart_out := uart_out s @ take k (tx_queue s), uart_lsr := lsr, procs := ps\<rparr>"

lemma tx_queue_simps [simp]:
  "tx_queue (s\<lparr>uart_out := x1\<rparr>) = tx_queue s"
  "tx_queue (s\<lparr>uart_lsr := x2\<rparr>) = tx_queue s"
  "tx_queue (s\<lparr>procs := x3\<rparr>) = tx_queue s"
  "tx_queue (crit s) = tx_queue s"
  "tx_queue (locked_in lk s) = tx_queue s"
  by (simp_all add: tx_queue_def)

lemma tx_sent_0 [simp]: "tx_sent 0 lsr ps s = s\<lparr>uart_lsr := lsr, procs := ps\<rparr>"
  by (rule kstate.equality) (simp_all add: tx_sent_def)

lemma tx_queue_get:
  "tx_w (uart s) \<noteq> tx_r (uart s) \<Longrightarrow>
   tx_queue s = tx_buf (uart s) (unat (tx_r (uart s) mod UART_TX_BUF_SIZE)) #
     tx_queue (s\<lparr>uart := (uart s)\<lparr>tx_r := tx_r (uart s) + 1\<rparr>\<rparr>)"
  using tx.get [of "tx_w (uart s)" "tx_r (uart s)"] by (simp add: tx_queue_def)

lemma tx_sent_Suc:
  assumes "tx_w (uart s) \<noteq> tx_r (uart s)"
    and "c = tx_buf (uart s) (unat (tx_r (uart s) mod UART_TX_BUF_SIZE))"
  shows "tx_sent k lsr ps (s\<lparr>uart_lsr := l, uart := (uart s)\<lparr>tx_r := tx_r (uart s) + 1\<rparr>, procs := qs,
      uart_out := uart_out s @ [c]\<rparr>) = tx_sent (Suc k) lsr ps s"
  using tx_queue_get [OF assms(1)] assms(2)
  by (intro kstate.equality) (simp_all add: tx_sent_def tx_queue_def ac_simps)

lemma read_lsr_idle: "uart_lsr s = [] \<Longrightarrow> fst (read_lsr s) AND LSR_TX_IDLE \<noteq> 0"
  by (simp add: read_lsr_def LSR_TX_IDLE_def LSR_RX_READY_def Let_def)

lemma snd_read_lsr [simp]: "snd (read_lsr s) = s\<lparr>uart_lsr := tl (uart_lsr s)\<rparr>"
  by (simp add: read_lsr_def Let_def)

lemma fst_read_lsr_locked_in [simp]: "fst (read_lsr (locked_in lk s)) = fst (read_lsr s)"
  by (simp add: read_lsr_def Let_def)

lemma proc_locks_free_locked_in [simp]:
  "\<forall>p. lk \<noteq> ProcLock p \<Longrightarrow> proc_locks_free (locked_in lk s) = proc_locks_free s"
  by (metis proc_locks_free_def lock_free_locked_in_other)

lemma proc_locks_free_uart [simp]:
  "proc_locks_free (s\<lparr>uart := x1\<rparr>) = proc_locks_free s"
  "proc_locks_free (s\<lparr>uart_out := x2\<rparr>) = proc_locks_free s"
  "proc_locks_free (s\<lparr>uart_lsr := x3\<rparr>) = proc_locks_free s"
  by (simp_all add: proc_locks_free_def)

lemma uartstart_loop_eq:
  assumes "cpu_ok s" and "proc_locks_free s" and "unat (tx_w (uart s) - tx_r (uart s)) < n"
    and "\<forall>p. lk \<noteq> ProcLock p"
  shows "\<exists>k lsr ps. uartstart_loop n (locked_in lk s) = ret () (locked_in lk (tx_sent k lsr ps s)) \<and>
    k \<le> length (tx_queue s) \<and> (uart_lsr s = [] \<longrightarrow> k = length (tx_queue s))"
  using assms
proof (induction n arbitrary: s)
  case 0
  then show ?case by simp
next
  case (Suc n)
  show ?case
  proof (cases "tx_w (uart s) = tx_r (uart s)")
    case True
    then have "uartstart_loop (Suc n) (locked_in lk s) = ret () (locked_in lk (tx_sent 0 (uart_lsr s) (procs s) s))"
      by simp
    moreover have "tx_queue s = []" using True by (simp add: tx_queue_def ring_list_empty_iff)
    ultimately show ?thesis by (metis le0 list.size(3))
  next
    case ne: False
    show ?thesis
    proof (cases "fst (read_lsr s) AND LSR_TX_IDLE = 0")
      case True
      then have "uartstart_loop (Suc n) (locked_in lk s) =
          ret () (locked_in lk (tx_sent 0 (tl (uart_lsr s)) (procs s) s))"
        using ne by (simp add: split_beta)
      moreover have "uart_lsr s \<noteq> []" using True read_lsr_idle by blast
      ultimately show ?thesis by (metis le0)
    next
      case False
      define c where "c = tx_buf (uart s) (unat (tx_r (uart s) mod UART_TX_BUF_SIZE))"
      define s1 where "s1 = s\<lparr>uart_lsr := tl (uart_lsr s), uart := (uart s)\<lparr>tx_r := tx_r (uart s) + 1\<rparr>,
        procs := awaken 0 NPROC (Some ChanUartTxR) (cpu_proc (mycpu s)) (procs s),
        uart_out := uart_out s @ [c]\<rparr>"
      have step: "uartstart_loop (Suc n) (locked_in lk s) = uartstart_loop n (locked_in lk s1)"
        using ne False Suc.prems by (simp add: split_beta Let_def wakeup_eq write_thr_def s1_def c_def)
      have q: "tx_queue s = c # tx_queue s1"
        using tx_queue_get [OF ne] by (simp add: s1_def c_def tx_queue_def)
      have len: "unat (tx_w (uart s1) - tx_r (uart s1)) < n"
        using Suc.prems(3) q by (simp add: tx_queue_def) (metis length_Cons length_ring_list not_less_eq)
      obtain k lsr ps where k: "uartstart_loop n (locked_in lk s1) = ret () (locked_in lk (tx_sent k lsr ps s1))"
        "k \<le> length (tx_queue s1)" "uart_lsr s1 = [] \<longrightarrow> k = length (tx_queue s1)"
        using Suc.IH [of s1] Suc.prems len by (auto simp: s1_def)
      have "tx_sent k lsr ps s1 = tx_sent (Suc k) lsr ps s"
        unfolding s1_def by (rule tx_sent_Suc [OF ne c_def])
      with step k q show ?thesis
        by (intro exI [of _ "Suc k"] exI [of _ lsr] exI [of _ ps]) (auto simp: s1_def)
    qed
  qed
qed

lemma uartstart_eq:
  assumes "cpu_ok s" and "proc_locks_free s" and "\<forall>p. lk \<noteq> ProcLock p"
  shows "\<exists>k lsr ps. uartstart (locked_in lk s) = ret () (locked_in lk (tx_sent k lsr ps s)) \<and>
    k \<le> length (tx_queue s) \<and> (uart_lsr s = [] \<longrightarrow> k = length (tx_queue s))"
  unfolding uartstart_def locked_in_select by (rule uartstart_loop_eq [OF assms(1,2) _ assms(3)]) simp

lemma tx_queue_sent:
  "k \<le> length (tx_queue s) \<Longrightarrow> tx_queue (tx_sent k lsr ps s) = drop k (tx_queue s)"
proof (induction k arbitrary: s)
  case 0
  then show ?case by simp
next
  case (Suc k)
  then have ne: "tx_w (uart s) \<noteq> tx_r (uart s)" by (auto simp: tx_queue_def)
  let ?s = "s\<lparr>uart := (uart s)\<lparr>tx_r := tx_r (uart s) + 1\<rparr>\<rparr>"
  have "tx_queue (tx_sent k lsr ps ?s) = drop k (tx_queue ?s)"
    using Suc.prems tx_queue_get [OF ne] by (intro Suc.IH) simp
  moreover have "tx_queue (tx_sent (Suc k) lsr ps s) = tx_queue (tx_sent k lsr ps ?s)"
    by (simp add: tx_sent_def tx_queue_def ac_simps)
  ultimately show ?case using tx_queue_get [OF ne] by simp
qed

lemma uart_inv_iff: "uart_inv s \<longleftrightarrow> length (tx_queue s) \<le> 32"
  by (simp add: uart_inv_def tx_queue_def word_le_nat_alt UART_TX_BUF_SIZE_def)

section \<open>Synchronous output\<close>

text \<open>What bytes sent by \<^verbatim>\<open>uartputc_sync\<close> do to the state: the line status is read until idle.\<close>

definition lsr_next :: "uchar list \<Rightarrow> uchar list" where
  "lsr_next l = tl (dropWhile (\<lambda>v. v AND LSR_TX_IDLE = 0) l)"

definition emits :: "uchar list \<Rightarrow> kstate \<Rightarrow> kstate" where
  "emits bs s = s\<lparr>uart_out := uart_out s @ bs, uart_lsr := (lsr_next ^^ length bs) (uart_lsr s)\<rparr>"

lemma bit_LSR: "bit LSR_TX_IDLE n \<longleftrightarrow> n = 5" "bit LSR_RX_READY n \<longleftrightarrow> n = 0"
  by (simp_all only: LSR_TX_IDLE_def LSR_RX_READY_def bit_push_bit_iff bit_1_iff) auto

lemma read_lsr_tx: "fst (read_lsr s) AND LSR_TX_IDLE =
  (case uart_lsr s of [] \<Rightarrow> LSR_TX_IDLE | v # _ \<Rightarrow> v AND LSR_TX_IDLE)"
  by (rule bit_word_eqI)
    (auto simp: read_lsr_def Let_def bit_simps bit_LSR split: list.splits)

lemma uart_wait_eq:
  "length (uart_lsr s) < n \<Longrightarrow> uart_wait n s = ret () (s\<lparr>uart_lsr := lsr_next (uart_lsr s)\<rparr>)"
proof (induction n arbitrary: s)
  case 0
  then show ?case by simp
next
  case (Suc n)
  show ?case
  proof (cases "uart_lsr s")
    case Nil
    then show ?thesis
      using read_lsr_tx [of s] by (simp add: split_beta lsr_next_def) (simp add: LSR_TX_IDLE_def)
  next
    case (Cons v l)
    then show ?thesis
      using read_lsr_tx [of s] Suc.prems Suc.IH [of "s\<lparr>uart_lsr := l\<rparr>"]
      by (simp add: split_beta lsr_next_def)
  qed
qed

lemma uart_out_push_off [simp]:
  "uart_out (push_off s) = uart_out s" "uart_lsr (push_off s) = uart_lsr s"
  "panicked (push_off s) = panicked s"
  by (simp_all add: push_off_def machine_defs Let_def)

lemma uartputc_sync_eq [simp]:
  assumes "cpu_ok s" and "\<not> panicked s"
  shows "uartputc_sync c s = ret () (crit (emits [word_of_int c] s))"
proof -
  have "push_off s\<lparr>uart_lsr := l, uart_out := o'\<rparr> = push_off (s\<lparr>uart_out := o', uart_lsr := l\<rparr>)" for l o'
    by (cases s) (simp add: push_off_def machine_defs Let_def)
  then show ?thesis
    using assms uart_wait_eq [of "push_off s" "Suc (length (uart_lsr s))"]
    by (simp add: uartputc_sync_def Let_def write_thr_def emits_def del: uart_wait.simps)
qed

lemma emits_Nil [simp]: "emits [] s = s"
  by (simp add: emits_def)

lemma emits_emits [simp]: "emits bs (emits cs s) = emits (cs @ bs) s"
  by (simp add: emits_def funpow_add add.commute [of "length cs"])

lemma emits_simps [simp]:
  "cpu_ok (emits bs s) = cpu_ok s" "panicked (emits bs s) = panicked s"
  "lock_free lk (emits bs s) = lock_free lk s"
  "emits bs (crit s) = crit (emits bs s)" "emits bs (locked_in lk s) = locked_in lk (emits bs s)"
  "uart_out (emits bs s) = uart_out s @ bs" "cons (emits bs s) = cons s" "procs (emits bs s) = procs s"
  "mycpu (emits bs s) = mycpu s" "pr_locking (emits bs s) = pr_locking s"
  by (simp_all add: emits_def)

lemma emits_update [simp]:
  "(emits bs s)\<lparr>cons := k\<rparr> = emits bs (s\<lparr>cons := k\<rparr>)"
  "(emits bs s)\<lparr>procs := ps\<rparr> = emits bs (s\<lparr>procs := ps\<rparr>)"
  by (rule kstate.equality; simp add: emits_def)+

section \<open>Properties\<close>

text \<open>
  C24: The transmit path is a bounded FIFO. With at most 32 bytes buffered, \<^verbatim>\<open>uartputc(c)\<close> on a ring
  that is not full returns with the lock free and exactly \<^verbatim>\<open>c\<close> appended to the stream of bytes sent
  and still buffered, whatever the device accepts at once, and keeps the bound; on a full ring the
  process goes to sleep on \<^verbatim>\<open>uart_tx_r\<close> with the lock released and nothing stored.
\<close>

theorem uartputc_fifo:
  assumes "cpu_ok s" and "proc_locks_free s" and "lock_free UartTxLock s" and "\<not> panicked s"
    and "uart_inv s" and "cpu_noff (mycpu s) = 0" and "cpu_proc (mycpu s) = Some p" and "p < NPROC"
  shows "if length (tx_queue s) < 32
    then \<exists>s'. uartputc c s = Inr ((), s') \<and> lock_free UartTxLock s' \<and> uart_inv s' \<and>
      uart_out s' @ tx_queue s' = uart_out s @ tx_queue s @ [word_of_int c]
    else \<exists>ie s'. uartputc c s = Inl (Asleep ChanUartTxR c ie s') \<and> lock_free UartTxLock s' \<and>
      p_chan (procs s' p) = Some ChanUartTxR \<and> tx_queue s' = tx_queue s \<and> uart_out s' = uart_out s"
proof (cases "length (tx_queue s) < 32")
  case True
  let ?u = "uart s"
  define s1 where "s1 = s\<lparr>uart := ?u\<lparr>tx_buf := (tx_buf ?u)(unat (tx_w ?u mod UART_TX_BUF_SIZE) := word_of_int c),
      tx_w := tx_w ?u + 1\<rparr>\<rparr>"
  have sz: "unat UART_TX_BUF_SIZE = 32" by (simp add: UART_TX_BUF_SIZE_def)
  have ne: "tx_w ?u \<noteq> tx_r ?u + UART_TX_BUF_SIZE"
  proof
    assume "tx_w ?u = tx_r ?u + UART_TX_BUF_SIZE"
    then have "unat (tx_w ?u - tx_r ?u) = 32" by (simp add: sz)
    with True show False by (simp add: tx_queue_def)
  qed
  have q: "tx_queue s1 = tx_queue s @ [word_of_int c]"
    using tx.put [of "tx_w ?u" "tx_r ?u"] True by (simp add: tx_queue_def s1_def sz)
  obtain k lsr ps where k: "uartstart (locked_in UartTxLock s1) = ret () (locked_in UartTxLock (tx_sent k lsr ps s1))"
    "k \<le> length (tx_queue s1)"
    using uartstart_eq [of s1 UartTxLock] assms(1,2) by (auto simp: s1_def)
  have ok: "cpu_ok (tx_sent k lsr ps s1)" "lock_free UartTxLock (tx_sent k lsr ps s1)"
    using assms by (simp_all add: tx_sent_def s1_def)
  have "uartputc c s = ret () (crit (tx_sent k lsr ps s1))"
    using assms ne k(1) ok by (simp add: uartputc_def uartputc_loop_def Let_def s1_def)
  moreover have "tx_queue (tx_sent k lsr ps s1) = drop k (tx_queue s1)" using k(2) by (rule tx_queue_sent)
  moreover have "uart_out (tx_sent k lsr ps s1) = uart_out s @ take k (tx_queue s1)"
    by (simp add: tx_sent_def) (simp add: s1_def)
  moreover have "length (drop k (tx_queue s1)) \<le> 32" using True q by simp
  ultimately show ?thesis
    using True ok by (simp add: uart_inv_iff flip: q)
next
  case False
  have "unat (tx_w (uart s) - tx_r (uart s)) = unat UART_TX_BUF_SIZE"
    using False assms(5) by (simp add: uart_inv_iff) (simp add: tx_queue_def UART_TX_BUF_SIZE_def)
  then have "tx_w (uart s) - tx_r (uart s) = UART_TX_BUF_SIZE" by (rule unsigned_word_eqI)
  then have full: "tx_w (uart s) = tx_r (uart s) + UART_TX_BUF_SIZE" by (simp add: algebra_simps)
  have free: "lock_free (ProcLock p) s" using assms(2,8) by (simp add: proc_locks_free_def)
  have "uartputc c s = sleep ChanUartTxR UartTxLock c (locked_in UartTxLock s)"
    using assms(3,4) full by (simp add: uartputc_def uartputc_loop_def)
  moreover note sleep_eq [of s p UartTxLock ChanUartTxR c, where ?'a = unit]
  ultimately show ?thesis using assms free False by simp
qed


section \<open>Witnesses\<close>

theorem uartputc_fifo_witness:
  "\<exists>s'. uartputc 65 sample_procs = Inr ((), s') \<and> uart_out s' @ tx_queue s' = [65]"
proof -
  have q: "tx_queue sample_procs = []" "uart_out sample_procs = []" "\<not> panicked sample_procs"
    by (simp_all add: tx_queue_def ring_list_empty_iff sample_procs_def kstate0_def)
  then have "uart_inv sample_procs" by (simp add: uart_inv_iff)
  with uartputc_fifo [of sample_procs 3 65] q show ?thesis by (auto simp: NPROC_def)
qed


end
