(* ===== verification/Digits.thy ===== *)
theory Digits
  imports Xv6_Prelude
begin

text \<open>
  Positional notation, shared by the two \<^verbatim>\<open>printint\<close> functions and by \<^verbatim>\<open>atoi\<close>: the digits of a number,
  least significant first, and the value of a list of digits, most significant first.
\<close>

function dig :: "nat \<Rightarrow> nat \<Rightarrow> nat list" where
  "dig b n = (if b < 2 \<or> n < b then [n] else n mod b # dig b (n div b))"
  by pat_completeness auto
termination by (relation "measure snd") auto

declare dig.simps [simp del]

definition undig :: "nat \<Rightarrow> nat list \<Rightarrow> nat" where
  "undig b ds = foldl (\<lambda>v d. v * b + d) 0 ds"

lemma undig_Nil [simp]: "undig b [] = 0"
  by (simp add: undig_def)

lemma undig_snoc [simp]: "undig b (ds @ [d]) = undig b ds * b + d"
  by (simp add: undig_def)

lemma undig_dig [simp]: "undig b (rev (dig b n)) = n"
proof (induction b n rule: dig.induct)
  case (1 b n)
  then show ?case by (subst dig.simps) (auto simp: undig_def)
qed

lemma dig_less: "2 \<le> b \<Longrightarrow> d \<in> set (dig b n) \<Longrightarrow> d < b"
proof (induction b n rule: dig.induct)
  case (1 b n)
  then show ?case by (subst (asm) (2) dig.simps) (auto split: if_splits)
qed

lemma dig_nonempty [simp]: "dig b n \<noteq> []"
  by (subst dig.simps) simp

lemma last_dig: "2 \<le> b \<Longrightarrow> n \<noteq> 0 \<Longrightarrow> last (dig b n) \<noteq> 0"
proof (induction b n rule: dig.induct)
  case (1 b n)
  then show ?case by (subst dig.simps) (auto simp: div_eq_0_iff)
qed

lemma length_dig_le: "2 \<le> b \<Longrightarrow> length (dig b n) \<le> Suc k \<longleftrightarrow> n < b ^ Suc k"
proof (induction k arbitrary: n)
  case 0
  show ?case
  proof (cases "n < b")
    case True
    then show ?thesis by (subst dig.simps) simp
  next
    case False
    with 0 have "dig b n = n mod b # dig b (n div b)" by (subst dig.simps) simp
    with False show ?thesis by simp
  qed
next
  case (Suc k)
  show ?case
  proof (cases "n < b")
    case True
    moreover have "b ^ 1 \<le> b ^ Suc (Suc k)" using Suc.prems by (intro power_increasing) simp_all
    ultimately have "n < b ^ Suc (Suc k)" unfolding power_one_right by (rule less_le_trans)
    with True show ?thesis by (subst dig.simps) (simp del: power_Suc)
  next
    case False
    with Suc.prems have "dig b n = n mod b # dig b (n div b)" by (subst dig.simps) simp
    moreover have "n div b < b ^ Suc k \<longleftrightarrow> n < b ^ Suc (Suc k)"
      using Suc.prems by (simp add: div_less_iff_less_mult mult.commute)
    ultimately show ?thesis using Suc by simp
  qed
qed

end
