(* ===== verification/Printf.thy ===== *)
theory Printf
  imports Uart Digits
begin

text \<open>
  \<^verbatim>\<open>kernel/printf.c\<close>: formatted output to the console. A format is a string without its final
  NUL; an argument is a 64-bit register or a pointer to a string.
\<close>

section \<open>Operations\<close>

datatype parg = Reg uint64 | Str "uchar list option"

definition digits :: string where
  "digits = ''0123456789abcdef''"

primrec cons_puts :: "string \<Rightarrow> kstate \<Rightarrow> unit kres" where
  "cons_puts [] s = ret () s"
| "cons_puts (c # cs) s = bindE (consputc (of_char c) s) (\<lambda>_ s. cons_puts cs s)"

text \<open>
  The digit loop of \<^verbatim>\<open>printint\<close>: \<open>b\<close> is the part of \<^verbatim>\<open>buf\<close> filled so far, and a store
  beyond its 16 bytes is \<^const>\<open>Overrun\<close>.
\<close>

definition PRINTBUF :: nat where "PRINTBUF = 16"

function printint_digits :: "uint64 \<Rightarrow> uint64 \<Rightarrow> string \<Rightarrow> stop + string" where
  "printint_digits base x b =
    (if length b \<ge> PRINTBUF then Inl Overrun
     else
       let b = b @ [digits ! unat (x mod base)]; x = x div base
       in if x \<noteq> 0 then printint_digits base x b else Inr b)"
  by pat_completeness auto
termination by (relation "measure (\<lambda>(base, x, b). PRINTBUF - length b)") (auto simp: not_le)

declare printint_digits.simps [simp del]

definition printint_chars :: "uint64 \<Rightarrow> uint64 \<Rightarrow> bool \<Rightarrow> stop + string" where
  "printint_chars xx base sign =
    (let neg = (sign \<and> xx <s 0);
         x = (if neg then - xx else xx)
     in case printint_digits base x [] of
          Inl e \<Rightarrow> Inl e
        | Inr b \<Rightarrow>
            if neg then if length b \<ge> PRINTBUF then Inl Overrun else Inr (b @ [CHR ''-''])
            else Inr b)"

definition printint :: "uint64 \<Rightarrow> uint64 \<Rightarrow> bool \<Rightarrow> kstate \<Rightarrow> unit kres" where
  "printint xx base sign s =
    (case printint_chars xx base sign of Inl e \<Rightarrow> Inl e | Inr b \<Rightarrow> cons_puts (rev b) s)"

primrec printptr_from :: "nat \<Rightarrow> uint64 \<Rightarrow> kstate \<Rightarrow> unit kres" where
  "printptr_from 0 x s = ret () s"
| "printptr_from (Suc n) x s =
    bindE (consputc (of_char (digits ! unat (drop_bit 60 x))) s) (\<lambda>_ s.
    printptr_from n (push_bit 4 x) s)"

definition printptr :: "uint64 \<Rightarrow> kstate \<Rightarrow> unit kres" where
  "printptr x s =
    bindE (consputc (of_char CHR ''0'') s) (\<lambda>_ s.
    bindE (consputc (of_char CHR ''x'') s) (\<lambda>_ s. printptr_from 16 x s))"

text \<open>\<^verbatim>\<open>va_arg\<close>: an \<^verbatim>\<open>int\<close> argument is the low half of its register, sign-extended.\<close>

fun va_int :: "parg list \<Rightarrow> stop + uint64 \<times> parg list" where
  "va_int (Reg r # ap) = Inr (scast (ucast r :: uint), ap)"
| "va_int _ = Inl Overrun"

fun va_long :: "parg list \<Rightarrow> stop + uint64 \<times> parg list" where
  "va_long (Reg r # ap) = Inr (r, ap)"
| "va_long _ = Inl Overrun"

fun va_str :: "parg list \<Rightarrow> stop + uchar list \<times> parg list" where
  "va_str (Str p # ap) = Inr (case p of None \<Rightarrow> map of_char ''(null)'' | Some cs \<Rightarrow> cs, ap)"
| "va_str _ = Inl Overrun"

primrec cons_putb :: "uchar list \<Rightarrow> kstate \<Rightarrow> unit kres" where
  "cons_putb [] s = ret () s"
| "cons_putb (c # cs) s =
    (if c = 0 then ret () s else bindE (consputc (uint c) s) (\<lambda>_ s. cons_putb cs s))"

text \<open>
  A conversion: the characters it takes from the format after \<^verbatim>\<open>%\<close>, and its effect on the
  arguments and the state.
\<close>

definition fmt_at :: "string \<Rightarrow> nat \<Rightarrow> char" where
  "fmt_at fmt i = (if i < length fmt then fmt ! i else CHR 0x00)"

definition conv :: "char \<Rightarrow> char \<Rightarrow> char \<Rightarrow> parg list \<Rightarrow> kstate \<Rightarrow> (nat \<times> parg list) kres" where
  "conv c0 c1 c2 ap s =
    (let num = (\<lambda>k va base sign.
           bindE (case va ap of Inl e \<Rightarrow> Inl e | Inr (x, ap) \<Rightarrow> ret (x, ap) s) (\<lambda>(x, ap) s.
           bindE (printint x base sign s) (\<lambda>_ s. ret (k, ap) s)))
     in if c0 = CHR ''d'' then num 1 va_int 10 True
        else if c0 = CHR ''l'' \<and> c1 = CHR ''d'' then num 2 va_long 10 True
        else if c0 = CHR ''l'' \<and> c1 = CHR ''l'' \<and> c2 = CHR ''d'' then num 3 va_long 10 True
        else if c0 = CHR ''u'' then num 1 va_int 10 False
        else if c0 = CHR ''l'' \<and> c1 = CHR ''u'' then num 2 va_long 10 False
        else if c0 = CHR ''l'' \<and> c1 = CHR ''l'' \<and> c2 = CHR ''u'' then num 3 va_long 10 False
        else if c0 = CHR ''x'' then num 1 va_int 16 False
        else if c0 = CHR ''l'' \<and> c1 = CHR ''x'' then num 2 va_long 16 False
        else if c0 = CHR ''l'' \<and> c1 = CHR ''l'' \<and> c2 = CHR ''x'' then num 3 va_long 16 False
        else if c0 = CHR ''p'' then
          bindE (case va_long ap of Inl e \<Rightarrow> Inl e | Inr (x, ap) \<Rightarrow> ret (x, ap) s) (\<lambda>(x, ap) s.
          bindE (printptr x s) (\<lambda>_ s. ret (1, ap) s))
        else if c0 = CHR ''s'' then
          bindE (case va_str ap of Inl e \<Rightarrow> Inl e | Inr (x, ap) \<Rightarrow> ret (x, ap) s) (\<lambda>(x, ap) s.
          bindE (cons_putb x s) (\<lambda>_ s. ret (1, ap) s))
        else if c0 = CHR ''%'' then
          bindE (consputc (of_char CHR ''%'') s) (\<lambda>_ s. ret (1, ap) s)
        else
          bindE (consputc (of_char CHR ''%'') s) (\<lambda>_ s.
          bindE (consputc (of_char c0) s) (\<lambda>_ s. ret (1, ap) s)))"

text \<open>
  The loop of \<^verbatim>\<open>printf\<close>; the first argument bounds its rounds by the length of the format, of
  which every round takes at least one character.
\<close>

primrec printf_loop :: "nat \<Rightarrow> string \<Rightarrow> parg list \<Rightarrow> kstate \<Rightarrow> unit kres" where
  "printf_loop 0 fmt ap s = ret () s"
| "printf_loop (Suc n) fmt ap s =
    (let cx = fmt_at fmt 0
     in if cx = CHR 0x00 then ret () s
        else if cx \<noteq> CHR ''%'' then
          bindE (consputc (of_char cx) s) (\<lambda>_ s. printf_loop n (drop 1 fmt) ap s)
        else
          let c0 = fmt_at fmt 1;
              c1 = (if c0 \<noteq> CHR 0x00 then fmt_at fmt 2 else CHR 0x00);
              c2 = (if c1 \<noteq> CHR 0x00 then fmt_at fmt 3 else CHR 0x00)
          in if c0 = CHR 0x00 then ret () s
             else bindE (conv c0 c1 c2 ap s) (\<lambda>(k, ap) s. printf_loop n (drop (1 + k) fmt) ap s))"

definition printf :: "string \<Rightarrow> parg list \<Rightarrow> kstate \<Rightarrow> int kres" where
  "printf fmt ap s =
    (let locking = pr_locking s
     in bindE (if locking then acquire PrLock s else ret () s) (\<lambda>_ s.
        bindE (printf_loop (length fmt) fmt ap s) (\<lambda>_ s.
        bindE (if locking then release PrLock s else ret () s) (\<lambda>_ s. ret 0 s))))"

text \<open>\<^verbatim>\<open>panic\<close> up to its endless loop. A function that calls it has the value \<^const>\<open>Panic\<close>.\<close>

definition panic_print :: "uchar list \<Rightarrow> kstate \<Rightarrow> unit kres" where
  "panic_print msg s =
    (let s = s\<lparr>pr_locking := False\<rparr>
     in bindE (printf ''panic: '' [] s) (\<lambda>_ s.
        bindE (printf (''%s'' @ [CHR 0x0A]) [Str (Some msg)] s) (\<lambda>_ s.
        ret () (s\<lparr>panicked := True\<rparr>))))"

definition printfinit :: "kstate \<Rightarrow> kstate" where
  "printfinit s = (initlock PrLock ''pr'' s)\<lparr>pr_locking := True\<rparr>"

section \<open>Numbers\<close>

abbreviation digit :: "nat \<Rightarrow> char" where
  "digit d \<equiv> digits ! d"

lemma printint_digits_eq:
  assumes "2 \<le> unat base"
  shows "printint_digits base x b =
    (if length b + length (dig (unat base) (unat x)) \<le> PRINTBUF
     then Inr (b @ map digit (dig (unat base) (unat x))) else Inl Overrun)"
  using assms
proof (induction base x b rule: printint_digits.induct)
  case (1 base x b)
  show ?case
  proof (cases "PRINTBUF \<le> length b")
    case True
    moreover have "0 < length (dig (unat base) (unat x))" by simp
    ultimately have "\<not> length b + length (dig (unat base) (unat x)) \<le> PRINTBUF" by linarith
    with True show ?thesis by (subst printint_digits.simps) simp
  next
    case False
    let ?d = "digit (unat (x mod base))"
    have d: "unat (x mod base) = unat x mod unat base" "unat (x div base) = unat x div unat base"
      by (simp_all add: unat_mod unat_div)
    show ?thesis
    proof (cases "x div base = 0")
      case True
      then have "unat x div unat base = 0" using d(2) by simp
      then have "unat x < unat base" using "1.prems" by (simp add: div_eq_0_iff)
      then have "dig (unat base) (unat x) = [unat x]" by (subst dig.simps) simp
      with True False d \<open>unat x < unat base\<close> show ?thesis
        by (subst printint_digits.simps) (simp add: not_le)
    next
      case ne: False
      then have "unat x div unat base \<noteq> 0" using d(2) by (metis unat_eq_zero)
      then have "\<not> unat x < unat base" by auto
      then have dig: "dig (unat base) (unat x) = unat x mod unat base # dig (unat base) (unat x div unat base)"
        using "1.prems" by (subst dig.simps) simp
      from False ne have "printint_digits base x b = printint_digits base (x div base) (b @ [?d])"
        by (subst printint_digits.simps) simp
      also have "\<dots> = (if length (b @ [?d]) + length (dig (unat base) (unat (x div base))) \<le> PRINTBUF
          then Inr ((b @ [?d]) @ map digit (dig (unat base) (unat (x div base)))) else Inl Overrun)"
        using "1.IH" [OF False refl refl ne] "1.prems" by simp
      finally show ?thesis unfolding dig by (simp add: d)
    qed
  qed
qed

section \<open>Output of characters\<close>

lemma consputc_char:
  assumes "cpu_ok s" and "\<not> panicked s"
  shows "consputc (of_char c) s = ret () (crit (emits [of_char c] s))"
proof -
  have "of_char c \<noteq> (256 :: int)"
    by (metis of_char_of nat_of_char_less_256 of_nat_of_char of_nat_numeral of_nat_eq_iff less_irrefl)
  moreover have "(word_of_int (of_char c) :: uchar) = of_char c"
    by (metis of_int_of_nat_eq of_nat_of_char)
  ultimately show ?thesis using assms by (simp add: consputc_def BACKSPACE_def)
qed

lemma cons_puts_eq:
  assumes "cpu_ok s" and "\<not> panicked s" and "cs \<noteq> []"
  shows "cons_puts cs s = ret () (crit (emits (map of_char cs) s))"
  using assms
proof (induction cs arbitrary: s)
  case Nil
  then show ?case by simp
next
  case (Cons c cs)
  then show ?case by (cases "cs = []") (simp_all add: consputc_char)
qed

text \<open>The magnitude of a signed or unsigned argument, and whether a minus sign is printed.\<close>

definition is_neg :: "uint64 \<Rightarrow> bool \<Rightarrow> bool" where
  "is_neg xx sign \<longleftrightarrow> sign \<and> xx <s 0"

definition magnitude :: "uint64 \<Rightarrow> bool \<Rightarrow> nat" where
  "magnitude xx sign = (if is_neg xx sign then unat (- xx) else unat xx)"

lemma printint_chars_eq:
  assumes "2 \<le> unat base"
  shows "printint_chars xx base sign =
    (let ds = dig (unat base) (magnitude xx sign); room = (if is_neg xx sign then 15 else 16)
     in if length ds \<le> room then Inr (map digit ds @ (if is_neg xx sign then [CHR ''-''] else []))
        else Inl Overrun)"
  using assms
  by (auto simp: printint_chars_def printint_digits_eq is_neg_def magnitude_def PRINTBUF_def Let_def)

text \<open>
  A state in which printing only appends to the output: interrupts are off or nested, or the hart's
  saved interrupt flag is up to date.
\<close>

definition calm :: "kstate \<Rightarrow> bool" where
  "calm s \<longleftrightarrow> cpu_ok s \<and> \<not> panicked s \<and> crit s = s"

lemma calm_locked_in [simp]: "cpu_ok s \<Longrightarrow> \<not> panicked s \<Longrightarrow> calm (locked_in lk s)"
  by (simp add: calm_def)

lemma calm_crit [simp]: "cpu_ok s \<Longrightarrow> \<not> panicked s \<Longrightarrow> calm (crit s)"
  by (simp add: calm_def)

lemma calm_emits [simp]: "calm s \<Longrightarrow> calm (emits bs s)"
  by (metis calm_def emits_simps(1,2,4))

lemma calmD: "calm s \<Longrightarrow> cpu_ok s" "calm s \<Longrightarrow> \<not> panicked s" "calm s \<Longrightarrow> crit (emits bs s) = emits bs s"
  by (auto simp: calm_def) (metis emits_simps(4))

lemma consputc_calm:
  assumes "calm s" and "0 \<le> c" and "c < 256"
  shows "consputc c s = ret () (emits [word_of_int c] s)"
  using assms calmD(1,2) [of s] calmD(3) [of s "[word_of_int c]"] by (simp add: consputc_def BACKSPACE_def)

lemma consputc_backspace:
  "calm s \<Longrightarrow> consputc BACKSPACE s = ret () (emits [8, 32, 8] s)"
  using calmD(1,2) [of s] calmD(3) [of s "[8, 32, 8]"] by (simp add: consputc_def)

lemma cons_puts_calm: "calm s \<Longrightarrow> cons_puts cs s = ret () (emits (map of_char cs) s)"
  using cons_puts_eq [of s cs] calmD(1,2) [of s] calmD(3) [of s "map of_char cs"] by (cases "cs = []") simp_all

lemma cons_putb_calm: "calm s \<Longrightarrow> cons_putb bs s = ret () (emits (takeWhile (\<lambda>b. b \<noteq> 0) bs) s)"
proof (induction bs arbitrary: s)
  case Nil
  then show ?case by simp
next
  case (Cons b bs)
  have "uint b < 256" using unsigned_less [of b, where ?'a = int] by simp
  with Cons show ?case by (auto simp: consputc_calm)
qed

lemma printint_int_calm:
  assumes "calm s"
  shows "\<exists>bs. printint (scast (w :: uint)) 10 True s = ret () (emits bs s)"
proof -
  let ?x = "scast w :: uint64"
  have range: "- 2147483648 \<le> sint w" "sint w < 2147483648"
    using sint_greater_eq [of w] sint_less [of w] by simp_all
  have nat_word: "unat (word_of_int k :: uint64) = nat k" if "0 \<le> k" "k < 2 ^ 64" for k
    using that by (simp add: unsigned_of_int take_bit_int_eq_self)
  have "bit ?x 63 \<longleftrightarrow> bit w 31" by (simp add: bit_simps)
  then have "?x <s 0 \<longleftrightarrow> sint w < 0"
    using bit_last_iff [of w] bit_last_iff [of ?x] by (simp add: word_sless_alt)
  moreover have "unat (- ?x) = nat (- sint w)" if "sint w < 0"
  proof -
    have "- ?x = word_of_int (- sint w)" by simp
    then show ?thesis using that range nat_word [of "- sint w"] by simp
  qed
  moreover have "unat ?x = nat (sint w)" if "\<not> sint w < 0"
    using that range nat_word [of "sint w"] by simp
  ultimately have "magnitude ?x True \<le> 2147483648"
    using range by (simp add: magnitude_def is_neg_def nat_le_iff)
  then have "length (dig 10 (magnitude ?x True)) \<le> 15"
    using length_dig_le [of 10 "magnitude ?x True" 14] by simp
  then have "length (dig 10 (magnitude ?x True)) \<le> (if is_neg ?x True then 15 else 16)" by simp
  then obtain b where "printint_chars ?x 10 True = Inr b"
    using printint_chars_eq [of 10 ?x True] by (simp add: Let_def)
  then show ?thesis
    using cons_puts_calm [OF assms, of "rev b"] by (auto simp: printint_def)
qed

text \<open>What the loop prints, \<^verbatim>\<open>printf\<close> prints, with or without the lock.\<close>

lemma printf_calm:
  assumes "calm s" and "lock_free PrLock s" and loop: "\<And>t. calm t \<Longrightarrow> \<exists>bs. printf_loop (length fmt) fmt ap t = ret () (emits bs t)"
  shows "\<exists>bs. printf fmt ap s = ret 0 (emits bs s)"
proof (cases "pr_locking s")
  case True
  have "calm (locked_in PrLock s)" using assms(1) by (simp add: calmD)
  then obtain bs where "printf_loop (length fmt) fmt ap (locked_in PrLock s) = ret () (locked_in PrLock (emits bs s))"
    using loop by fastforce
  then have "printf fmt ap s = ret 0 (crit (emits bs s))" using True assms(1,2) by (simp add: printf_def calmD)
  then show ?thesis using calmD(3) [OF assms(1)] by metis
next
  case False
  with loop [OF assms(1)] show ?thesis by (auto simp: printf_def)
qed

lemma printf_procdump_calm:
  assumes "calm s" and "lock_free PrLock s"
  shows "\<exists>bs. printf ''%d %s %s'' [Reg r, Str (Some a), Str (Some b)] s = ret 0 (emits bs s)"
proof (rule printf_calm [OF assms])
  fix t
  assume t: "calm t"
  obtain bs where bs: "printint (scast (ucast r :: uint)) 10 True t = ret () (emits bs t)"
    using printint_int_calm [OF t] by blast
  let ?out = "bs @ [32] @ takeWhile (\<lambda>b. b \<noteq> 0) a @ [32] @ takeWhile (\<lambda>b. b \<noteq> 0) b"
  have sp: "consputc 32 u = ret () (emits [32] u)" if "calm u" for u
    using consputc_calm [OF that, of 32] by simp
  have "printf_loop (length ''%d %s %s'') ''%d %s %s'' [Reg r, Str (Some a), Str (Some b)] t = ret () (emits ?out t)"
    using t bs by (simp add: numeral_eq_Suc fmt_at_def conv_def Let_def sp cons_putb_calm)
  then show "\<exists>bs. printf_loop (length ''%d %s %s'') ''%d %s %s'' [Reg r, Str (Some a), Str (Some b)] t = ret () (emits bs t)" by blast
qed

section \<open>Properties\<close>


text \<open>
  C27: The 16 bytes of \<^verbatim>\<open>buf\<close> in \<^verbatim>\<open>printint\<close> are too few: a number with more digits is stored past the
  end of the array. In base 10 this happens exactly from \<open>10 ^ 16\<close> on, or from \<open>10 ^ 15\<close> on for a
  negative number; in base 16 no unsigned number overruns.
\<close>

theorem printint_overruns_iff:
  assumes "cpu_ok s" and "\<not> panicked s" and "base = 10 \<or> base = 16"
  shows "printint xx base sign s = Inl Overrun \<longleftrightarrow>
    \<not> (magnitude xx sign < unat base ^ (if is_neg xx sign then 15 else 16))" (is "_ \<longleftrightarrow> \<not> ?fits")
proof -
  let ?ds = "dig (unat base) (magnitude xx sign)"
  have base: "2 \<le> unat base" using assms(3) by auto
  have fits: "?fits \<longleftrightarrow> length ?ds \<le> (if is_neg xx sign then 15 else 16)"
    using length_dig_le [OF base, of "magnitude xx sign" 14] length_dig_le [OF base, of "magnitude xx sign" 15] by simp
  have no: "cons_puts (rev (map digit ?ds @ m)) s \<noteq> Inl Overrun" for m
    using cons_puts_eq [OF assms(1,2), of "rev (map digit ?ds @ m)"] by simp
  show ?thesis
    unfolding fits printint_def printint_chars_eq [OF base] using no [of "''-''"] no [of "[]"]
    by (simp add: Let_def del: cons_puts.simps)
qed

section \<open>An overrun reached from a format\<close>

text \<open>
  \<^verbatim>\<open>%u\<close> takes an \<^verbatim>\<open>int\<close>, which is sign-extended to 64 bits: from \<open>2 ^ 31\<close> on its 20 digits do not fit.
\<close>

lemma unat_drop_bit: "unat (drop_bit k v) = unat v div 2 ^ k" for k and v :: "'a::len word"
proof -
  have "unat (drop_bit k v) = drop_bit k (unat v)"
    by (rule bit_eqI) (auto simp: bit_simps dest: bit_imp_le_length)
  then show ?thesis by (simp only: drop_bit_eq_div)
qed
lemma scast_top:
  assumes "0x80000000 \<le> (w :: 32 word)" 
  shows "(18446744071562067968 :: 64 word) \<le> scast w"
proof -
  have "2147483648 \<le> unat w" using assms by (simp add: word_le_nat_alt)
  moreover have "unat w < 2 ^ 32" using unsigned_less [of w, where ?'a = nat] by simp
  ultimately have "unat (drop_bit 31 w) = 1" unfolding unat_drop_bit by simp
  then have "drop_bit 31 w = 1" by (metis unsigned_1 unsigned_word_eqI)
  then have b: "bit w 31" by (simp add: bit_iff_odd_drop_bit)
  have "drop_bit 31 (scast w :: 64 word) = mask 33"
    using b by (intro bit_word_eqI) (auto simp: bit_simps min_def not_le)
  then have "unat (scast w :: 64 word) div 2 ^ 31 = unat (mask 33 :: 64 word)"
    by (metis unat_drop_bit) 
  then have "unat (scast w :: 64 word) div 2 ^ 31 = 8589934591" by (simp add: mask_eq_exp_minus_1)
  then show ?thesis by (simp add: word_le_nat_alt)
qed

lemma printf_u_overruns:
  assumes "0x80000000 \<le> (ucast r :: uint)" and "\<not> pr_locking s"
  shows "printf ''%u'' [Reg r] s = Inl Overrun"
proof -
  let ?x = "scast (ucast r :: uint) :: uint64"
  have "(18446744071562067968 :: uint64) \<le> ?x"
    using assms(1) by (rule scast_top)
  then have "\<not> unat ?x < 10 ^ 16" by (simp add: word_le_nat_alt)
  then have "\<not> length (dig (unat (10 :: uint64)) (unat ?x)) \<le> 16"
    using length_dig_le [of "unat (10 :: uint64)" "unat ?x" 15] by simp
  then have "printint ?x 10 False s = Inl Overrun"
    using printint_chars_eq [of 10 ?x False] by (simp add: printint_def Let_def is_neg_def magnitude_def)
  with assms(2) show ?thesis
    by (simp add: printf_def fmt_at_def conv_def Let_def)
qed

section \<open>Witnesses\<close>


theorem printint_overruns_iff_witness:
  "printint 10000000000000000 10 False sample_procs = Inl Overrun"
proof -
  have "\<not> panicked sample_procs" by (simp add: sample_procs_def kstate0_def)
  then show ?thesis
    using printint_overruns_iff [of sample_procs 10 10000000000000000 False]
    by (simp add: magnitude_def is_neg_def)
qed

end
