(* ===== verification/Console.thy ===== *)
theory Console
  imports Printf
begin

text \<open>
  \<^verbatim>\<open>kernel/console.c\<close>, with \<^verbatim>\<open>procdump\<close> of \<^verbatim>\<open>kernel/proc.c\<close> and \<^verbatim>\<open>uartintr\<close> of
  \<^verbatim>\<open>kernel/uart.c\<close>, through which it is entered. The input ring holds the bytes between the
  indices \<open>r\<close> (next to read), \<open>w\<close> (end of the finished lines) and \<open>e\<close> (end of the line being
  edited), which wrap around at 32 bits.
\<close>

section \<open>Operations\<close>

definition INPUT_BUF_SIZE :: uint where "INPUT_BUF_SIZE = 128"

definition CONSOLE :: int where "CONSOLE = 1"

definition Ctrl :: "char \<Rightarrow> int" where
  "Ctrl x = of_char x - of_char CHR ''@''"

fun state_name :: "procstate \<Rightarrow> string" where
  "state_name UNUSED = ''unused''"
| "state_name USED = ''used''"
| "state_name SLEEPING = ''sleep ''"
| "state_name RUNNABLE = ''runble''"
| "state_name RUNNING = ''run   ''"
| "state_name ZOMBIE = ''zombie''"

primrec procdump_from :: "nat \<Rightarrow> nat \<Rightarrow> kstate \<Rightarrow> unit kres" where
  "procdump_from 0 i s = ret () s"
| "procdump_from (Suc n) i s =
    (let p = procs s i
     in if p_state p = UNUSED then procdump_from n (i + 1) s
        else
          bindE (printf ''%d %s %s'' [Reg (word_of_int (p_pid p)),
              Str (Some (map of_char (state_name (p_state p)))), Str (Some (p_name p))] s) (\<lambda>_ s.
          bindE (printf [CHR 0x0A] [] s) (\<lambda>_ s. procdump_from n (i + 1) s)))"

definition procdump :: "kstate \<Rightarrow> unit kres" where
  "procdump s = bindE (printf [CHR 0x0A] [] s) (\<lambda>_ s. procdump_from NPROC 0 s)"

text \<open>\<open>consolewrite_from m i\<close>: the loop from \<open>i\<close> on, with \<open>m\<close> bytes left.\<close>

primrec consolewrite_from :: "nat \<Rightarrow> nat \<Rightarrow> bool \<Rightarrow> uint64 \<Rightarrow> kstate \<Rightarrow> int kres" where
  "consolewrite_from 0 i user_src src s = ret (int i) s"
| "consolewrite_from (Suc m) i user_src src s =
    bindE (either_copyin user_src (src + of_nat i) 1 s) (\<lambda>(r, c) s.
    if r = -1 then ret (int i) s
    else bindE (uartputc (uint (hd c)) s) (\<lambda>_ s. consolewrite_from m (i + 1) user_src src s))"

definition consolewrite :: "bool \<Rightarrow> uint64 \<Rightarrow> int \<Rightarrow> kstate \<Rightarrow> int kres" where
  "consolewrite user_src src n s = consolewrite_from (nat n) 0 user_src src s"

text \<open>
  The loop of \<^verbatim>\<open>consoleread\<close> with \<open>n\<close> bytes wanted of \<open>target\<close>. With no input the process
  sleeps, and the call resumes at this loop with the same \<open>n\<close>.
\<close>

primrec consoleread_loop :: "nat \<Rightarrow> int \<Rightarrow> bool \<Rightarrow> uint64 \<Rightarrow> kstate \<Rightarrow> int kres" where
  "consoleread_loop 0 target user_dst dst s =
    bindE (release ConsLock s) (\<lambda>_ s. ret target s)"
| "consoleread_loop (Suc k) target user_dst dst s =
    (if cons_r (cons s) = cons_w (cons s) then
       bindE (curproc s) (\<lambda>p s.
       bindE (killed p s) (\<lambda>dead s.
       if dead \<noteq> 0 then bindE (release ConsLock s) (\<lambda>_ s. ret (-1) s)
       else sleep ChanConsR ConsLock (int (Suc k)) s))
     else
       let n = int (Suc k);
           c = cons_buf (cons s) (unat (cons_r (cons s) mod INPUT_BUF_SIZE));
           s = s\<lparr>cons := (cons s)\<lparr>cons_r := cons_r (cons s) + 1\<rparr>\<rparr>
       in if uint c = Ctrl CHR ''D'' then
            let s = (if n < target then s\<lparr>cons := (cons s)\<lparr>cons_r := cons_r (cons s) - 1\<rparr>\<rparr> else s)
            in bindE (release ConsLock s) (\<lambda>_ s. ret (target - n) s)
          else
            bindE (either_copyout user_dst dst [c] 1 s) (\<lambda>r s.
            if r = -1 then bindE (release ConsLock s) (\<lambda>_ s. ret (target - n) s)
            else if c = 10 then bindE (release ConsLock s) (\<lambda>_ s. ret (target - (n - 1)) s)
            else consoleread_loop k target user_dst (dst + 1) s))"

definition consoleread :: "bool \<Rightarrow> uint64 \<Rightarrow> int \<Rightarrow> kstate \<Rightarrow> int kres" where
  "consoleread user_dst dst n s =
    bindE (acquire ConsLock s) (\<lambda>_ s.
    if n \<le> 0 then bindE (release ConsLock s) (\<lambda>_ s. ret 0 s)
    else consoleread_loop (nat n) n user_dst dst s)"

text \<open>The kill-line loop: it ends at \<open>w\<close>, so \<open>e - w\<close> bounds its rounds.\<close>

primrec kill_line :: "nat \<Rightarrow> kstate \<Rightarrow> unit kres" where
  "kill_line 0 s = ret () s"
| "kill_line (Suc n) s =
    (if cons_e (cons s) \<noteq> cons_w (cons s)
        \<and> cons_buf (cons s) (unat ((cons_e (cons s) - 1) mod INPUT_BUF_SIZE)) \<noteq> 10
     then
       let s = s\<lparr>cons := (cons s)\<lparr>cons_e := cons_e (cons s) - 1\<rparr>\<rparr>
       in bindE (consputc BACKSPACE s) (\<lambda>_ s. kill_line n s)
     else ret () s)"

definition cons_erase :: "kstate \<Rightarrow> unit kres" where
  "cons_erase s =
    (if cons_e (cons s) \<noteq> cons_w (cons s)
     then
       let s = s\<lparr>cons := (cons s)\<lparr>cons_e := cons_e (cons s) - 1\<rparr>\<rparr>
       in consputc BACKSPACE s
     else ret () s)"

definition cons_input :: "int \<Rightarrow> kstate \<Rightarrow> unit kres" where
  "cons_input c s =
    (if c \<noteq> 0 \<and> cons_e (cons s) - cons_r (cons s) < INPUT_BUF_SIZE
     then
       let c = (if c = 13 then 10 else c)
       in bindE (consputc c s) (\<lambda>_ s.
          let s = s\<lparr>cons := (cons s)\<lparr>cons_buf := (cons_buf (cons s))
                 (unat (cons_e (cons s) mod INPUT_BUF_SIZE) := word_of_int c),
                 cons_e := cons_e (cons s) + 1\<rparr>\<rparr>
          in if c = 10 \<or> c = Ctrl CHR ''D'' \<or> cons_e (cons s) - cons_r (cons s) = INPUT_BUF_SIZE
             then
               let s = s\<lparr>cons := (cons s)\<lparr>cons_w := cons_e (cons s)\<rparr>\<rparr>
               in wakeup (Some ChanConsR) s
             else ret () s)
     else ret () s)"

definition consoleintr :: "int \<Rightarrow> kstate \<Rightarrow> unit kres" where
  "consoleintr c s =
    bindE (acquire ConsLock s) (\<lambda>_ s.
    bindE (if c = Ctrl CHR ''P'' then procdump s
           else if c = Ctrl CHR ''U'' then kill_line (unat (cons_e (cons s) - cons_w (cons s))) s
           else if c = Ctrl CHR ''H'' \<or> c = 0x7f then cons_erase s
           else cons_input c s) (\<lambda>_ s.
    release ConsLock s))"

definition consoleinit :: "kstate \<Rightarrow> kstate" where
  "consoleinit s =
    (let s = initlock ConsLock ''cons'' s;
         s = uartinit s
     in s\<lparr>devsw := (devsw s)(CONSOLE := (True, True))\<rparr>)"

text \<open>The input loop of \<^verbatim>\<open>uartintr\<close> reads one byte a round.\<close>

primrec uartintr_input :: "nat \<Rightarrow> kstate \<Rightarrow> unit kres" where
  "uartintr_input 0 s = Inl Forever"
| "uartintr_input (Suc n) s =
    bindE (uartgetc s) (\<lambda>c s.
    if c = -1 then ret () s else bindE (consoleintr c s) (\<lambda>_ s. uartintr_input n s))"

definition uartintr :: "kstate \<Rightarrow> unit kres" where
  "uartintr s =
    bindE (uartintr_input (Suc (length (uart_in s))) s) (\<lambda>_ s.
    bindE (acquire UartTxLock s) (\<lambda>_ s.
    bindE (uartstart s) (\<lambda>_ s. release UartTxLock s)))"

section \<open>The input line\<close>

interpretation inp: ring INPUT_BUF_SIZE
  by unfold_locales (rule exI [of _ 7], simp add: INPUT_BUF_SIZE_def)

text \<open>The finished lines that wait to be read, and the line being edited.\<close>

definition cons_lines :: "console \<Rightarrow> uchar list" where
  "cons_lines k = ring_list INPUT_BUF_SIZE (cons_buf k) (cons_r k) (cons_w k)"

definition cons_edit :: "console \<Rightarrow> uchar list" where
  "cons_edit k = ring_list INPUT_BUF_SIZE (cons_buf k) (cons_w k) (cons_e k)"

definition cons_inv :: "console \<Rightarrow> bool" where
  "cons_inv k \<longleftrightarrow> cons_w k - cons_r k \<le> cons_e k - cons_r k \<and> cons_e k - cons_r k \<le> INPUT_BUF_SIZE \<and>
    10 \<notin> set (cons_edit k)"

text \<open>What the console does with an input byte, on the two lists.\<close>

definition cons_step :: "int \<Rightarrow> uchar list \<times> uchar list \<Rightarrow> uchar list \<times> uchar list" where
  "cons_step c = (\<lambda>(done, edit).
    if c = Ctrl CHR ''P'' then (done, edit)
    else if c = Ctrl CHR ''U'' then (done, [])
    else if c = Ctrl CHR ''H'' \<or> c = 0x7f then (done, butlast edit)
    else if c = 0 \<or> length (done @ edit) \<ge> 128 then (done, edit)
    else
      let b = (if c = 13 then 10 else word_of_int c)
      in if b = 10 \<or> b = 4 \<or> length (done @ edit @ [b]) = 128 then (done @ edit @ [b], [])
         else (done, edit @ [b]))"

lemma Ctrl_values: "Ctrl CHR ''P'' = 0x10" "Ctrl CHR ''U'' = 0x15" "Ctrl CHR ''H'' = 8" "Ctrl CHR ''D'' = 4"
  by (simp_all add: Ctrl_def)

lemma cons_inv_lengths:
  assumes "cons_inv k"
  shows "unat (cons_e k - cons_r k) = length (cons_lines k) + length (cons_edit k)"
    and "length (cons_lines k) + length (cons_edit k) \<le> 128"
proof -
  have "ring_list INPUT_BUF_SIZE (cons_buf k) (cons_r k) (cons_e k) = cons_lines k @ cons_edit k"
    using assms ring_list_append [of "cons_w k" "cons_r k" "cons_e k"]
    by (simp add: cons_inv_def cons_lines_def cons_edit_def)
  from arg_cong [OF this, of length]
  show eq: "unat (cons_e k - cons_r k) = length (cons_lines k) + length (cons_edit k)" by simp
  have "unat (cons_e k - cons_r k) \<le> unat INPUT_BUF_SIZE"
    using assms by (simp add: cons_inv_def word_le_nat_alt)
  with eq show "length (cons_lines k) + length (cons_edit k) \<le> 128" by (simp add: INPUT_BUF_SIZE_def)
qed

lemma cons_edit_nonempty: "cons_e k \<noteq> cons_w k \<longleftrightarrow> cons_edit k \<noteq> []"
  by (auto simp: cons_edit_def ring_list_empty_iff)

text \<open>Taking back the last byte of the edited line.\<close>

lemma cons_erase_view:
  assumes "cons_inv k" and "cons_e k \<noteq> cons_w k"
  shows "cons_inv (k\<lparr>cons_e := cons_e k - 1\<rparr>)"
    and "cons_lines (k\<lparr>cons_e := cons_e k - 1\<rparr>) = cons_lines k"
    and "cons_edit (k\<lparr>cons_e := cons_e k - 1\<rparr>) = butlast (cons_edit k)"
    and "cons_buf k (unat ((cons_e k - 1) mod INPUT_BUF_SIZE)) = last (cons_edit k)"
proof -
  have snoc: "cons_edit k = cons_edit (k\<lparr>cons_e := cons_e k - 1\<rparr>) @
      [cons_buf k (unat ((cons_e k - 1) mod INPUT_BUF_SIZE))]"
    using ring_list_snoc [OF assms(2)] by (simp add: cons_edit_def)
  then show "cons_edit (k\<lparr>cons_e := cons_e k - 1\<rparr>) = butlast (cons_edit k)"
    and "cons_buf k (unat ((cons_e k - 1) mod INPUT_BUF_SIZE)) = last (cons_edit k)"
    by (metis butlast_snoc, metis last_snoc)
  show "cons_lines (k\<lparr>cons_e := cons_e k - 1\<rparr>) = cons_lines k" by (simp add: cons_lines_def)
  have len: "unat (cons_e k - cons_r k) = length (cons_lines k) + length (cons_edit k)"
    "length (cons_lines k) + length (cons_edit k) \<le> 128"
    using cons_inv_lengths [OF assms(1)] by simp_all
  have ne: "cons_edit k \<noteq> []" using assms(2) by (simp add: cons_edit_nonempty)
  then have "cons_e k - cons_r k \<noteq> 0" using len(1) by (metis add_is_0 length_0_conv unsigned_0)
  then have "unat (cons_e k - cons_r k - 1) = unat (cons_e k - cons_r k) - 1" by (rule unat_minus_one)
  moreover have "cons_e k - cons_r k - 1 = cons_e k - 1 - cons_r k" by simp
  ultimately have e: "unat (cons_e k - 1 - cons_r k) = length (cons_lines k) + length (cons_edit k) - 1"
    using len(1) by metis
  have w: "unat (cons_w k - cons_r k) = length (cons_lines k)" by (simp add: cons_lines_def)
  have "10 \<notin> set (cons_edit k)" using assms(1) by (simp add: cons_inv_def)
  then have nl: "10 \<notin> set (cons_edit (k\<lparr>cons_e := cons_e k - 1\<rparr>))"
    using snoc by (metis Un_iff set_append)
  have "0 < length (cons_edit k)" using ne by simp
  then have "unat (cons_w k - cons_r k) \<le> unat (cons_e k - 1 - cons_r k)"
    and "unat (cons_e k - 1 - cons_r k) \<le> 128"
    using e w len(2) by linarith+
  with nl show "cons_inv (k\<lparr>cons_e := cons_e k - 1\<rparr>)"
    by (simp add: cons_inv_def word_le_nat_alt INPUT_BUF_SIZE_def)
qed

text \<open>Storing a byte at the end of the edited line, and finishing the line.\<close>

definition cons_store :: "uchar \<Rightarrow> console \<Rightarrow> console" where
  "cons_store b k = k\<lparr>cons_buf := (cons_buf k)(unat (cons_e k mod INPUT_BUF_SIZE) := b), cons_e := cons_e k + 1\<rparr>"

lemma cons_store_view:
  assumes "cons_inv k" and "unat (cons_e k - cons_r k) < 128"
  shows "cons_lines (cons_store b k) = cons_lines k"
    and "cons_edit (cons_store b k) = cons_edit k @ [b]"
    and "unat (cons_e (cons_store b k) - cons_r k) = Suc (unat (cons_e k - cons_r k))"
proof -
  have sz: "unat INPUT_BUF_SIZE = 128" by (simp add: INPUT_BUF_SIZE_def)
  have w: "cons_w k - cons_r k \<le> cons_e k - cons_r k" using assms(1) by (simp add: cons_inv_def)
  show "cons_lines (cons_store b k) = cons_lines k"
    using inp.put_other [of "cons_e k" "cons_r k" "cons_w k"] assms(2) w
    by (simp add: cons_lines_def cons_store_def sz)
  have "length (cons_edit k) < 128" using cons_inv_lengths(1) [OF assms(1)] assms(2) by simp
  then show "cons_edit (cons_store b k) = cons_edit k @ [b]"
    using inp.put [of "cons_e k" "cons_w k"] by (simp add: cons_edit_def cons_store_def sz)
  have "unat ((cons_e k - cons_r k) + 1) = Suc (unat (cons_e k - cons_r k))"
    using assms(2) by (simp add: unat_word_ariths)
  moreover have "(cons_e k - cons_r k) + 1 = cons_e k + 1 - cons_r k" by simp
  ultimately show "unat (cons_e (cons_store b k) - cons_r k) = Suc (unat (cons_e k - cons_r k))"
    unfolding cons_store_def by simp
qed

lemma cons_store_inv:
  assumes "cons_inv k" and "unat (cons_e k - cons_r k) < 128"
  shows "b \<noteq> 10 \<Longrightarrow> cons_inv (cons_store b k)"
    and "cons_inv ((cons_store b k)\<lparr>cons_w := cons_e (cons_store b k)\<rparr>)"
    and "cons_lines ((cons_store b k)\<lparr>cons_w := cons_e (cons_store b k)\<rparr>) = cons_lines k @ cons_edit k @ [b]"
    and "cons_edit ((cons_store b k)\<lparr>cons_w := cons_e (cons_store b k)\<rparr>) = []"
proof -
  note v = cons_store_view [OF assms, of b]
  have r: "cons_r (cons_store b k) = cons_r k" "cons_w (cons_store b k) = cons_w k"
    by (simp_all add: cons_store_def)
  have w: "unat (cons_w k - cons_r k) \<le> unat (cons_e k - cons_r k)"
    using assms(1) by (simp add: cons_inv_def word_le_nat_alt)
  show "cons_inv (cons_store b k)" if "b \<noteq> 10"
    using assms v w that by (simp add: cons_inv_def r word_le_nat_alt INPUT_BUF_SIZE_def)
  show e: "cons_edit ((cons_store b k)\<lparr>cons_w := cons_e (cons_store b k)\<rparr>) = []"
    by (simp add: cons_edit_def ring_list_empty_iff)
  show "cons_inv ((cons_store b k)\<lparr>cons_w := cons_e (cons_store b k)\<rparr>)"
    using assms(2) v(3) e by (simp add: cons_inv_def r word_le_nat_alt INPUT_BUF_SIZE_def)
  have "cons_w (cons_store b k) - cons_r (cons_store b k) \<le> cons_e (cons_store b k) - cons_r (cons_store b k)"
    using v(3) w by (simp add: r word_le_nat_alt)
  from ring_list_append [OF this, of INPUT_BUF_SIZE "cons_buf (cons_store b k)"]
  show "cons_lines ((cons_store b k)\<lparr>cons_w := cons_e (cons_store b k)\<rparr>) = cons_lines k @ cons_edit k @ [b]"
    using v(1,2) by (simp add: cons_lines_def cons_edit_def)
qed

section \<open>The handler\<close>

lemma printf_newline_calm:
  assumes "calm s" and "lock_free PrLock s"
  shows "printf [CHR 0x0A] [] s = ret 0 (emits [10] s)"
proof -
  have put: "consputc 10 t = ret () (emits [10] t)" if "calm t" for t
    using consputc_calm [OF that, of 10] by simp
  have "calm (locked_in PrLock s)" using assms(1) by (simp add: calmD)
  with assms put calmD(3) [OF assms(1), of "[10]"] show ?thesis
    by (simp add: printf_def fmt_at_def Let_def calmD)
qed

lemma procdump_calm:
  assumes "calm s" and "lock_free PrLock s"
  shows "\<exists>bs. procdump s = ret () (emits bs s)"
proof -
  have "\<exists>bs. procdump_from n i t = ret () (emits bs t)" if "calm t" "lock_free PrLock t" for n i t
    using that
  proof (induction n arbitrary: i t)
    case 0
    have "procdump_from 0 i t = ret () (emits [] t)" by simp
    then show ?case by blast
  next
    case (Suc n)
    obtain bs where bs: "printf ''%d %s %s'' [Reg (word_of_int (p_pid (procs t i))),
        Str (Some (map of_char (state_name (p_state (procs t i))))), Str (Some (p_name (procs t i)))] t =
        ret 0 (emits bs t)"
      using printf_procdump_calm [OF Suc.prems] by blast
    let ?t = "emits (bs @ [10]) t"
    have "calm ?t" and "lock_free PrLock ?t" using Suc.prems by (simp_all only: calm_emits emits_simps)
    then obtain bs' where bs': "procdump_from n (i + 1) ?t = ret () (emits bs' ?t)"
      using Suc.IH [of ?t "i + 1"] by blast
    obtain bs'' where "procdump_from n (i + 1) t = ret () (emits bs'' t)"
      using Suc.IH [OF Suc.prems, of "i + 1"] by blast
    moreover have "p_state (procs t i) \<noteq> UNUSED \<Longrightarrow> procdump_from (Suc n) i t = ret () (emits (bs @ [10] @ bs') t)"
      using bs bs' Suc.prems printf_newline_calm [of "emits bs t"] by (simp add: Let_def)
    moreover have "p_state (procs t i) = UNUSED \<Longrightarrow> procdump_from (Suc n) i t = procdump_from n (i + 1) t"
      by simp
    ultimately show ?case by metis
  qed
  then obtain bs where "procdump_from NPROC 0 (emits [10] s) = ret () (emits bs (emits [10] s))"
    using assms by (metis calm_emits emits_simps(3))
  then have "procdump s = ret () (emits ([10] @ bs) s)"
    using printf_newline_calm [OF assms] by (simp add: procdump_def)
  then show ?thesis by blast
qed

lemma calm_cons [simp]: "calm s \<Longrightarrow> calm (s\<lparr>cons := k\<rparr>)"
proof -
  assume s: "calm s"
  have "crit (s\<lparr>cons := k\<rparr>) = crit s\<lparr>cons := k\<rparr>" by simp
  also have "\<dots> = s\<lparr>cons := k\<rparr>" using s by (simp only: calm_def)
  finally show ?thesis using s by (simp add: calm_def)
qed

lemma calm_procs [simp]: "calm s \<Longrightarrow> calm (s\<lparr>procs := ps\<rparr>)"
proof -
  assume s: "calm s"
  have "crit (s\<lparr>procs := ps\<rparr>) = crit s\<lparr>procs := ps\<rparr>" by simp
  also have "\<dots> = s\<lparr>procs := ps\<rparr>" using s by (simp only: calm_def)
  finally show ?thesis using s by (simp add: calm_def)
qed

lemma kill_line_calm:
  assumes "calm s" and "cons_inv (cons s)" and "n = length (cons_edit (cons s))"
  shows "\<exists>bs. kill_line n s = ret () (emits bs (s\<lparr>cons := (cons s)\<lparr>cons_e := cons_w (cons s)\<rparr>\<rparr>))"
  using assms
proof (induction n arbitrary: s)
  case 0
  then have "cons_e (cons s) = cons_w (cons s)" using cons_edit_nonempty [of "cons s"] by simp
  then have "s = s\<lparr>cons := (cons s)\<lparr>cons_e := cons_w (cons s)\<rparr>\<rparr>"
    by (intro kstate.equality console.equality) simp_all
  then have "kill_line 0 s = ret () (emits [] (s\<lparr>cons := (cons s)\<lparr>cons_e := cons_w (cons s)\<rparr>\<rparr>))" by simp
  then show ?case by blast
next
  case (Suc n)
  let ?k = "cons s" and ?s = "s\<lparr>cons := (cons s)\<lparr>cons_e := cons_e (cons s) - 1\<rparr>\<rparr>"
  have ne: "cons_edit ?k \<noteq> []" using Suc.prems(3) by auto
  then have e: "cons_e ?k \<noteq> cons_w ?k" by (simp add: cons_edit_nonempty)
  note v = cons_erase_view [OF Suc.prems(2) e]
  have "last (cons_edit ?k) \<noteq> 10"
    using Suc.prems(2) last_in_set [OF ne] by (metis cons_inv_def)
  then have step: "kill_line (Suc n) s = kill_line n (emits [8, 32, 8] ?s)"
    using e v(4) Suc.prems(1) consputc_backspace [of ?s] by (simp add: Let_def)
  have "\<exists>bs. kill_line n (emits [8, 32, 8] ?s) =
      ret () (emits bs ((emits [8, 32, 8] ?s)\<lparr>cons := (cons (emits [8, 32, 8] ?s))\<lparr>cons_e :=
        cons_w (cons (emits [8, 32, 8] ?s))\<rparr>\<rparr>))"
    using Suc.prems v by (intro Suc.IH) simp_all
  then obtain bs where "kill_line n (emits [8, 32, 8] ?s) =
      ret () (emits ([8, 32, 8] @ bs) (s\<lparr>cons := (cons s)\<lparr>cons_e := cons_w (cons s)\<rparr>\<rparr>))"
    by auto
  with step show ?case by metis
qed

text \<open>What each branch of \<^verbatim>\<open>consoleintr\<close> leaves behind.\<close>

definition cons_view :: "console \<Rightarrow> uchar list \<times> uchar list" where
  "cons_view k = (cons_lines k, cons_edit k)"

definition cons_done :: "int \<Rightarrow> kstate \<Rightarrow> unit kres \<Rightarrow> bool" where
  "cons_done c s r \<longleftrightarrow> (\<exists>bs k ps. r = ret () (emits bs (s\<lparr>cons := k, procs := ps\<rparr>)) \<and> cons_inv k \<and>
    cons_view k = cons_step c (cons_view (cons s)))"

lemma cons_doneI:
  assumes "r = ret () (emits bs (s\<lparr>cons := k\<rparr>))" and "cons_inv k"
    and "cons_view k = cons_step c (cons_view (cons s))"
  shows "cons_done c s r"
proof -
  have "s\<lparr>cons := k\<rparr> = s\<lparr>cons := k, procs := procs s\<rparr>" by (rule kstate.equality) simp_all
  then show ?thesis using assms unfolding cons_done_def by metis
qed

lemma cons_done_same:
  assumes "r = ret () (emits bs s)" and "cons_inv (cons s)"
    and "cons_view (cons s) = cons_step c (cons_view (cons s))"
  shows "cons_done c s r"
proof -
  have "s = s\<lparr>cons := cons s\<rparr>" by (rule kstate.equality) simp_all
  then show ?thesis using assms cons_doneI by metis
qed

lemma procdump_done:
  assumes "calm s" and "lock_free PrLock s" and "cons_inv (cons s)"
  shows "cons_done 0x10 s (procdump s)"
proof -
  obtain bs where "procdump s = ret () (emits bs s)" using procdump_calm assms by blast
  then show ?thesis using assms(3)
    by (rule cons_done_same) (simp add: cons_step_def Ctrl_values split: prod.split)
qed

lemma kill_line_done:
  assumes "calm s" and "cons_inv (cons s)"
  shows "cons_done 0x15 s (kill_line (unat (cons_e (cons s) - cons_w (cons s))) s)"
proof -
  let ?k = "(cons s)\<lparr>cons_e := cons_w (cons s)\<rparr>"
  obtain bs where bs: "kill_line (unat (cons_e (cons s) - cons_w (cons s))) s = ret () (emits bs (s\<lparr>cons := ?k\<rparr>))"
    using kill_line_calm [OF assms, of "unat (cons_e (cons s) - cons_w (cons s))"] by (auto simp: cons_edit_def)
  have e: "cons_edit ?k = []" by (simp add: cons_edit_def ring_list_empty_iff)
  have l: "cons_lines ?k = cons_lines (cons s)" by (simp add: cons_lines_def)
  have "cons_inv ?k" using assms(2) e by (auto simp: cons_inv_def)
  with bs show ?thesis
    by (rule cons_doneI) (simp add: cons_view_def e l cons_step_def Ctrl_values)
qed

lemma cons_erase_done:
  assumes "calm s" and "cons_inv (cons s)" and "c = 8 \<or> c = 0x7f"
  shows "cons_done c s (cons_erase s)"
proof (cases "cons_e (cons s) = cons_w (cons s)")
  case True
  then have "cons_edit (cons s) = []" using cons_edit_nonempty by blast
  then have "cons_view (cons s) = cons_step c (cons_view (cons s))"
    using assms(3) by (auto simp: cons_view_def cons_step_def Ctrl_values)
  then show ?thesis using True assms(2) cons_done_same [of "cons_erase s" "[]"] by (simp add: cons_erase_def)
next
  case False
  let ?k = "(cons s)\<lparr>cons_e := cons_e (cons s) - 1\<rparr>"
  note v = cons_erase_view [OF assms(2) False]
  have "cons_erase s = ret () (emits [8, 32, 8] (s\<lparr>cons := ?k\<rparr>))"
    using False assms(1) consputc_backspace [of "s\<lparr>cons := ?k\<rparr>"] by (simp add: cons_erase_def)
  moreover have "cons_view ?k = cons_step c (cons_view (cons s))"
    using assms(3) v by (auto simp: cons_view_def cons_step_def Ctrl_values)
  ultimately show ?thesis using v(1) by (intro cons_doneI)
qed

lemma cons_input_done:
  assumes "calm s" and "proc_locks_free s" and "cons_inv (cons s)" and "0 \<le> c" and "c < 256"
    and "c \<notin> {8, 0x10, 0x15, 0x7f}"
  shows "cons_done c s (cons_input c s)"
proof (cases "c \<noteq> 0 \<and> cons_e (cons s) - cons_r (cons s) < INPUT_BUF_SIZE")
  case False
  then have "c = 0 \<or> length (cons_lines (cons s)) + length (cons_edit (cons s)) \<ge> 128"
    using cons_inv_lengths(1) [OF assms(3)] by (auto simp: word_less_nat_alt INPUT_BUF_SIZE_def)
  then have "cons_view (cons s) = cons_step c (cons_view (cons s))"
    using assms(6) by (auto simp: cons_view_def cons_step_def Ctrl_values)
  moreover have "cons_input c s = ret () (emits [] s)"
    using False unfolding cons_input_def by (subst if_not_P) simp_all
  ultimately show ?thesis using assms(3) cons_done_same by blast
next
  case True
  define d b where "d = (if c = 13 then 10 else c)" and "b = (word_of_int d :: uchar)"
  have b_if: "b = (if c = 13 then 10 else word_of_int c)" by (simp add: b_def d_def)
  let ?k = "cons_store b (cons s)" and ?n = "length (cons_lines (cons s)) + length (cons_edit (cons s))"
  let ?k' = "?k\<lparr>cons_w := cons_e ?k\<rparr>"
  have d: "0 \<le> d" "d < 256" using assms(4,5) by (auto simp: d_def)
  then have "uint b = d" by (simp add: b_def uint_word_of_int)
  then have b: "b = 10 \<longleftrightarrow> d = 10" "b = 4 \<longleftrightarrow> d = 4" by (simp_all add: word_uint_eq_iff)
  have room: "unat (cons_e (cons s) - cons_r (cons s)) < 128"
    using True by (simp add: word_less_nat_alt INPUT_BUF_SIZE_def)
  have n: "?n < 128" using cons_inv_lengths(1) [OF assms(3)] room by simp
  note v = cons_store_view [OF assms(3) room, of b] and i = cons_store_inv [OF assms(3) room, of b]
  have full: "cons_e ?k - cons_r (cons s) = INPUT_BUF_SIZE \<longleftrightarrow> Suc ?n = 128"
    using v(3) cons_inv_lengths(1) [OF assms(3)]
    by (simp add: word_unat_eq_iff INPUT_BUF_SIZE_def)
  let ?fin = "b = 10 \<or> b = 4 \<or> Suc ?n = 128"
  have "cons_input c s =
      (if d = 10 \<or> d = 4 \<or> cons_e ?k - cons_r (cons s) = INPUT_BUF_SIZE
       then wakeup (Some ChanConsR) (emits [b] (s\<lparr>cons := ?k'\<rparr>))
       else ret () (emits [b] (s\<lparr>cons := ?k\<rparr>)))"
    using True consputc_calm [OF assms(1) d]
    by (simp add: cons_input_def Let_def d_def [symmetric] b_def cons_store_def Ctrl_values)
  then have eq: "cons_input c s =
      (if ?fin then wakeup (Some ChanConsR) (emits [b] (s\<lparr>cons := ?k'\<rparr>))
       else ret () (emits [b] (s\<lparr>cons := ?k\<rparr>)))"
    using b full by simp
  have step: "cons_step c (cons_view (cons s)) =
      (if ?fin then (cons_lines (cons s) @ cons_edit (cons s) @ [b], [])
       else (cons_lines (cons s), cons_edit (cons s) @ [b]))"
    using True assms(6) n
    by (simp add: cons_view_def cons_step_def Ctrl_values Let_def b_if [symmetric] split del: if_split)
  show ?thesis
  proof (cases ?fin)
    case True
    define t where "t = emits [b] (s\<lparr>cons := ?k'\<rparr>)"
    have "calm t" "proc_locks_free t"
      using assms(1,2) by (simp_all add: t_def proc_locks_free_def)
    then obtain ps where "wakeup (Some ChanConsR) t = ret () (crit (t\<lparr>procs := ps\<rparr>))"
      using wakeup_eq calmD(1) by blast
    moreover have "calm (s\<lparr>cons := ?k', procs := ps\<rparr>)" using assms(1) by simp
    ultimately have "cons_input c s = ret () (emits [b] (s\<lparr>cons := ?k', procs := ps\<rparr>))"
      using eq True by (simp add: t_def calmD(3))
    moreover have "cons_view ?k' = cons_step c (cons_view (cons s))"
      using True i(3,4) step by (simp add: cons_view_def)
    ultimately show ?thesis using i(2) unfolding cons_done_def by blast
  next
    case False
    then have "cons_view ?k = cons_step c (cons_view (cons s))" and "cons_inv ?k"
      using v(1,2) i(1) step by (simp_all add: cons_view_def)
    then show ?thesis using eq False by (intro cons_doneI) simp_all
  qed
qed

text \<open>A console whose indices are about to wrap around, with \<^verbatim>\<open>hi\<close> typed.\<close>

definition sample_line :: kstate where
  "sample_line = sample_procs\<lparr>cons := \<lparr>cons_buf = (\<lambda>_. 0)(126 := 104, 127 := 105),
    cons_r = 0xfffffffe, cons_w = 0xfffffffe, cons_e = 0\<rparr>\<rparr>"

section \<open>Properties\<close>

text \<open>
  C7: The console's input ring refines the pair of byte lists (finished lines, line being edited).
  For every byte the interrupt handler \<^verbatim>\<open>consoleintr\<close> returns, keeps the ring's invariant (indices in
  order, at most 128 bytes, no newline in the edited line) and changes the two lists as line editing
  prescribes: control-U drops the edited line, backspace its last byte, newline, carriage return,
  control-D and a full buffer finish the line, nothing is stored in a full buffer. It holds for
  indices that have wrapped around at 32 bits.
\<close>

theorem consoleintr_refines:
  assumes "cpu_ok s" and "\<not> panicked s" and "lock_free ConsLock s" and "lock_free PrLock s"
    and "proc_locks_free s" and "cons_inv (cons s)" and "0 \<le> c" and "c < 256"
  shows "\<exists>s'. consoleintr c s = ret () s' \<and> cons_inv (cons s') \<and> lock_free ConsLock s' \<and>
    (cons_lines (cons s'), cons_edit (cons s')) = cons_step c (cons_lines (cons s), cons_edit (cons s))"
proof -
  define t where "t = locked_in ConsLock s"
  define r where "r = (if c = 0x10 then procdump t
      else if c = 0x15 then kill_line (unat (cons_e (cons t) - cons_w (cons t))) t
      else if c = 8 \<or> c = 0x7f then cons_erase t else cons_input c t)"
  have t: "calm t" "lock_free PrLock t" "proc_locks_free t" "cons_inv (cons t)"
    using assms by (simp_all add: t_def proc_locks_free_def)
  have "cons_done c t r"
    using procdump_done [OF t(1,2,4)] kill_line_done [OF t(1,4)] cons_erase_done [OF t(1,4), of c]
      cons_input_done [OF t(1,3,4) assms(7,8)] by (auto simp: r_def)
  then obtain bs k ps where "r = ret () (locked_in ConsLock (emits bs (s\<lparr>cons := k, procs := ps\<rparr>)))"
    and k: "cons_inv k" "cons_view k = cons_step c (cons_view (cons s))"
    by (auto simp: cons_done_def t_def)
  moreover have "consoleintr c s = bindE r (\<lambda>_ s. release ConsLock s)"
    using assms(3) by (simp add: consoleintr_def Ctrl_values r_def t_def)
  ultimately have "consoleintr c s = ret () (crit (emits bs (s\<lparr>cons := k, procs := ps\<rparr>)))"
    using assms(1,3) by simp
  then show ?thesis
    using k assms(3) by (intro exI [of _ "crit (emits bs (s\<lparr>cons := k, procs := ps\<rparr>))"]) (simp add: cons_view_def)
qed

theorem consoleintr_refines_witness:
  "\<exists>s'. consoleintr 13 sample_line = ret () s' \<and> cons_inv (cons s') \<and> lock_free ConsLock s' \<and>
    (cons_lines (cons s'), cons_edit (cons s')) = ([104, 105, 10], [])"
proof -
  have e: "cons_lines (cons sample_line) = []" "cons_edit (cons sample_line) = [104, 105]"
    by (simp_all add: sample_line_def cons_lines_def cons_edit_def ring_list_def INPUT_BUF_SIZE_def upt_rec)
  have "cons_inv (cons sample_line)"
    by (simp add: cons_inv_def e) (simp add: sample_line_def INPUT_BUF_SIZE_def)
  moreover have "cpu_ok sample_line" "lock_free ConsLock sample_line"
    "lock_free PrLock sample_line" "proc_locks_free sample_line"
    by (simp_all add: sample_line_def proc_locks_free_def)
  moreover have "\<not> panicked sample_line" by (simp add: sample_line_def sample_procs_def kstate0_def)
  moreover have "cons_step 13 ([], [104, 105]) = ([104, 105, 10], [])"
    by (simp add: cons_step_def Ctrl_values)
  ultimately show ?thesis
    using consoleintr_refines [of sample_line 13] e by simp
qed

end
