(* ===== verification/Sleeplock.thy ===== *)
theory Sleeplock
  imports Console
begin

text \<open>
  \<^verbatim>\<open>kernel/sleeplock.c\<close>. A sleep lock is named by the element it lives in: a buffer of the
  cache or an inode of the table.
\<close>

section \<open>Operations\<close>

datatype slid = BufLock nat | InodeLock nat

fun sl_get :: "slid \<Rightarrow> kstate \<Rightarrow> sleeplock" where
  "sl_get (BufLock b) s = b_lock (bufs s b)"
| "sl_get (InodeLock i) s = i_lock (inodes s i)"

fun sl_upd :: "slid \<Rightarrow> (sleeplock \<Rightarrow> sleeplock) \<Rightarrow> kstate \<Rightarrow> kstate" where
  "sl_upd (BufLock b) f s = upd_buf b (\<lambda>x. x\<lparr>b_lock := f (b_lock x)\<rparr>) s"
| "sl_upd (InodeLock i) f s = upd_inode i (\<lambda>x. x\<lparr>i_lock := f (i_lock x)\<rparr>) s"

fun sl_spin :: "slid \<Rightarrow> lockid" where
  "sl_spin (BufLock b) = BufSpin b"
| "sl_spin (InodeLock i) = InodeSpin i"

fun sl_chan :: "slid \<Rightarrow> chan" where
  "sl_chan (BufLock b) = ChanBufLock b"
| "sl_chan (InodeLock i) = ChanInodeLock i"

definition initsleeplock :: "slid \<Rightarrow> string \<Rightarrow> kstate \<Rightarrow> kstate" where
  "initsleeplock lk nm s =
    sl_upd lk (\<lambda>l. l\<lparr>sl_name := nm, sl_locked := 0, sl_pid := 0\<rparr>)
      (initlock (sl_spin lk) ''sleep lock'' s)"

text \<open>The loop of \<^verbatim>\<open>acquiresleep\<close> ends a burst when the lock is taken.\<close>

definition acquiresleep_loop :: "slid \<Rightarrow> kstate \<Rightarrow> unit kres" where
  "acquiresleep_loop lk s =
    (if sl_locked (sl_get lk s) \<noteq> 0 then sleep (sl_chan lk) (sl_spin lk) 0 s
     else
       let s = sl_upd lk (\<lambda>l. l\<lparr>sl_locked := 1\<rparr>) s
       in bindE (curproc s) (\<lambda>p s.
          let s = sl_upd lk (\<lambda>l. l\<lparr>sl_pid := p_pid (procs s p)\<rparr>) s
          in release (sl_spin lk) s))"

definition acquiresleep :: "slid \<Rightarrow> kstate \<Rightarrow> unit kres" where
  "acquiresleep lk s = bindE (acquire (sl_spin lk) s) (\<lambda>_ s. acquiresleep_loop lk s)"

definition releasesleep :: "slid \<Rightarrow> kstate \<Rightarrow> unit kres" where
  "releasesleep lk s =
    bindE (acquire (sl_spin lk) s) (\<lambda>_ s.
    let s = sl_upd lk (\<lambda>l. l\<lparr>sl_locked := 0\<rparr>) s;
        s = sl_upd lk (\<lambda>l. l\<lparr>sl_pid := 0\<rparr>) s
    in bindE (wakeup (Some (sl_chan lk)) s) (\<lambda>_ s. release (sl_spin lk) s))"

definition holdingsleep :: "slid \<Rightarrow> kstate \<Rightarrow> bool kres" where
  "holdingsleep lk s =
    bindE (acquire (sl_spin lk) s) (\<lambda>_ s.
    bindE (if sl_locked (sl_get lk s) \<noteq> 0
           then bindE (curproc s) (\<lambda>p s. ret (sl_pid (sl_get lk s) = p_pid (procs s p)) s)
           else ret False s) (\<lambda>r s.
    bindE (release (sl_spin lk) s) (\<lambda>_ s. ret r s)))"

section \<open>What the operations do\<close>

lemma ret_eq_ret [simp]: "ret a s = ret b t \<longleftrightarrow> a = b \<and> s = t"
  by (simp add: ret_def)

lemma locked_in_crit [simp]: "cpu_ok s \<Longrightarrow> locked_in lk (crit s) = locked_in lk s"
  by (auto simp: cpu_ok_def crit_def locked_in_def push_off_def machine_defs Let_def)

lemma sl_upd_simps [simp]:
  "cpu_ok (sl_upd lk f s) = cpu_ok s" "lock_free l (sl_upd lk f s) = lock_free l s"
  "procs (sl_upd lk f s) = procs s" "mem (sl_upd lk f s) = mem s" "mycpu (sl_upd lk f s) = mycpu s"
  "intr_get (sl_upd lk f s) = intr_get s" "proc_locks_free (sl_upd lk f s) = proc_locks_free s"
  "sl_upd lk f (locked_in l s) = locked_in l (sl_upd lk f s)" "sl_upd lk f (crit s) = crit (sl_upd lk f s)"
  "(sl_upd lk f s)\<lparr>procs := ps\<rparr> = sl_upd lk f (s\<lparr>procs := ps\<rparr>)"
  "sl_upd lk f (sl_upd lk g s) = sl_upd lk (f \<circ> g) s" "sl_get lk (sl_upd lk f s) = f (sl_get lk s)"
  by (cases lk; simp add: upd_buf_def upd_inode_def proc_locks_free_def)+

lemma sl_get_simps [simp]:
  "sl_get lk (locked_in l s) = sl_get lk s" "sl_get lk (crit s) = sl_get lk s"
  "sl_get lk (s\<lparr>procs := ps\<rparr>) = sl_get lk s"
  by (cases lk; simp)+

lemma crit_upd_cpu_proc:
  "cpu_ok s \<Longrightarrow> crit (upd_cpu (\<lambda>c. c\<lparr>cpu_proc := x\<rparr>) s) = upd_cpu (\<lambda>c. c\<lparr>cpu_proc := x\<rparr>) (crit s)"
  by (cases s) (auto simp: crit_def cpu_ok_def upd_cpu_def machine_defs Let_def)

lemma sl_spin_not_proc [simp]: "sl_spin lk \<noteq> ProcLock p" "ProcLock p \<noteq> sl_spin lk"
  by (cases lk; simp)+

lemma acquiresleep_free:
  assumes "cpu_ok s" and "cpu_proc (mycpu s) = Some p" and "lock_free (sl_spin lk) s" and "sl_locked (sl_get lk s) = 0"
  shows "acquiresleep lk s =
    ret () (crit (sl_upd lk (\<lambda>l. l\<lparr>sl_locked := 1, sl_pid := p_pid (procs s p)\<rparr>) s))"
  using assms by (simp add: acquiresleep_def acquiresleep_loop_def Let_def comp_def)

lemma acquiresleep_taken:
  assumes "cpu_ok s" and "cpu_noff (mycpu s) = 0" and "cpu_proc (mycpu s) = Some p" and "lock_free (sl_spin lk) s"
    and "lock_free (ProcLock p) s" and "sl_locked (sl_get lk s) \<noteq> 0"
  shows "acquiresleep lk s = Inl (Asleep (sl_chan lk) 0 (intr_get s) (locked_in (ProcLock p)
    (s\<lparr>procs := (procs s)(p := (procs s p)\<lparr>p_chan := Some (sl_chan lk), p_state := SLEEPING\<rparr>)\<rparr>)))"
  using assms sleep_eq [of s p "sl_spin lk" "sl_chan lk" 0, where ?'a = unit]
  by (simp add: acquiresleep_def acquiresleep_loop_def)

lemma holdingsleep_eq:
  assumes "cpu_ok s" and "cpu_proc (mycpu s) = Some p" and "lock_free (sl_spin lk) s"
  shows "holdingsleep lk s =
    ret (sl_locked (sl_get lk s) \<noteq> 0 \<and> sl_pid (sl_get lk s) = p_pid (procs s p)) (crit s)"
  using assms by (simp add: holdingsleep_def)

lemma releasesleep_eq:
  assumes "cpu_ok s" and "cpu_proc (mycpu s) = me" and "lock_free (sl_spin lk) s" and "proc_locks_free s"
  shows "releasesleep lk s = ret () (crit (sl_upd lk (\<lambda>l. l\<lparr>sl_locked := 0, sl_pid := 0\<rparr>)
    (s\<lparr>procs := awaken 0 NPROC (Some (sl_chan lk)) me (procs s)\<rparr>)))"
  using assms by (simp add: releasesleep_def Let_def comp_def wakeup_eq)

section \<open>Properties\<close>

text \<open>
  C28: A sleep lock has one owner. \<^verbatim>\<open>acquiresleep\<close> on a lock that is taken never returns to the caller
  but puts it to sleep on the lock, with the lock's state unchanged; on a free lock it returns with
  the lock taken in the caller's name, and then \<^verbatim>\<open>holdingsleep\<close> is true for the caller, false for every
  process with another pid, and after the caller's \<^verbatim>\<open>releasesleep\<close> the lock is free again and every
  process that slept on it is runnable.
\<close>

theorem sleeplock_owner:
  assumes "cpu_ok s" and "cpu_noff (mycpu s) = 0" and "cpu_proc (mycpu s) = Some p" and "p < NPROC"
    and "\<forall>l. lock_free l s"
  shows "if sl_locked (sl_get lk s) \<noteq> 0
    then \<exists>ie s'. acquiresleep lk s = Inl (Asleep (sl_chan lk) 0 ie s') \<and> sl_get lk s' = sl_get lk s \<and>
      p_state (procs s' p) = SLEEPING \<and> p_chan (procs s' p) = Some (sl_chan lk)
    else \<exists>s'. acquiresleep lk s = ret () s' \<and> sl_locked (sl_get lk s') = 1 \<and> holdingsleep lk s' = ret True s' \<and>
      (\<forall>q. p_pid (procs s q) \<noteq> p_pid (procs s p) \<longrightarrow>
        (let o' = upd_cpu (\<lambda>c. c\<lparr>cpu_proc := Some q\<rparr>) s' in holdingsleep lk o' = ret False o')) \<and>
      (\<exists>s''. releasesleep lk s' = ret () s'' \<and> sl_locked (sl_get lk s'') = 0 \<and>
        (\<forall>q < NPROC. q \<noteq> p \<and> p_state (procs s q) = SLEEPING \<and> p_chan (procs s q) = Some (sl_chan lk) \<longrightarrow>
          p_state (procs s'' q) = RUNNABLE))"
proof (cases "sl_locked (sl_get lk s) = 0")
  case False
  then show ?thesis using assms acquiresleep_taken [of s p lk] by simp
next
  case True
  define t where "t = crit (sl_upd lk (\<lambda>l. l\<lparr>sl_locked := 1, sl_pid := p_pid (procs s p)\<rparr>) s)"
  have a: "acquiresleep lk s = ret () t" using assms True acquiresleep_free [of s p lk] by (simp add: t_def)
  have t: "cpu_ok t" "cpu_proc (mycpu t) = Some p" "lock_free l t" "crit t = t" "procs t = procs s"
    "sl_locked (sl_get lk t) = 1" "sl_pid (sl_get lk t) = p_pid (procs s p)" for l
    using assms by (simp_all add: t_def)
  have "proc_locks_free t" using t(3) by (simp add: proc_locks_free_def)
  then obtain u where u: "releasesleep lk t = ret () u" "sl_locked (sl_get lk u) = 0"
      "procs u = awaken 0 NPROC (Some (sl_chan lk)) (Some p) (procs s)"
    using releasesleep_eq [OF t(1,2,3)] t(5) by simp
  have "holdingsleep lk o' = ret False o'" if "p_pid (procs s q) \<noteq> p_pid (procs s p)"
    "o' = upd_cpu (\<lambda>c. c\<lparr>cpu_proc := Some q\<rparr>) t" for q o'
  proof -
    have "crit o' = o'" using t(1,4) by (simp add: that(2) crit_upd_cpu_proc)
    moreover have "sl_get lk o' = sl_get lk t" "procs o' = procs s" by (cases lk; simp add: that(2) t(5) upd_cpu_def)+
    ultimately show ?thesis
      using holdingsleep_eq [of o' q lk] t that by simp
  qed
  moreover have "holdingsleep lk t = ret True t" using holdingsleep_eq [OF t(1-3)] t by simp
  moreover have "p_state (procs u q) = RUNNABLE"
    if "q < NPROC" "q \<noteq> p" "p_state (procs s q) = SLEEPING" "p_chan (procs s q) = Some (sl_chan lk)" for q
    using that u(3) by (simp add: awaken_def)
  ultimately show ?thesis using True a t(6) u(1,2) by (simp add: Let_def)
qed

section \<open>Witnesses\<close>

theorem sleeplock_owner_witness:
  "\<exists>s'. acquiresleep (InodeLock 4) sample_procs = ret () s' \<and> holdingsleep (InodeLock 4) s' = ret True s'"
proof -
  have "sl_locked (sl_get (InodeLock 4) sample_procs) = 0"
    by (simp add: sample_procs_def kstate0_def zero_inode_def zero_sleeplock_def)
  then show ?thesis using sleeplock_owner [of sample_procs 3 "InodeLock 4"] by (auto simp: NPROC_def)
qed

end
