(* ===== verification/Bio.thy ===== *)
theory Bio
  imports Sleeplock
begin

text \<open>
  \<^verbatim>\<open>kernel/bio.c\<close>, the buffer cache. The list of buffers by recency runs through the fields
  \<^verbatim>\<open>prev\<close> and \<^verbatim>\<open>next\<close>; buffer \<^term>\<open>NBUF\<close> is \<^verbatim>\<open>bcache.head\<close>. The disk is seen through the
  contract of \<^verbatim>\<open>virtio_disk_rw\<close> (\<open>disk_rw\<close>): the transfer is done when the call returns.
  \<open>dtrace\<close> records the order of the writes that reach the disk.
\<close>

section \<open>Operations\<close>

abbreviation bhead :: nat where
  "bhead \<equiv> NBUF"

definition disk_rw :: "nat \<Rightarrow> bool \<Rightarrow> kstate \<Rightarrow> kstate" where
  "disk_rw b wr s =
    (let n = unat (b_blockno (bufs s b))
     in crit (if wr
       then s\<lparr>disk := (disk s)(n := b_data (bufs s b)), dtrace := dtrace s @ [(n, b_data (bufs s b))],
              bufs := (bufs s)(b := (bufs s b)\<lparr>b_disk := False\<rparr>)\<rparr>
       else s\<lparr>bufs := (bufs s)(b := (bufs s b)\<lparr>b_data := disk s n, b_disk := False\<rparr>)\<rparr>))"

text \<open>The body of the loop of \<^verbatim>\<open>binit\<close> for buffer \<open>b\<close>.\<close>

definition binit_link :: "nat \<Rightarrow> kstate \<Rightarrow> kstate" where
  "binit_link b s =
    (let s = upd_buf b (\<lambda>x. x\<lparr>b_next := b_next (bufs s bhead)\<rparr>) s;
         s = upd_buf b (\<lambda>x. x\<lparr>b_prev := bhead\<rparr>) s;
         s = initsleeplock (BufLock b) ''buffer'' s;
         s = upd_buf (b_next (bufs s bhead)) (\<lambda>x. x\<lparr>b_prev := b\<rparr>) s
     in upd_buf bhead (\<lambda>x. x\<lparr>b_next := b\<rparr>) s)"

primrec binit_from :: "nat \<Rightarrow> nat \<Rightarrow> kstate \<Rightarrow> kstate" where
  "binit_from 0 b s = s"
| "binit_from (Suc n) b s = binit_from n (b + 1) (binit_link b s)"

definition binit :: "kstate \<Rightarrow> kstate" where
  "binit s =
    (let s = initlock BcacheLock ''bcache'' s;
         s = upd_buf bhead (\<lambda>x. x\<lparr>b_prev := bhead\<rparr>) s;
         s = upd_buf bhead (\<lambda>x. x\<lparr>b_next := bhead\<rparr>) s
     in binit_from NBUF 0 s)"

text \<open>
  The two scans of \<^verbatim>\<open>bget\<close>. The first argument bounds the number of list cells visited; the
  list has \<^term>\<open>NBUF\<close> cells beside the head, so \<open>NBUF + 1\<close> is enough.
\<close>

primrec bget_cached :: "nat \<Rightarrow> nat \<Rightarrow> uint \<Rightarrow> uint \<Rightarrow> kstate \<Rightarrow> nat option kres" where
  "bget_cached 0 b dev blockno s = Inl Forever"
| "bget_cached (Suc n) b dev blockno s =
    (if b = bhead then ret None s
     else if b_dev (bufs s b) = dev \<and> b_blockno (bufs s b) = blockno then ret (Some b) s
     else bget_cached n (b_next (bufs s b)) dev blockno s)"

primrec bget_unused :: "nat \<Rightarrow> nat \<Rightarrow> kstate \<Rightarrow> nat option kres" where
  "bget_unused 0 b s = Inl Forever"
| "bget_unused (Suc n) b s =
    (if b = bhead then ret None s
     else if b_refcnt (bufs s b) = 0 then ret (Some b) s
     else bget_unused n (b_prev (bufs s b)) s)"

definition bget :: "uint \<Rightarrow> uint \<Rightarrow> kstate \<Rightarrow> nat kres" where
  "bget dev blockno s =
    bindE (acquire BcacheLock s) (\<lambda>_ s.
    bindE (bget_cached (NBUF + 1) (b_next (bufs s bhead)) dev blockno s) (\<lambda>r s.
    case r of
      Some b \<Rightarrow>
        let s = upd_buf b (\<lambda>x. x\<lparr>b_refcnt := b_refcnt x + 1\<rparr>) s
        in bindE (release BcacheLock s) (\<lambda>_ s.
           bindE (acquiresleep (BufLock b) s) (\<lambda>_ s. ret b s))
    | None \<Rightarrow>
        bindE (bget_unused (NBUF + 1) (b_prev (bufs s bhead)) s) (\<lambda>r s.
        case r of
          Some b \<Rightarrow>
            let s = upd_buf b (\<lambda>x. x\<lparr>b_dev := dev, b_blockno := blockno, b_valid := False,
                                    b_refcnt := 1\<rparr>) s
            in bindE (release BcacheLock s) (\<lambda>_ s.
               bindE (acquiresleep (BufLock b) s) (\<lambda>_ s. ret b s))
        | None \<Rightarrow> panic ''bget: no buffers'')))"

definition bread :: "uint \<Rightarrow> uint \<Rightarrow> kstate \<Rightarrow> nat kres" where
  "bread dev blockno s =
    bindE (bget dev blockno s) (\<lambda>b s.
    let s = (if \<not> b_valid (bufs s b)
             then upd_buf b (\<lambda>x. x\<lparr>b_valid := True\<rparr>) (disk_rw b False s) else s)
    in ret b s)"

definition bwrite :: "nat \<Rightarrow> kstate \<Rightarrow> unit kres" where
  "bwrite b s =
    bindE (holdingsleep (BufLock b) s) (\<lambda>h s.
    if \<not> h then panic ''bwrite'' else ret () (disk_rw b True s))"

definition brelse_move :: "nat \<Rightarrow> kstate \<Rightarrow> kstate" where
  "brelse_move b s =
    (let s = upd_buf (b_next (bufs s b)) (\<lambda>x. x\<lparr>b_prev := b_prev (bufs s b)\<rparr>) s;
         s = upd_buf (b_prev (bufs s b)) (\<lambda>x. x\<lparr>b_next := b_next (bufs s b)\<rparr>) s;
         s = upd_buf b (\<lambda>x. x\<lparr>b_next := b_next (bufs s bhead)\<rparr>) s;
         s = upd_buf b (\<lambda>x. x\<lparr>b_prev := bhead\<rparr>) s;
         s = upd_buf (b_next (bufs s bhead)) (\<lambda>x. x\<lparr>b_prev := b\<rparr>) s
     in upd_buf bhead (\<lambda>x. x\<lparr>b_next := b\<rparr>) s)"

definition brelse :: "nat \<Rightarrow> kstate \<Rightarrow> unit kres" where
  "brelse b s =
    bindE (holdingsleep (BufLock b) s) (\<lambda>h s.
    if \<not> h then panic ''brelse''
    else bindE (releasesleep (BufLock b) s) (\<lambda>_ s.
      bindE (acquire BcacheLock s) (\<lambda>_ s.
      let s = upd_buf b (\<lambda>x. x\<lparr>b_refcnt := b_refcnt x - 1\<rparr>) s;
          s = (if b_refcnt (bufs s b) = 0 then brelse_move b s else s)
      in release BcacheLock s)))"

definition bpin :: "nat \<Rightarrow> kstate \<Rightarrow> unit kres" where
  "bpin b s =
    bindE (acquire BcacheLock s) (\<lambda>_ s.
    release BcacheLock (upd_buf b (\<lambda>x. x\<lparr>b_refcnt := b_refcnt x + 1\<rparr>) s))"

definition bunpin :: "nat \<Rightarrow> kstate \<Rightarrow> unit kres" where
  "bunpin b s =
    bindE (acquire BcacheLock s) (\<lambda>_ s.
    release BcacheLock (upd_buf b (\<lambda>x. x\<lparr>b_refcnt := b_refcnt x - 1\<rparr>) s))"

text \<open>Assignment to the data of a buffer, by the code that holds it.\<close>

definition set_data :: "nat \<Rightarrow> block \<Rightarrow> kstate \<Rightarrow> kstate" where
  "set_data b d s = upd_buf b (\<lambda>x. x\<lparr>b_data := d\<rparr>) s"

section \<open>The list of buffers\<close>

text \<open>\<open>adj nx pv l\<close>: neighbours in \<open>l\<close> point to each other.\<close>

fun adj :: "('a \<Rightarrow> 'a) \<Rightarrow> ('a \<Rightarrow> 'a) \<Rightarrow> 'a list \<Rightarrow> bool" where
  "adj nx pv (a # b # l) \<longleftrightarrow> nx a = b \<and> pv b = a \<and> adj nx pv (b # l)"
| "adj nx pv l \<longleftrightarrow> True"

lemma adj_append: "adj nx pv (xs @ a # ys) \<longleftrightarrow> adj nx pv (xs @ [a]) \<and> adj nx pv (a # ys)"
  by (induction nx pv xs rule: adj.induct) auto

lemma adj_cong:
  assumes "adj nx pv l" and "\<forall>x \<in> set (butlast l). nx' x = nx x" and "\<forall>x \<in> set (tl l). pv' x = pv x"
  shows "adj nx' pv' l"
  using assms by (induction nx pv l rule: adj.induct) (auto split: if_splits)

text \<open>Taking a cell out of a ring, and putting one in after its head.\<close>

lemma adj_remove:
  assumes "adj nx pv (h # ys @ b # zs @ [h])" and "distinct (h # ys @ b # zs)"
  shows "adj (nx(pv b := nx b)) (pv(nx b := pv b)) (h # ys @ zs @ [h])"
proof -
  obtain xs p where xs: "h # ys = xs @ [p]" by (metis list.distinct(1) rev_exhaust)
  obtain n ws where ws: "zs @ [h] = n # ws" by (metis append_is_Nil_conv list.exhaust list.distinct(1))
  have all: "h # ys @ b # zs @ [h] = xs @ p # b # n # ws" using xs ws by (metis append_Cons append_Nil append_assoc)
  have s: "adj nx pv (xs @ [p])" "nx p = b" "pv b = p" "nx b = n" "pv n = b" "adj nx pv (n # ws)"
    using assms(1) unfolding all by (simp_all add: adj_append [of nx pv xs p "b # n # ws"])
  have d: "distinct (xs @ [p])" "n \<notin> set ys" "p \<notin> set zs" "n \<notin> set ws" "set (butlast (n # ws)) = set zs"
  proof -
    have "distinct (h # ys)" using assms(2) by simp
    then show "distinct (xs @ [p])" unfolding xs .
    have "n \<in> set (zs @ [h])" unfolding ws by simp
    then show "n \<notin> set ys" using assms(2) by auto
    have "p \<in> set (h # ys)" unfolding xs by simp
    then show "p \<notin> set zs" using assms(2) by auto
    show "set (butlast (n # ws)) = set zs" unfolding ws [symmetric] by simp
    show "n \<notin> set ws" using assms(2) ws by (cases zs) auto
  qed
  have 1: "adj (nx(p := n)) (pv(n := p)) (xs @ [p])"
  proof (rule adj_cong [OF s(1)])
    show "\<forall>x \<in> set (butlast (xs @ [p])). (nx(p := n)) x = nx x" using d(1) by auto
    show "\<forall>x \<in> set (tl (xs @ [p])). (pv(n := p)) x = pv x" using d(2) unfolding xs [symmetric] by auto
  qed
  have 2: "adj (nx(p := n)) (pv(n := p)) (n # ws)"
  proof (rule adj_cong [OF s(6)])
    show "\<forall>x \<in> set (butlast (n # ws)). (nx(p := n)) x = nx x" unfolding d(5) using d(3) by auto
    show "\<forall>x \<in> set (tl (n # ws)). (pv(n := p)) x = pv x" using d(4) by auto
  qed
  have new: "h # ys @ zs @ [h] = xs @ p # n # ws" using xs ws by (metis append_Cons append_Nil append_assoc)
  show ?thesis unfolding new s(3,4) adj_append [of _ _ xs p "n # ws"] using 1 2 by simp
qed

lemma adj_insert:
  assumes "adj nx pv (h # ws @ [h])" and "distinct (h # ws)" and "b \<notin> set (h # ws)"
  shows "adj (nx(b := nx h, h := b)) (pv(b := h, nx h := b)) (h # b # ws @ [h])"
proof -
  obtain n l where l: "ws @ [h] = n # l" by (metis append_is_Nil_conv list.exhaust list.distinct(1))
  have n: "nx h = n" "adj nx pv (n # l)" using assms(1) unfolding l by simp_all
  have d: "n \<notin> set l" "b \<notin> set (n # l)" "set (butlast (n # l)) = set ws"
  proof -
    show "n \<notin> set l" using assms(2) l by (cases ws) auto
    show "b \<notin> set (n # l)" unfolding l [symmetric] using assms(3) by simp
    show "set (butlast (n # l)) = set ws" unfolding l [symmetric] by simp
  qed
  have "adj (nx(b := n, h := b)) (pv(b := h, n := b)) (n # l)"
  proof (rule adj_cong [OF n(2)])
    show "\<forall>x \<in> set (butlast (n # l)). (nx(b := n, h := b)) x = nx x" unfolding d(3) using assms(2,3) by auto
    show "\<forall>x \<in> set (tl (n # l)). (pv(b := h, n := b)) x = pv x" using d by auto
  qed
  then show ?thesis unfolding l n(1) using d(2) assms(3) by simp
qed

definition nexts :: "kstate \<Rightarrow> nat \<Rightarrow> nat" where
  "nexts s = (\<lambda>b. b_next (bufs s b))"

definition prevs :: "kstate \<Rightarrow> nat \<Rightarrow> nat" where
  "prevs s = (\<lambda>b. b_prev (bufs s b))"

abbreviation set_next :: "nat \<Rightarrow> nat \<Rightarrow> kstate \<Rightarrow> kstate" where
  "set_next b n \<equiv> upd_buf b (\<lambda>x. x\<lparr>b_next := n\<rparr>)"

abbreviation set_prev :: "nat \<Rightarrow> nat \<Rightarrow> kstate \<Rightarrow> kstate" where
  "set_prev b n \<equiv> upd_buf b (\<lambda>x. x\<lparr>b_prev := n\<rparr>)"

lemma links_simps [simp]:
  "nexts (set_next b n s) = (nexts s)(b := n)" "prevs (set_next b n s) = prevs s"
  "nexts (set_prev b n s) = nexts s" "prevs (set_prev b n s) = (prevs s)(b := n)"
  by (auto simp: nexts_def prevs_def upd_buf_def)

text \<open>The buffers form a ring: from \<^verbatim>\<open>bcache.head\<close>, the most recently used first.\<close>

definition buf_ring :: "kstate \<Rightarrow> nat list \<Rightarrow> bool" where
  "buf_ring s xs \<longleftrightarrow> distinct xs \<and> set xs = {..<NBUF} \<and> adj (nexts s) (prevs s) (bhead # xs @ [bhead])"

text \<open>Only the links of the list change from \<open>s\<close> to \<open>t\<close>.\<close>

definition relinked :: "kstate \<Rightarrow> kstate \<Rightarrow> bool" where
  "relinked s t \<longleftrightarrow> (\<exists>nx pv. t = s\<lparr>bufs := (\<lambda>b. (bufs s b)\<lparr>b_prev := pv b, b_next := nx b\<rparr>)\<rparr>)"

lemma relinkedI:
  assumes "t = s\<lparr>bufs := B\<rparr>" and "\<And>b. B b = (bufs s b)\<lparr>b_prev := b_prev (B b), b_next := b_next (B b)\<rparr>"
  shows "relinked s t"
  unfolding relinked_def using assms by (intro exI [of _ "\<lambda>b. b_next (B b)"] exI [of _ "\<lambda>b. b_prev (B b)"]) auto

lemma relinked_refl: "relinked s s"
  by (rule relinkedI [where B = "bufs s"]) auto

lemma relinked_trans: "relinked s t \<Longrightarrow> relinked t u \<Longrightarrow> relinked s u"
  unfolding relinked_def by (elim exE, simp, blast)

lemma relinked_upd:
  "relinked s t \<Longrightarrow> relinked s (set_prev b p t)" "relinked s t \<Longrightarrow> relinked s (set_next b p t)"
proof -
  have "relinked t (set_prev b p t)" "relinked t (set_next b p t)"
    unfolding upd_buf_def by (rule relinkedI, rule refl, simp)+
  then show "relinked s t \<Longrightarrow> relinked s (set_prev b p t)" "relinked s t \<Longrightarrow> relinked s (set_next b p t)"
    by (blast intro: relinked_trans)+
qed

lemma brelse_move_eq:
  "brelse_move b s =
    (let s = set_prev (nexts s b) (prevs s b) s;
         s = set_next (prevs s b) (nexts s b) s;
         s = set_next b (nexts s bhead) s;
         s = set_prev b bhead s;
         s = set_prev (nexts s bhead) b s
     in set_next bhead b s)"
  by (simp add: brelse_move_def nexts_def prevs_def)

lemma brelse_move_relinked: "relinked s (brelse_move b s)"
  unfolding brelse_move_eq Let_def
  by (intro relinked_upd relinked_refl)

lemma brelse_move_links:
  assumes "b \<noteq> bhead" and "nexts s b \<noteq> b" and "prevs s b \<noteq> b"
  defines "nx \<equiv> (nexts s)(prevs s b := nexts s b)" and "pv \<equiv> (prevs s)(nexts s b := prevs s b)"
  shows "nexts (brelse_move b s) = nx(b := nx bhead, bhead := b)"
    and "prevs (brelse_move b s) = pv(b := bhead, nx bhead := b)"
  using assms(1-3) by (simp_all add: nx_def pv_def brelse_move_eq Let_def)

lemma buf_ring_self:
  assumes "buf_ring s xs" and "b < NBUF"
  shows "nexts s b \<noteq> b" and "prevs s b \<noteq> b" and "b \<noteq> bhead"
proof -
  have "b \<in> set xs" using assms by (simp add: buf_ring_def)
  then obtain ys zs where xs: "xs = ys @ b # zs" by (metis split_list)
  obtain n ws where ws: "zs @ [bhead] = n # ws" by (metis append_is_Nil_conv list.exhaust list.distinct(1))
  obtain vs p where vs: "bhead # ys = vs @ [p]" by (metis list.distinct(1) rev_exhaust)
  have d: "distinct (bhead # ys @ b # zs)" using assms(1) by (auto simp: buf_ring_def xs)
  have "n \<in> set (zs @ [bhead])" "p \<in> set (bhead # ys)" unfolding ws vs by simp_all
  then have "n \<noteq> b" "p \<noteq> b" using d by auto
  moreover have "adj (nexts s) (prevs s) (vs @ p # b # n # ws)"
  proof -
    have "bhead # xs @ [bhead] = vs @ p # b # n # ws" using xs ws vs by (metis append_Cons append_Nil append_assoc)
    then show ?thesis using assms(1) by (simp add: buf_ring_def)
  qed
  then have "nexts s b = n" "prevs s b = p" by (simp_all add: adj_append [of _ _ vs p "b # n # ws"])
  ultimately show "nexts s b \<noteq> b" "prevs s b \<noteq> b" by auto
  show "b \<noteq> bhead" using assms(2) by simp
qed

lemma brelse_move_ring:
  assumes "buf_ring s (ys @ b # zs)"
  shows "buf_ring (brelse_move b s) (b # ys @ zs)"
proof -
  let ?nx = "(nexts s)(prevs s b := nexts s b)" and ?pv = "(prevs s)(nexts s b := prevs s b)"
  have r: "distinct (ys @ b # zs)" "set (ys @ b # zs) = {..<NBUF}"
    "adj (nexts s) (prevs s) (bhead # ys @ b # zs @ [bhead])"
    using assms by (simp_all add: buf_ring_def)
  have b: "b < NBUF" using r(2) by auto
  have d: "distinct (bhead # ys @ b # zs)" using r(1,2) by auto
  have "adj ?nx ?pv (bhead # (ys @ zs) @ [bhead])" using adj_remove [OF r(3) d] by simp
  then have "adj (?nx(b := ?nx bhead, bhead := b)) (?pv(b := bhead, ?nx bhead := b)) (bhead # b # (ys @ zs) @ [bhead])"
    by (rule adj_insert) (use d in auto)
  moreover note brelse_move_links [OF buf_ring_self(3,1,2) [OF assms b]]
  ultimately have "adj (nexts (brelse_move b s)) (prevs (brelse_move b s)) (bhead # b # (ys @ zs) @ [bhead])"
    by simp
  then show ?thesis using r(1,2) by (auto simp: buf_ring_def)
qed

end
