(* ===== verification/Log.thy ===== *)
theory Log
  imports Bio
begin

text \<open>
  \<^verbatim>\<open>kernel/log.c\<close>, the redo log. The log header of a block's data (\<^verbatim>\<open>struct logheader\<close>) is read
  and written as little-endian 32-bit words.
\<close>

section \<open>Words in a block\<close>

definition get32 :: "block \<Rightarrow> nat \<Rightarrow> uint" where
  "get32 d i = word_of_bytes (take 4 (drop (4 * i) d))"

definition put32 :: "block \<Rightarrow> nat \<Rightarrow> uint \<Rightarrow> block" where
  "put32 d i w = take (4 * i) d @ bytes_of_word 4 w @ drop (4 * i + 4) d"

section \<open>Operations\<close>

text \<open>\<open>install_trans_from n tail\<close>: the loop of \<^verbatim>\<open>install_trans\<close> from \<open>tail\<close>, \<open>n\<close> blocks.\<close>

primrec install_trans_from :: "nat \<Rightarrow> nat \<Rightarrow> bool \<Rightarrow> kstate \<Rightarrow> unit kres" where
  "install_trans_from 0 tail recovering s = ret () s"
| "install_trans_from (Suc n) tail recovering s =
    bindE (bread (lg_dev (klog s)) (lg_start (klog s) + of_nat tail + 1) s) (\<lambda>lbuf s.
    bindE (bread (lg_dev (klog s)) (lg_block (klog s) tail) s) (\<lambda>dbuf s.
    let s = set_data dbuf (b_data (bufs s lbuf)) s
    in bindE (bwrite dbuf s) (\<lambda>_ s.
       bindE (if \<not> recovering then bunpin dbuf s else ret () s) (\<lambda>_ s.
       bindE (brelse lbuf s) (\<lambda>_ s.
       bindE (brelse dbuf s) (\<lambda>_ s.
       install_trans_from n (tail + 1) recovering s))))))"

definition install_trans :: "bool \<Rightarrow> kstate \<Rightarrow> unit kres" where
  "install_trans recovering s = install_trans_from (nat (lg_n (klog s))) 0 recovering s"

definition read_head :: "kstate \<Rightarrow> unit kres" where
  "read_head s =
    bindE (bread (lg_dev (klog s)) (lg_start (klog s)) s) (\<lambda>buf s.
    let d = b_data (bufs s buf);
        n = sint (get32 d 0);
        s = upd_log (\<lambda>l. l\<lparr>lg_n := n, lg_block := (\<lambda>i. if int i < n then get32 d (i + 1) else lg_block l i)\<rparr>) s
    in brelse buf s)"

text \<open>The loop of \<^verbatim>\<open>write_head\<close> over the block numbers.\<close>

primrec put_blocks :: "nat \<Rightarrow> nat \<Rightarrow> (nat \<Rightarrow> uint) \<Rightarrow> block \<Rightarrow> block" where
  "put_blocks 0 i f d = d"
| "put_blocks (Suc n) i f d = put_blocks n (i + 1) f (put32 d (i + 1) (f i))"

definition write_head :: "kstate \<Rightarrow> unit kres" where
  "write_head s =
    bindE (bread (lg_dev (klog s)) (lg_start (klog s)) s) (\<lambda>buf s.
    let d = put32 (b_data (bufs s buf)) 0 (word_of_int (lg_n (klog s)));
        d = put_blocks (nat (lg_n (klog s))) 0 (lg_block (klog s)) d;
        s = set_data buf d s
    in bindE (bwrite buf s) (\<lambda>_ s. brelse buf s))"

definition recover_from_log :: "kstate \<Rightarrow> unit kres" where
  "recover_from_log s =
    bindE (read_head s) (\<lambda>_ s.
    bindE (install_trans True s) (\<lambda>_ s.
    let s = upd_log (\<lambda>l. l\<lparr>lg_n := 0\<rparr>) s in write_head s))"

text \<open>\<^verbatim>\<open>sizeof(struct logheader)\<close> is \<open>4 + 4 * LOGSIZE\<close>, less than a block.\<close>

definition initlog :: "uint \<Rightarrow> kstate \<Rightarrow> unit kres" where
  "initlog dev s =
    (if 4 + 4 * LOGSIZE \<ge> BSIZE then panic ''initlog: too big logheader''
     else
       let s = initlock LogLock ''log'' s;
           s = upd_log (\<lambda>l. l\<lparr>lg_start := sb_logstart (sblk s), lg_size := sint (sb_nlog (sblk s)),
                              lg_dev := dev\<rparr>) s
       in recover_from_log s)"

text \<open>The loop of \<^verbatim>\<open>begin_op\<close>: a burst ends when the log is committing or short of space.\<close>

definition begin_op_loop :: "kstate \<Rightarrow> unit kres" where
  "begin_op_loop s =
    (if lg_committing (klog s) then sleep ChanLog LogLock 0 s
     else if lg_n (klog s) + (lg_outstanding (klog s) + 1) * int MAXOPBLOCKS > int LOGSIZE
     then sleep ChanLog LogLock 0 s
     else release LogLock (upd_log (\<lambda>l. l\<lparr>lg_outstanding := lg_outstanding l + 1\<rparr>) s))"

definition begin_op :: "kstate \<Rightarrow> unit kres" where
  "begin_op s = bindE (acquire LogLock s) (\<lambda>_ s. begin_op_loop s)"

primrec write_log_from :: "nat \<Rightarrow> nat \<Rightarrow> kstate \<Rightarrow> unit kres" where
  "write_log_from 0 tail s = ret () s"
| "write_log_from (Suc n) tail s =
    bindE (bread (lg_dev (klog s)) (lg_start (klog s) + of_nat tail + 1) s) (\<lambda>to s.
    bindE (bread (lg_dev (klog s)) (lg_block (klog s) tail) s) (\<lambda>from s.
    let s = set_data to (b_data (bufs s from)) s
    in bindE (bwrite to s) (\<lambda>_ s.
       bindE (brelse from s) (\<lambda>_ s.
       bindE (brelse to s) (\<lambda>_ s.
       write_log_from n (tail + 1) s)))))"

definition write_log :: "kstate \<Rightarrow> unit kres" where
  "write_log s = write_log_from (nat (lg_n (klog s))) 0 s"

definition commit :: "kstate \<Rightarrow> unit kres" where
  "commit s =
    (if lg_n (klog s) > 0
     then bindE (write_log s) (\<lambda>_ s.
          bindE (write_head s) (\<lambda>_ s.
          bindE (install_trans False s) (\<lambda>_ s.
          let s = upd_log (\<lambda>l. l\<lparr>lg_n := 0\<rparr>) s in write_head s)))
     else ret () s)"

definition end_op :: "kstate \<Rightarrow> unit kres" where
  "end_op s =
    bindE (acquire LogLock s) (\<lambda>_ s.
    let s = upd_log (\<lambda>l. l\<lparr>lg_outstanding := lg_outstanding l - 1\<rparr>) s
    in if lg_committing (klog s) then panic ''log.committing''
       else
         let do_commit = (lg_outstanding (klog s) = 0)
         in bindE (if do_commit then ret () (upd_log (\<lambda>l. l\<lparr>lg_committing := True\<rparr>) s)
                   else wakeup (Some ChanLog) s) (\<lambda>_ s.
            bindE (release LogLock s) (\<lambda>_ s.
            if do_commit
            then bindE (commit s) (\<lambda>_ s.
                 bindE (acquire LogLock s) (\<lambda>_ s.
                 let s = upd_log (\<lambda>l. l\<lparr>lg_committing := False\<rparr>) s
                 in bindE (wakeup (Some ChanLog) s) (\<lambda>_ s. release LogLock s)))
            else ret () s)))"

text \<open>The search of \<^verbatim>\<open>log_write\<close> for the block among the first \<open>n\<close> entries.\<close>

primrec log_find :: "nat \<Rightarrow> nat \<Rightarrow> (nat \<Rightarrow> uint) \<Rightarrow> uint \<Rightarrow> nat" where
  "log_find 0 i f blockno = i"
| "log_find (Suc n) i f blockno = (if f i = blockno then i else log_find n (i + 1) f blockno)"

definition log_write :: "nat \<Rightarrow> kstate \<Rightarrow> unit kres" where
  "log_write b s =
    bindE (acquire LogLock s) (\<lambda>_ s.
    if lg_n (klog s) \<ge> int LOGSIZE \<or> lg_n (klog s) \<ge> lg_size (klog s) - 1
    then panic ''too big a transaction''
    else if lg_outstanding (klog s) < 1 then panic ''log_write outside of trans''
    else
      let blockno = b_blockno (bufs s b);
          i = log_find (nat (lg_n (klog s))) 0 (lg_block (klog s)) blockno;
          s = upd_log (\<lambda>l. l\<lparr>lg_block := (lg_block l)(i := blockno)\<rparr>) s
      in if int i = lg_n (klog s)
         then bindE (bpin b s) (\<lambda>_ s.
              release LogLock (upd_log (\<lambda>l. l\<lparr>lg_n := lg_n l + 1\<rparr>) s))
         else release LogLock s)"

end
