(* ===== verification/Fs.thy ===== *)
theory Fs
  imports Log
begin

text \<open>
  \<^verbatim>\<open>kernel/fs.c\<close>: the super block, the block allocator, inodes, file contents, directories and
  paths. An inode pointer is an index of the table \<^verbatim>\<open>itable\<close>; the local variable whose address
  is handed to \<^verbatim>\<open>readi\<close> or \<^verbatim>\<open>writei\<close> lies in the kernel stack of the process (\<open>kframe\<close>). A
  path is the list of its bytes, ended by a NUL or by the end of the list.
\<close>

section \<open>On-disk layout\<close>

definition ROOTINO :: uint where "ROOTINO = 1"
definition FSMAGIC :: uint where "FSMAGIC = 0x10203040"
definition NDIRECT :: nat where "NDIRECT = 12"
definition NINDIRECT :: nat where "NINDIRECT = BSIZE div 4"
definition MAXFILE :: nat where "MAXFILE = NDIRECT + NINDIRECT"
definition BPB :: nat where "BPB = BSIZE * 8"
definition DIRSIZ :: nat where "DIRSIZ = 14"
definition T_DIR :: ushort where "T_DIR = 1"
definition T_FILE :: ushort where "T_FILE = 2"
definition T_DEVICE :: ushort where "T_DEVICE = 3"

record dinode =
  d_type :: ushort
  d_major :: ushort
  d_minor :: ushort
  d_nlink :: ushort
  d_size :: uint
  d_addrs :: "uint list"

definition DINODE :: nat where "DINODE = 64"
definition IPB :: nat where "IPB = BSIZE div DINODE"

definition IBLOCK :: "uint \<Rightarrow> superblock \<Rightarrow> uint" where
  "IBLOCK i sb = i div of_nat IPB + sb_inodestart sb"

definition BBLOCK :: "uint \<Rightarrow> superblock \<Rightarrow> uint" where
  "BBLOCK b sb = b div of_nat BPB + sb_bmapstart sb"

text \<open>Fields of the structs that lie in a block: bytes \<open>i\<close> to \<open>i + n\<close>, little-endian.\<close>

definition field :: "uchar list \<Rightarrow> nat \<Rightarrow> nat \<Rightarrow> 'a::len word" where
  "field d i n = word_of_bytes (take n (drop i d))"

definition splice :: "uchar list \<Rightarrow> nat \<Rightarrow> uchar list \<Rightarrow> uchar list" where
  "splice d i bs = take i d @ bs @ drop (i + length bs) d"

definition get_dinode :: "block \<Rightarrow> nat \<Rightarrow> dinode" where
  "get_dinode d k =
    (let i0 = k * DINODE
     in \<lparr>d_type = field d i0 2, d_major = field d (i0 + 2) 2, d_minor = field d (i0 + 4) 2,
         d_nlink = field d (i0 + 6) 2, d_size = field d (i0 + 8) 4,
         d_addrs = map (\<lambda>i. field d (i0 + 12 + 4 * i) 4) [0..<NDIRECT + 1]\<rparr>)"

definition dinode_bytes :: "dinode \<Rightarrow> uchar list" where
  "dinode_bytes i =
    bytes_of_word 2 (d_type i) @ bytes_of_word 2 (d_major i) @ bytes_of_word 2 (d_minor i) @
    bytes_of_word 2 (d_nlink i) @ bytes_of_word 4 (d_size i) @
    concat (map (bytes_of_word 4) (d_addrs i))"

definition put_dinode :: "block \<Rightarrow> nat \<Rightarrow> dinode \<Rightarrow> block" where
  "put_dinode d k i = splice d (k * DINODE) (dinode_bytes i)"

definition zero_dinode :: dinode where
  "zero_dinode = \<lparr>d_type = 0, d_major = 0, d_minor = 0, d_nlink = 0, d_size = 0,
     d_addrs = replicate (NDIRECT + 1) 0\<rparr>"

record stat =
  st_dev :: uint
  st_ino :: uint
  st_type :: ushort
  st_nlink :: ushort
  st_size :: uint64

definition kframe :: "kstate \<Rightarrow> uint64" where
  "kframe s = (case cpu_proc (mycpu s) of None \<Rightarrow> 0 | Some p \<Rightarrow> p_kstack (procs s p))"

section \<open>Super block\<close>

definition get_superblock :: "block \<Rightarrow> superblock" where
  "get_superblock d =
    \<lparr>sb_magic = get32 d 0, sb_size = get32 d 1, sb_nblocks = get32 d 2, sb_ninodes = get32 d 3,
     sb_nlog = get32 d 4, sb_logstart = get32 d 5, sb_inodestart = get32 d 6,
     sb_bmapstart = get32 d 7\<rparr>"

definition readsb :: "uint \<Rightarrow> kstate \<Rightarrow> unit kres" where
  "readsb dev s =
    bindE (bread dev 1 s) (\<lambda>bp s.
    let s = s\<lparr>sblk := get_superblock (b_data (bufs s bp))\<rparr> in brelse bp s)"

definition fsinit :: "uint \<Rightarrow> kstate \<Rightarrow> unit kres" where
  "fsinit dev s =
    bindE (readsb dev s) (\<lambda>_ s.
    if sb_magic (sblk s) \<noteq> FSMAGIC then panic ''invalid file system'' else initlog dev s)"

section \<open>Blocks\<close>

definition bzero :: "uint \<Rightarrow> uint \<Rightarrow> kstate \<Rightarrow> unit kres" where
  "bzero dev bno s =
    bindE (bread dev bno s) (\<lambda>bp s.
    let s = set_data bp (replicate BSIZE 0) s
    in bindE (log_write bp s) (\<lambda>_ s. brelse bp s))"

definition bmask :: "nat \<Rightarrow> uchar" where
  "bmask bi = push_bit (bi mod 8) 1"

text \<open>The inner loop of \<^verbatim>\<open>balloc\<close>: the first free bit from \<open>bi\<close> on in the bitmap block \<open>d\<close>.\<close>

primrec balloc_scan :: "nat \<Rightarrow> nat \<Rightarrow> nat \<Rightarrow> nat \<Rightarrow> block \<Rightarrow> nat option" where
  "balloc_scan 0 bi b sz d = None"
| "balloc_scan (Suc n) bi b sz d =
    (if b + bi < sz
     then if d ! (bi div 8) AND bmask bi = 0 then Some bi else balloc_scan n (bi + 1) b sz d
     else None)"

text \<open>The outer loop: \<open>n\<close> bitmap blocks from block number \<open>b\<close> on.\<close>

primrec balloc_from :: "nat \<Rightarrow> nat \<Rightarrow> uint \<Rightarrow> kstate \<Rightarrow> uint kres" where
  "balloc_from 0 b dev s = bindE (printf (''balloc: out of blocks'' @ [CHR 0x0A]) [] s) (\<lambda>_ s. ret 0 s)"
| "balloc_from (Suc n) b dev s =
    bindE (bread dev (BBLOCK (of_nat b) (sblk s)) s) (\<lambda>bp s.
    case balloc_scan BPB 0 b (unat (sb_size (sblk s))) (b_data (bufs s bp)) of
      Some bi \<Rightarrow>
        let d = b_data (bufs s bp);
            s = set_data bp (d[bi div 8 := d ! (bi div 8) OR bmask bi]) s
        in bindE (log_write bp s) (\<lambda>_ s.
           bindE (brelse bp s) (\<lambda>_ s.
           bindE (bzero dev (of_nat (b + bi)) s) (\<lambda>_ s. ret (of_nat (b + bi)) s)))
    | None \<Rightarrow> bindE (brelse bp s) (\<lambda>_ s. balloc_from n (b + BPB) dev s))"

definition balloc :: "uint \<Rightarrow> kstate \<Rightarrow> uint kres" where
  "balloc dev s = balloc_from ((unat (sb_size (sblk s)) + BPB - 1) div BPB) 0 dev s"

definition bfree :: "uint \<Rightarrow> uint \<Rightarrow> kstate \<Rightarrow> unit kres" where
  "bfree dev b s =
    bindE (bread dev (BBLOCK b (sblk s)) s) (\<lambda>bp s.
    let bi = unat b mod BPB; m = bmask bi; d = b_data (bufs s bp)
    in if d ! (bi div 8) AND m = 0 then panic ''freeing free block''
       else
         let s = set_data bp (d[bi div 8 := d ! (bi div 8) AND NOT m]) s
         in bindE (log_write bp s) (\<lambda>_ s. brelse bp s))"

section \<open>Inodes\<close>

primrec iinit_from :: "nat \<Rightarrow> nat \<Rightarrow> kstate \<Rightarrow> kstate" where
  "iinit_from 0 i s = s"
| "iinit_from (Suc n) i s = iinit_from n (i + 1) (initsleeplock (InodeLock i) ''inode'' s)"

definition iinit :: "kstate \<Rightarrow> kstate" where
  "iinit s = iinit_from NINODE 0 (initlock ItableLock ''itable'' s)"

text \<open>The scan of \<^verbatim>\<open>iget\<close> from entry \<open>i\<close> on: the entry found and the empty slot remembered.\<close>

primrec iget_scan :: "nat \<Rightarrow> nat \<Rightarrow> nat option \<Rightarrow> uint \<Rightarrow> uint \<Rightarrow> (nat \<Rightarrow> inode) \<Rightarrow> nat option \<times> nat option" where
  "iget_scan 0 i emp dev inum t = (None, emp)"
| "iget_scan (Suc n) i emp dev inum t =
    (if i_ref (t i) > 0 \<and> i_dev (t i) = dev \<and> i_inum (t i) = inum then (Some i, emp)
     else iget_scan n (i + 1) (if emp = None \<and> i_ref (t i) = 0 then Some i else emp) dev inum t)"

definition iget :: "uint \<Rightarrow> uint \<Rightarrow> kstate \<Rightarrow> nat kres" where
  "iget dev inum s =
    bindE (acquire ItableLock s) (\<lambda>_ s.
    case iget_scan NINODE 0 None dev inum (inodes s) of
      (Some ip, _) \<Rightarrow>
        let s = upd_inode ip (\<lambda>x. x\<lparr>i_ref := i_ref x + 1\<rparr>) s
        in bindE (release ItableLock s) (\<lambda>_ s. ret ip s)
    | (None, None) \<Rightarrow> panic ''iget: no inodes''
    | (None, Some ip) \<Rightarrow>
        let s = upd_inode ip (\<lambda>x. x\<lparr>i_dev := dev, i_inum := inum, i_ref := 1, i_valid := False\<rparr>) s
        in bindE (release ItableLock s) (\<lambda>_ s. ret ip s))"

primrec ialloc_from :: "nat \<Rightarrow> nat \<Rightarrow> uint \<Rightarrow> ushort \<Rightarrow> kstate \<Rightarrow> nat option kres" where
  "ialloc_from 0 inum dev ty s =
    bindE (printf (''ialloc: no inodes'' @ [CHR 0x0A]) [] s) (\<lambda>_ s. ret None s)"
| "ialloc_from (Suc n) inum dev ty s =
    bindE (bread dev (IBLOCK (of_nat inum) (sblk s)) s) (\<lambda>bp s.
    let d = b_data (bufs s bp); k = inum mod IPB
    in if d_type (get_dinode d k) = 0
       then
         let s = set_data bp (put_dinode d k (zero_dinode\<lparr>d_type := ty\<rparr>)) s
         in bindE (log_write bp s) (\<lambda>_ s.
            bindE (brelse bp s) (\<lambda>_ s.
            bindE (iget dev (of_nat inum) s) (\<lambda>ip s. ret (Some ip) s)))
       else bindE (brelse bp s) (\<lambda>_ s. ialloc_from n (inum + 1) dev ty s))"

definition ialloc :: "uint \<Rightarrow> ushort \<Rightarrow> kstate \<Rightarrow> nat option kres" where
  "ialloc dev ty s = ialloc_from (unat (sb_ninodes (sblk s)) - 1) 1 dev ty s"

definition iupdate :: "nat \<Rightarrow> kstate \<Rightarrow> unit kres" where
  "iupdate ip s =
    bindE (bread (i_dev (inodes s ip)) (IBLOCK (i_inum (inodes s ip)) (sblk s)) s) (\<lambda>bp s.
    let x = inodes s ip;
        d = put_dinode (b_data (bufs s bp)) (unat (i_inum x) mod IPB)
              \<lparr>d_type = i_type x, d_major = i_major x, d_minor = i_minor x, d_nlink = i_nlink x,
               d_size = i_size x, d_addrs = i_addrs x\<rparr>;
        s = set_data bp d s
    in bindE (log_write bp s) (\<lambda>_ s. brelse bp s))"

definition idup :: "nat \<Rightarrow> kstate \<Rightarrow> nat kres" where
  "idup ip s =
    bindE (acquire ItableLock s) (\<lambda>_ s.
    let s = upd_inode ip (\<lambda>x. x\<lparr>i_ref := i_ref x + 1\<rparr>) s
    in bindE (release ItableLock s) (\<lambda>_ s. ret ip s))"

definition ilock :: "nat option \<Rightarrow> kstate \<Rightarrow> unit kres" where
  "ilock ipp s =
    (case ipp of
       None \<Rightarrow> panic ''ilock''
     | Some ip \<Rightarrow>
         if i_ref (inodes s ip) < 1 then panic ''ilock''
         else bindE (acquiresleep (InodeLock ip) s) (\<lambda>_ s.
           if \<not> i_valid (inodes s ip)
           then bindE (bread (i_dev (inodes s ip)) (IBLOCK (i_inum (inodes s ip)) (sblk s)) s) (\<lambda>bp s.
             let di = get_dinode (b_data (bufs s bp)) (unat (i_inum (inodes s ip)) mod IPB);
                 s = upd_inode ip (\<lambda>x. x\<lparr>i_type := d_type di, i_major := d_major di,
                       i_minor := d_minor di, i_nlink := d_nlink di, i_size := d_size di,
                       i_addrs := d_addrs di\<rparr>) s
             in bindE (brelse bp s) (\<lambda>_ s.
                let s = upd_inode ip (\<lambda>x. x\<lparr>i_valid := True\<rparr>) s
                in if i_type (inodes s ip) = 0 then panic ''ilock: no type'' else ret () s))
           else ret () s))"

definition iunlock :: "nat option \<Rightarrow> kstate \<Rightarrow> unit kres" where
  "iunlock ipp s =
    (case ipp of
       None \<Rightarrow> panic ''iunlock''
     | Some ip \<Rightarrow>
         bindE (holdingsleep (InodeLock ip) s) (\<lambda>h s.
         if \<not> h \<or> i_ref (inodes s ip) < 1 then panic ''iunlock''
         else releasesleep (InodeLock ip) s))"

section \<open>Inode content\<close>

definition bmap :: "nat \<Rightarrow> uint \<Rightarrow> kstate \<Rightarrow> uint kres" where
  "bmap ip bn s =
    (if bn < of_nat NDIRECT
     then
       let addr = i_addrs (inodes s ip) ! unat bn
       in if addr = 0
          then bindE (balloc (i_dev (inodes s ip)) s) (\<lambda>addr s.
            if addr = 0 then ret 0 s
            else ret addr (upd_inode ip (\<lambda>x. x\<lparr>i_addrs := (i_addrs x)[unat bn := addr]\<rparr>) s))
          else ret addr s
     else
       let bn = bn - of_nat NDIRECT
       in if bn < of_nat NINDIRECT
          then
            bindE (let addr = i_addrs (inodes s ip) ! NDIRECT
                   in if addr = 0
                      then bindE (balloc (i_dev (inodes s ip)) s) (\<lambda>addr s.
                        if addr = 0 then ret 0 s
                        else ret addr (upd_inode ip (\<lambda>x. x\<lparr>i_addrs := (i_addrs x)[NDIRECT := addr]\<rparr>) s))
                      else ret addr s) (\<lambda>addr s.
            if addr = 0 then ret 0 s
            else bindE (bread (i_dev (inodes s ip)) addr s) (\<lambda>bp s.
              let addr = get32 (b_data (bufs s bp)) (unat bn)
              in bindE (if addr = 0
                        then bindE (balloc (i_dev (inodes s ip)) s) (\<lambda>addr s.
                          if addr \<noteq> 0
                          then
                            let s = set_data bp (put32 (b_data (bufs s bp)) (unat bn) addr) s
                            in bindE (log_write bp s) (\<lambda>_ s. ret addr s)
                          else ret addr s)
                        else ret addr s) (\<lambda>addr s.
                 bindE (brelse bp s) (\<lambda>_ s. ret addr s))))
          else panic ''bmap: out of range'')"

primrec itrunc_direct :: "nat \<Rightarrow> nat \<Rightarrow> nat \<Rightarrow> kstate \<Rightarrow> unit kres" where
  "itrunc_direct 0 i ip s = ret () s"
| "itrunc_direct (Suc n) i ip s =
    bindE (if i_addrs (inodes s ip) ! i \<noteq> 0
           then bindE (bfree (i_dev (inodes s ip)) (i_addrs (inodes s ip) ! i) s) (\<lambda>_ s.
             ret () (upd_inode ip (\<lambda>x. x\<lparr>i_addrs := (i_addrs x)[i := 0]\<rparr>) s))
           else ret () s) (\<lambda>_ s. itrunc_direct n (i + 1) ip s)"

primrec itrunc_indirect :: "nat \<Rightarrow> nat \<Rightarrow> nat \<Rightarrow> nat \<Rightarrow> kstate \<Rightarrow> unit kres" where
  "itrunc_indirect 0 j bp ip s = ret () s"
| "itrunc_indirect (Suc n) j bp ip s =
    (let a = get32 (b_data (bufs s bp)) j
     in bindE (if a \<noteq> 0 then bfree (i_dev (inodes s ip)) a s else ret () s) (\<lambda>_ s.
        itrunc_indirect n (j + 1) bp ip s))"

definition itrunc :: "nat \<Rightarrow> kstate \<Rightarrow> unit kres" where
  "itrunc ip s =
    bindE (itrunc_direct NDIRECT 0 ip s) (\<lambda>_ s.
    bindE (if i_addrs (inodes s ip) ! NDIRECT \<noteq> 0
           then bindE (bread (i_dev (inodes s ip)) (i_addrs (inodes s ip) ! NDIRECT) s) (\<lambda>bp s.
             bindE (itrunc_indirect NINDIRECT 0 bp ip s) (\<lambda>_ s.
             bindE (brelse bp s) (\<lambda>_ s.
             bindE (bfree (i_dev (inodes s ip)) (i_addrs (inodes s ip) ! NDIRECT) s) (\<lambda>_ s.
             ret () (upd_inode ip (\<lambda>x. x\<lparr>i_addrs := (i_addrs x)[NDIRECT := 0]\<rparr>) s)))))
           else ret () s) (\<lambda>_ s.
    let s = upd_inode ip (\<lambda>x. x\<lparr>i_size := 0\<rparr>) s in iupdate ip s))"

definition iput :: "nat \<Rightarrow> kstate \<Rightarrow> unit kres" where
  "iput ip s =
    bindE (acquire ItableLock s) (\<lambda>_ s.
    bindE (if i_ref (inodes s ip) = 1 \<and> i_valid (inodes s ip) \<and> i_nlink (inodes s ip) = 0
           then
             bindE (acquiresleep (InodeLock ip) s) (\<lambda>_ s.
             bindE (release ItableLock s) (\<lambda>_ s.
             bindE (itrunc ip s) (\<lambda>_ s.
             let s = upd_inode ip (\<lambda>x. x\<lparr>i_type := 0\<rparr>) s
             in bindE (iupdate ip s) (\<lambda>_ s.
                let s = upd_inode ip (\<lambda>x. x\<lparr>i_valid := False\<rparr>) s
                in bindE (releasesleep (InodeLock ip) s) (\<lambda>_ s. acquire ItableLock s)))))
           else ret () s) (\<lambda>_ s.
    let s = upd_inode ip (\<lambda>x. x\<lparr>i_ref := i_ref x - 1\<rparr>) s in release ItableLock s))"

definition iunlockput :: "nat \<Rightarrow> kstate \<Rightarrow> unit kres" where
  "iunlockput ip s = bindE (iunlock (Some ip) s) (\<lambda>_ s. iput ip s)"

definition stati :: "nat \<Rightarrow> kstate \<Rightarrow> stat" where
  "stati ip s =
    (let x = inodes s ip
     in \<lparr>st_dev = i_dev x, st_ino = i_inum x, st_type = i_type x, st_nlink = i_nlink x,
         st_size = ucast (i_size x)\<rparr>)"

text \<open>The bytes a round of \<^verbatim>\<open>readi\<close> or \<^verbatim>\<open>writei\<close> moves: to the end of the block or of the request.\<close>

definition span :: "uint \<Rightarrow> uint \<Rightarrow> uint \<Rightarrow> uint" where
  "span n tot off =
    (let x = n - tot; y = of_nat BSIZE - off mod of_nat BSIZE in if x < y then x else y)"

lemma span_decreases:
  assumes "tot < n"
  shows "unat (n - (tot + span n tot off)) < unat (n - tot)"
proof -
  let ?m = "span n tot off"
  have y: "off mod of_nat BSIZE < (of_nat BSIZE :: uint)"
    by (simp add: BSIZE_def word_mod_less_divisor word_gt_0)
  have pos: "?m \<noteq> 0" and le: "?m \<le> n - tot"
    using assms y by (auto simp: span_def Let_def)
  have eq: "n - (tot + ?m) = (n - tot) - ?m" by simp
  have "unat ((n - tot) - ?m) = unat (n - tot) - unat ?m" using le by (rule unat_sub)
  moreover have "0 < unat ?m" using pos by (simp add: unat_gt_0)
  moreover have "unat ?m \<le> unat (n - tot)" using le by (simp add: word_le_nat_alt)
  ultimately show ?thesis unfolding eq by linarith
qed

function readi_loop :: "nat \<Rightarrow> bool \<Rightarrow> uint64 \<Rightarrow> uint \<Rightarrow> uint \<Rightarrow> uint \<Rightarrow> kstate \<Rightarrow> int kres" where
  "readi_loop ip user_dst dst off n tot s =
    (if tot < n
     then bindE (bmap ip (off div of_nat BSIZE) s) (\<lambda>addr s.
       if addr = 0 then ret (uint tot) s
       else bindE (bread (i_dev (inodes s ip)) addr s) (\<lambda>bp s.
         let m = span n tot off
         in bindE (either_copyout user_dst dst (drop (unat (off mod of_nat BSIZE)) (b_data (bufs s bp)))
                     (ucast m) s) (\<lambda>r s.
            if r = -1 then bindE (brelse bp s) (\<lambda>_ s. ret (-1) s)
            else bindE (brelse bp s) (\<lambda>_ s.
              readi_loop ip user_dst (dst + ucast m) (off + m) n (tot + m) s))))
     else ret (uint tot) s)"
  by pat_completeness auto
termination
  by (relation "measure (\<lambda>(ip, u, d, off, n, tot, s). unat (n - tot))") (auto intro: span_decreases)

declare readi_loop.simps [simp del]

definition readi :: "nat \<Rightarrow> bool \<Rightarrow> uint64 \<Rightarrow> uint \<Rightarrow> uint \<Rightarrow> kstate \<Rightarrow> int kres" where
  "readi ip user_dst dst off n s =
    (let sz = i_size (inodes s ip)
     in if off > sz \<or> off + n < off then ret 0 s
        else
          let n = (if off + n > sz then sz - off else n)
          in readi_loop ip user_dst dst off n 0 s)"

function writei_loop ::
  "nat \<Rightarrow> bool \<Rightarrow> uint64 \<Rightarrow> uint \<Rightarrow> uint \<Rightarrow> uint \<Rightarrow> kstate \<Rightarrow> (uint \<times> uint) kres" where
  "writei_loop ip user_src src off n tot s =
    (if tot < n
     then bindE (bmap ip (off div of_nat BSIZE) s) (\<lambda>addr s.
       if addr = 0 then ret (tot, off) s
       else bindE (bread (i_dev (inodes s ip)) addr s) (\<lambda>bp s.
         let m = span n tot off
         in bindE (either_copyin user_src src (ucast m) s) (\<lambda>(r, bs) s.
            let s = set_data bp (splice (b_data (bufs s bp)) (unat (off mod of_nat BSIZE)) bs) s
            in if r = -1 then bindE (brelse bp s) (\<lambda>_ s. ret (tot, off) s)
               else bindE (log_write bp s) (\<lambda>_ s.
                 bindE (brelse bp s) (\<lambda>_ s.
                 writei_loop ip user_src (src + ucast m) (off + m) n (tot + m) s)))))
     else ret (tot, off) s)"
  by pat_completeness auto
termination
  by (relation "measure (\<lambda>(ip, u, d, off, n, tot, s). unat (n - tot))") (auto intro: span_decreases)

declare writei_loop.simps [simp del]

definition writei :: "nat \<Rightarrow> bool \<Rightarrow> uint64 \<Rightarrow> uint \<Rightarrow> uint \<Rightarrow> kstate \<Rightarrow> int kres" where
  "writei ip user_src src off n s =
    (if off > i_size (inodes s ip) \<or> off + n < off then ret (-1) s
     else if off + n > of_nat (MAXFILE * BSIZE) then ret (-1) s
     else
       bindE (writei_loop ip user_src src off n 0 s) (\<lambda>(tot, off) s.
       let s = (if off > i_size (inodes s ip) then upd_inode ip (\<lambda>x. x\<lparr>i_size := off\<rparr>) s else s)
       in bindE (iupdate ip s) (\<lambda>_ s. ret (sint tot) s)))"

section \<open>Directories\<close>

definition DIRENT :: uint where "DIRENT = 16"

definition namecmp :: "uchar list \<Rightarrow> uchar list \<Rightarrow> int" where
  "namecmp s t = strncmp (at_list s) (at_list t) (of_nat DIRSIZ)"

text \<open>The entry that \<^verbatim>\<open>readi\<close> has put into the local variable \<^verbatim>\<open>de\<close>: its inode number and name.\<close>

definition dirent_inum :: "kstate \<Rightarrow> ushort" where
  "dirent_inum s = word_of_bytes (load_bytes (mem s) (kframe s) 2)"

definition dirent_name :: "kstate \<Rightarrow> uchar list" where
  "dirent_name s = load_bytes (mem s) (kframe s + 2) DIRSIZ"

text \<open>
  The scans over the entries of a directory take at most one round more than it has entries;
  out of rounds means that the offset has wrapped around.
\<close>

definition dir_rounds :: "uint \<Rightarrow> nat" where
  "dir_rounds sz = (unat sz + 15) div 16 + 1"

primrec dirlookup_from :: "nat \<Rightarrow> uint \<Rightarrow> nat \<Rightarrow> uchar list \<Rightarrow> kstate \<Rightarrow> (nat \<times> uint) option kres" where
  "dirlookup_from 0 off dp name s = Inl Forever"
| "dirlookup_from (Suc n) off dp name s =
    (if off < i_size (inodes s dp)
     then bindE (readi dp False (kframe s) off DIRENT s) (\<lambda>r s.
       if r \<noteq> uint DIRENT then panic ''dirlookup read''
       else if dirent_inum s = 0 then dirlookup_from n (off + DIRENT) dp name s
       else if namecmp name (dirent_name s) = 0
       then bindE (iget (i_dev (inodes s dp)) (ucast (dirent_inum s)) s) (\<lambda>ip s. ret (Some (ip, off)) s)
       else dirlookup_from n (off + DIRENT) dp name s)
     else ret None s)"

definition dirlookup :: "nat \<Rightarrow> uchar list \<Rightarrow> kstate \<Rightarrow> (nat \<times> uint) option kres" where
  "dirlookup dp name s =
    (if i_type (inodes s dp) \<noteq> T_DIR then panic ''dirlookup not DIR''
     else dirlookup_from (dir_rounds (i_size (inodes s dp))) 0 dp name s)"

primrec dirlink_slot :: "nat \<Rightarrow> uint \<Rightarrow> nat \<Rightarrow> kstate \<Rightarrow> uint kres" where
  "dirlink_slot 0 off dp s = Inl Forever"
| "dirlink_slot (Suc n) off dp s =
    (if off < i_size (inodes s dp)
     then bindE (readi dp False (kframe s) off DIRENT s) (\<lambda>r s.
       if r \<noteq> uint DIRENT then panic ''dirlink read''
       else if dirent_inum s = 0 then ret off s
       else dirlink_slot n (off + DIRENT) dp s)
     else ret off s)"

definition dirlink :: "nat \<Rightarrow> uchar list \<Rightarrow> uint \<Rightarrow> kstate \<Rightarrow> int kres" where
  "dirlink dp name inum s =
    bindE (dirlookup dp name s) (\<lambda>r s.
    case r of
      Some (ip, _) \<Rightarrow> bindE (iput ip s) (\<lambda>_ s. ret (-1) s)
    | None \<Rightarrow>
        bindE (dirlink_slot (dir_rounds (i_size (inodes s dp))) 0 dp s) (\<lambda>off s.
        let s = s\<lparr>mem := store_bytes (mem s) (kframe s + 2) (strncpy (at_list name) (int DIRSIZ))\<rparr>;
            s = s\<lparr>mem := store_bytes (mem s) (kframe s) (bytes_of_word 2 (ucast inum :: ushort))\<rparr>
        in bindE (writei dp False (kframe s) off DIRENT s) (\<lambda>r s.
           if r \<noteq> uint DIRENT then ret (-1) s else ret 0 s)))"

section \<open>Paths\<close>

definition slash :: uchar where "slash = 0x2f"

definition at_end :: "uchar list \<Rightarrow> bool" where
  "at_end path \<longleftrightarrow> path = [] \<or> hd path = 0"

definition skipelem :: "uchar list \<Rightarrow> uchar list \<Rightarrow> (uchar list \<times> uchar list) option" where
  "skipelem path name =
    (let path = dropWhile (\<lambda>c. c = slash) path
     in if at_end path then None
        else
          let e = takeWhile (\<lambda>c. c \<noteq> slash \<and> c \<noteq> 0) path;
              rest = dropWhile (\<lambda>c. c \<noteq> slash \<and> c \<noteq> 0) path;
              len = length e;
              name = (if len \<ge> DIRSIZ then take DIRSIZ e else splice name 0 (e @ [0]))
          in Some (dropWhile (\<lambda>c. c = slash) rest, name))"

text \<open>
  The loop of \<^verbatim>\<open>namex\<close>: every round takes at least one byte of the path. The value is the inode
  found, with the content of the buffer \<^verbatim>\<open>name\<close>.
\<close>

primrec namex_loop ::
  "nat \<Rightarrow> uchar list \<Rightarrow> bool \<Rightarrow> uchar list \<Rightarrow> nat \<Rightarrow> kstate \<Rightarrow> (nat option \<times> uchar list) kres" where
  "namex_loop 0 path par name ip s = Inl Forever"
| "namex_loop (Suc n) path par name ip s =
    (case skipelem path name of
       None \<Rightarrow>
         if par then bindE (iput ip s) (\<lambda>_ s. ret (None, name) s) else ret (Some ip, name) s
     | Some (path, name) \<Rightarrow>
         bindE (ilock (Some ip) s) (\<lambda>_ s.
         if i_type (inodes s ip) \<noteq> T_DIR then bindE (iunlockput ip s) (\<lambda>_ s. ret (None, name) s)
         else if par \<and> at_end path then bindE (iunlock (Some ip) s) (\<lambda>_ s. ret (Some ip, name) s)
         else bindE (dirlookup ip name s) (\<lambda>r s.
           case r of
             None \<Rightarrow> bindE (iunlockput ip s) (\<lambda>_ s. ret (None, name) s)
           | Some (nxt, _) \<Rightarrow>
               bindE (iunlockput ip s) (\<lambda>_ s. namex_loop n path par name nxt s))))"

definition namex :: "uchar list \<Rightarrow> bool \<Rightarrow> uchar list \<Rightarrow> kstate \<Rightarrow> (nat option \<times> uchar list) kres" where
  "namex path par name s =
    bindE (if \<not> at_end path \<and> hd path = slash then iget ROOTDEV ROOTINO s
           else bindE (curproc s) (\<lambda>p s.
             case p_cwd (procs s p) of None \<Rightarrow> Inl NullDeref | Some ip \<Rightarrow> idup ip s)) (\<lambda>ip s.
    namex_loop (Suc (length path)) path par name ip s)"

definition namei :: "uchar list \<Rightarrow> kstate \<Rightarrow> nat option kres" where
  "namei path s = bindE (namex path False (load_bytes (mem s) (kframe s) DIRSIZ) s) (\<lambda>(ip, _) s. ret ip s)"

definition nameiparent :: "uchar list \<Rightarrow> uchar list \<Rightarrow> kstate \<Rightarrow> (nat option \<times> uchar list) kres" where
  "nameiparent path name s = namex path True name s"

end
