(* ===== verification/Pipe.thy ===== *)
theory Pipe
  imports Fs
begin

text \<open>
  \<^verbatim>\<open>kernel/pipe.c\<close> but for \<^verbatim>\<open>pipealloc\<close>, which is in \<open>File\<close>. A pipe is named by the address of its
  page. The counters \<^verbatim>\<open>nread\<close> and \<^verbatim>\<open>nwrite\<close> run on and wrap around at 32 bits.
\<close>

section \<open>Operations\<close>

definition pipeclose :: "uint64 \<Rightarrow> bool \<Rightarrow> kstate \<Rightarrow> unit kres" where
  "pipeclose pi writable s =
    bindE (acquire (PipeLock pi) s) (\<lambda>_ s.
    bindE (if writable
           then wakeup (Some (ChanPipeRead pi)) (upd_pipe pi (\<lambda>x. x\<lparr>pi_writeopen := False\<rparr>) s)
           else wakeup (Some (ChanPipeWrite pi)) (upd_pipe pi (\<lambda>x. x\<lparr>pi_readopen := False\<rparr>) s)) (\<lambda>_ s.
    if \<not> pi_readopen (pipes s pi) \<and> \<not> pi_writeopen (pipes s pi)
    then bindE (release (PipeLock pi) s) (\<lambda>_ s. kfree pi s)
    else release (PipeLock pi) s))"

definition pipewrite_end :: "uint64 \<Rightarrow> nat \<Rightarrow> kstate \<Rightarrow> int kres" where
  "pipewrite_end pi i s =
    bindE (wakeup (Some (ChanPipeRead pi)) s) (\<lambda>_ s.
    bindE (release (PipeLock pi) s) (\<lambda>_ s. ret (int i) s))"

text \<open>Byte \<open>ch\<close> goes into the ring.\<close>

definition pipe_put :: "uchar \<Rightarrow> pipe \<Rightarrow> pipe" where
  "pipe_put ch x =
    x\<lparr>pi_data := (pi_data x)(unat (pi_nwrite x mod PIPESIZE) := ch), pi_nwrite := pi_nwrite x + 1\<rparr>"

text \<open>
  \<open>pipewrite_loop m i\<close>: the loop with \<open>i\<close> bytes written and \<open>m\<close> to go. When the ring is full the
  process sleeps, and the call resumes at this loop with the same \<open>i\<close>.
\<close>

primrec pipewrite_loop :: "nat \<Rightarrow> nat \<Rightarrow> uint64 \<Rightarrow> uint64 \<Rightarrow> nat \<Rightarrow> kstate \<Rightarrow> int kres" where
  "pipewrite_loop 0 i pi addr pr s = pipewrite_end pi i s"
| "pipewrite_loop (Suc m) i pi addr pr s =
    bindE (if \<not> pi_readopen (pipes s pi) then ret True s
           else bindE (killed pr s) (\<lambda>k s. ret (k \<noteq> 0) s)) (\<lambda>stop s.
    if stop then bindE (release (PipeLock pi) s) (\<lambda>_ s. ret (-1) s)
    else if pi_nwrite (pipes s pi) = pi_nread (pipes s pi) + PIPESIZE
    then bindE (wakeup (Some (ChanPipeRead pi)) s) (\<lambda>_ s.
         sleep (ChanPipeWrite pi) (PipeLock pi) (int i) s)
    else bindE (copyin (p_pagetable (procs s pr)) (addr + of_nat i) 1 s) (\<lambda>(r, ch) s.
      if r = -1 then pipewrite_end pi i s
      else pipewrite_loop m (i + 1) pi addr pr (upd_pipe pi (pipe_put (hd ch)) s)))"

definition pipewrite :: "uint64 \<Rightarrow> uint64 \<Rightarrow> int \<Rightarrow> kstate \<Rightarrow> int kres" where
  "pipewrite pi addr n s =
    bindE (curproc s) (\<lambda>pr s.
    bindE (acquire (PipeLock pi) s) (\<lambda>_ s. pipewrite_loop (nat n) 0 pi addr pr s))"

primrec piperead_copy :: "nat \<Rightarrow> nat \<Rightarrow> uint64 \<Rightarrow> uint64 \<Rightarrow> nat \<Rightarrow> kstate \<Rightarrow> nat kres" where
  "piperead_copy 0 i pi addr pr s = ret i s"
| "piperead_copy (Suc m) i pi addr pr s =
    (if pi_nread (pipes s pi) = pi_nwrite (pipes s pi) then ret i s
     else
       let ch = pi_data (pipes s pi) (unat (pi_nread (pipes s pi) mod PIPESIZE));
           s = upd_pipe pi (\<lambda>x. x\<lparr>pi_nread := pi_nread x + 1\<rparr>) s
       in bindE (copyout (p_pagetable (procs s pr)) (addr + of_nat i) [ch] 1 s) (\<lambda>r s.
          if r = -1 then ret i s else piperead_copy m (i + 1) pi addr pr s))"

text \<open>The part after \<^verbatim>\<open>acquire\<close>, to which a reader that has slept comes back.\<close>

definition piperead_loop :: "uint64 \<Rightarrow> uint64 \<Rightarrow> int \<Rightarrow> nat \<Rightarrow> kstate \<Rightarrow> int kres" where
  "piperead_loop pi addr n pr s =
    (if pi_nread (pipes s pi) = pi_nwrite (pipes s pi) \<and> pi_writeopen (pipes s pi)
     then bindE (killed pr s) (\<lambda>k s.
       if k \<noteq> 0 then bindE (release (PipeLock pi) s) (\<lambda>_ s. ret (-1) s)
       else sleep (ChanPipeRead pi) (PipeLock pi) 0 s)
     else bindE (piperead_copy (nat n) 0 pi addr pr s) (\<lambda>i s.
       bindE (wakeup (Some (ChanPipeWrite pi)) s) (\<lambda>_ s.
       bindE (release (PipeLock pi) s) (\<lambda>_ s. ret (int i) s))))"

definition piperead :: "uint64 \<Rightarrow> uint64 \<Rightarrow> int \<Rightarrow> kstate \<Rightarrow> int kres" where
  "piperead pi addr n s =
    bindE (curproc s) (\<lambda>pr s.
    bindE (acquire (PipeLock pi) s) (\<lambda>_ s. piperead_loop pi addr n pr s))"

section \<open>The queue a pipe holds\<close>

interpretation pq: ring PIPESIZE
  by unfold_locales (rule exI [of _ 9], simp add: PIPESIZE_def)

definition pipe_queue :: "pipe \<Rightarrow> uchar list" where
  "pipe_queue x = ring_list PIPESIZE (pi_data x) (pi_nread x) (pi_nwrite x)"

definition pipe_inv :: "pipe \<Rightarrow> bool" where
  "pipe_inv x \<longleftrightarrow> pi_nwrite x - pi_nread x \<le> PIPESIZE"

definition ubytes :: "memory \<Rightarrow> uint64 \<Rightarrow> uint64 \<Rightarrow> nat \<Rightarrow> uchar list" where
  "ubytes m t va n = map (\<lambda>k. m (uaddr m t (va + of_nat k))) [0..<n]"

lemma length_ubytes [simp]: "length (ubytes m t va n) = n"
  by (simp add: ubytes_def)

lemma ubytes_0 [simp]: "ubytes m t va 0 = []"
  by (simp add: ubytes_def)

lemma ubytes_Suc: "ubytes m t va (Suc n) = m (uaddr m t va) # ubytes m t (va + 1) n"
  unfolding ubytes_def by (simp add: upt_conv_Cons map_Suc_upt [symmetric] add.assoc del: upt_Suc)

lemma unat_PIPESIZE: "unat PIPESIZE = 512"
  by (simp add: PIPESIZE_def)

lemma pipe_inv_iff: "pipe_inv x \<longleftrightarrow> length (pipe_queue x) \<le> 512"
  by (simp add: pipe_inv_def pipe_queue_def word_le_nat_alt unat_PIPESIZE)

lemma pipe_full_iff:
  assumes "pipe_inv x"
  shows "pi_nwrite x = pi_nread x + PIPESIZE \<longleftrightarrow> length (pipe_queue x) = 512"
proof -
  have "length (pipe_queue x) = 512 \<longleftrightarrow> unat (pi_nwrite x - pi_nread x) = unat PIPESIZE"
    by (simp add: pipe_queue_def unat_PIPESIZE)
  also have "\<dots> \<longleftrightarrow> pi_nwrite x - pi_nread x = PIPESIZE" by (metis unsigned_word_eqI)
  also have "\<dots> \<longleftrightarrow> pi_nwrite x = pi_nread x + PIPESIZE" by (auto simp: algebra_simps)
  finally show ?thesis by simp
qed

lemma pipe_put_simps [simp]:
  "pi_readopen (pipe_put ch x) = pi_readopen x" "pi_writeopen (pipe_put ch x) = pi_writeopen x"
  by (simp_all add: pipe_put_def)

lemma pipe_queue_put:
  "length (pipe_queue x) < 512 \<Longrightarrow> pipe_queue (pipe_put ch x) = pipe_queue x @ [ch]"
  using pq.put [of "pi_nwrite x" "pi_nread x"] by (simp add: pipe_queue_def pipe_put_def unat_PIPESIZE)

lemma pipe_queue_puts:
  "length (pipe_queue x) + length bs \<le> 512 \<Longrightarrow> pipe_queue (fold pipe_put bs x) = pipe_queue x @ bs"
  by (induction bs arbitrary: x) (simp_all add: pipe_queue_put)

lemma pipe_puts_open [simp]: "pi_readopen (fold pipe_put bs x) = pi_readopen x"
  by (induction bs arbitrary: x) simp_all

lemma pipe_queue_get:
  assumes "pi_nread x \<noteq> pi_nwrite x"
  shows "pipe_queue x = pi_data x (unat (pi_nread x mod PIPESIZE)) # pipe_queue (x\<lparr>pi_nread := pi_nread x + 1\<rparr>)"
  using pq.get [of "pi_nwrite x" "pi_nread x" "pi_data x"] assms by (simp add: pipe_queue_def)

lemma upd_pipe_simps [simp]:
  "cpu_ok (upd_pipe pi f s) = cpu_ok s" "lock_free lk (upd_pipe pi f s) = lock_free lk s"
  "procs (upd_pipe pi f s) = procs s" "mem (upd_pipe pi f s) = mem s" "mycpu (upd_pipe pi f s) = mycpu s"
  "proc_locks_free (upd_pipe pi f s) = proc_locks_free s" "intr_get (upd_pipe pi f s) = intr_get s"
  "pipes (upd_pipe pi f s) = (pipes s)(pi := f (pipes s pi))"
  "upd_pipe pi f (locked_in lk s) = locked_in lk (upd_pipe pi f s)"
  by (simp_all add: upd_pipe_def proc_locks_free_def)

lemma upd_pipe_mem [simp]: "(upd_pipe pi f s)\<lparr>mem := m\<rparr> = upd_pipe pi f (s\<lparr>mem := m\<rparr>)"
  by (simp add: upd_pipe_def)

lemma upd_pipe_upd_pipe [simp]: "upd_pipe pi f (upd_pipe pi g s) = upd_pipe pi (f \<circ> g) s"
  by (simp add: upd_pipe_def)

lemma upd_pipe_id [simp]: "upd_pipe pi id s = s" "upd_pipe pi (\<lambda>x. x) s = s"
  by (rule kstate.equality; simp add: upd_pipe_def)+

lemma killed_eq:
  "cpu_ok s \<Longrightarrow> lock_free (ProcLock p) s \<Longrightarrow> killed p s = ret (p_killed (procs s p)) (crit s)"
  by (simp add: killed_def Let_def)

section \<open>Writing\<close>

lemma copyin_byte:
  assumes "pt_ok 2 (mem s) t" and "user_readable (mem s) t va"
  shows "copyin t va 1 s = ret (0, [mem s (uaddr (mem s) t va)]) s"
  using copyin_correct [OF assms(1), of va 1] assms(2) by (auto simp: upt_rec ret_def)

text \<open>The loop, inside the pipe's lock: it stores all the bytes, or fills the ring and sleeps.\<close>

lemma pipewrite_loop_eq:
  fixes pi addr
  assumes "cpu_ok s" and "lock_free (ProcLock pr) s" and "p_killed (procs s pr) = 0"
    and "pi_readopen (pipes s pi)" and "pipe_inv (pipes s pi)"
    and "pt_ok 2 (mem s) (p_pagetable (procs s pr))"
    and "\<forall>k < m. user_readable (mem s) (p_pagetable (procs s pr)) (addr + of_nat (i + k))"
  defines "room \<equiv> 512 - length (pipe_queue (pipes s pi))"
  defines "s' \<equiv> upd_pipe pi (fold pipe_put (ubytes (mem s) (p_pagetable (procs s pr)) (addr + of_nat i) (min m room))) s"
  shows "pipewrite_loop m i pi addr pr (locked_in (PipeLock pi) s) =
    (if m \<le> room then pipewrite_end pi (i + m) (locked_in (PipeLock pi) s')
     else bindE (wakeup (Some (ChanPipeRead pi)) (locked_in (PipeLock pi) s')) (\<lambda>_ s.
          sleep (ChanPipeWrite pi) (PipeLock pi) (int (i + room)) s))"
  using assms(1-7) unfolding s'_def room_def
proof (induction m arbitrary: i s)
  case 0
  then show ?case by simp
next
  case (Suc m)
  let ?t = "p_pagetable (procs s pr)" and ?L = "locked_in (PipeLock pi)" and ?q = "pipe_queue (pipes s pi)"
  have kl: "killed pr (?L s) = ret 0 (?L s)" using killed_eq [of "?L s" pr] Suc.prems by simp
  show ?case
  proof (cases "length ?q = 512")
    case True
    then show ?thesis using Suc.prems kl pipe_full_iff by simp
  next
    case False
    then have room: "length ?q < 512" using Suc.prems(5) by (simp add: pipe_inv_iff)
    let ?b = "mem s (uaddr (mem s) ?t (addr + of_nat i))"
    let ?s = "upd_pipe pi (pipe_put ?b) s"
    have rd: "user_readable (mem s) ?t (addr + of_nat (i + k))" if "k < Suc m" for k
      using Suc.prems(7) that by blast
    have "user_readable (mem s) ?t (addr + of_nat i)" using rd [of 0] by simp
    then have cp: "copyin ?t (addr + of_nat i) 1 (?L s) = ret (0, [?b]) (?L s)"
      using copyin_byte [of "?L s" ?t "addr + of_nat i"] Suc.prems(6) by simp
    have step: "pipewrite_loop (Suc m) i pi addr pr (?L s) = pipewrite_loop m (Suc i) pi addr pr (?L ?s)"
      using False Suc.prems(4,5) kl cp pipe_full_iff by simp
    have "user_readable (mem s) ?t (addr + of_nat (Suc i + k))" if "k < m" for k
      using rd [of "Suc k"] that by simp
    moreover have q: "pipe_queue (pipes ?s pi) = ?q @ [?b]" using room by (simp add: pipe_queue_put)
    moreover have min: "min (Suc m) (512 - length ?q) = Suc (min m (512 - Suc (length ?q)))"
      "512 - length ?q = Suc (512 - Suc (length ?q))" using room by simp_all
    ultimately show ?thesis
      using Suc.IH [of ?s "Suc i"] Suc.prems room unfolding step min
      by (cases "m \<le> 511 - length ?q") (simp_all add: ubytes_Suc pipe_inv_iff add_ac pipe_queue_put comp_def)
  qed
qed

section \<open>Reading\<close>

definition advance :: "nat \<Rightarrow> pipe \<Rightarrow> pipe" where
  "advance n x = x\<lparr>pi_nread := pi_nread x + of_nat n\<rparr>"

lemma advance_0 [simp]: "advance 0 = id"
  by (simp add: advance_def fun_eq_iff)

lemma advance_1: "(\<lambda>x. x\<lparr>pi_nread := pi_nread x + 1\<rparr>) = advance (Suc 0)"
  by (simp add: advance_def fun_eq_iff)

lemma advance_advance [simp]: "advance n \<circ> advance k = advance (n + k)"
  by (auto simp: advance_def fun_eq_iff)

lemma pipe_queue_advance: "n \<le> length (pipe_queue x) \<Longrightarrow> pipe_queue (advance n x) = drop n (pipe_queue x)"
proof (induction n arbitrary: x)
  case (Suc n)
  have "pi_nread x \<noteq> pi_nwrite x" using Suc.prems by (auto simp: pipe_queue_def)
  then have q: "pipe_queue x = pi_data x (unat (pi_nread x mod PIPESIZE)) # pipe_queue (advance 1 x)"
    using pipe_queue_get by (simp add: advance_def)
  moreover have "advance (Suc n) x = advance n (advance 1 x)" by (simp add: advance_def)
  ultimately show ?case using Suc.IH [of "advance 1 x"] Suc.prems by simp
qed simp

text \<open>A user address space that the copies may write: tables apart from the pages, no page twice.\<close>

definition uspace :: "memory \<Rightarrow> uint64 \<Rightarrow> bool" where
  "uspace m t \<longleftrightarrow> pt_ok 2 m t \<and> upages m t \<inter> tabs 2 m t = {} \<and> no_alias m t"

lemma copyout_byte:
  fixes b :: uchar
  assumes "uspace (mem s) t" and "user_writable (mem s) t va"
  defines "m' \<equiv> (mem s)(uaddr (mem s) t va := b)"
  shows "copyout t va [b] 1 s = ret 0 (s\<lparr>mem := m'\<rparr>)" and "uspace m' t"
    and "user_writable m' t = user_writable (mem s) t" and "uaddr m' t = uaddr (mem s) t"
proof -
  have u: "pt_ok 2 (mem s) t" "upages (mem s) t \<inter> tabs 2 (mem s) t = {}" "no_alias (mem s) t"
    using assms(1) by (simp_all add: uspace_def)
  obtain m where m: "copyout t va [b] 1 s = Inr (0, s\<lparr>mem := m\<rparr>)" "same_outside (upages (mem s) t) (mem s) m"
    "m (uaddr (mem s) t va) = b" "\<forall>x. x \<noteq> uaddr (mem s) t va \<longrightarrow> m x = mem s x"
    using copyout_bytes [OF u, of 1 va "[b]"] assms(2) by auto
  have eq: "m = m'" using m(3,4) by (auto simp: m'_def)
  note fr = user_frame [OF u(1,2) m(2), unfolded eq]
  show "copyout t va [b] 1 s = ret 0 (s\<lparr>mem := m'\<rparr>)" using m(1) by (simp add: eq ret_def)
  show "user_writable m' t = user_writable (mem s) t" "uaddr m' t = uaddr (mem s) t" by (fact fr)+
  show "uspace m' t" using u fr by (simp add: uspace_def)
qed

lemma piperead_copy_eq:
  fixes pi addr
  assumes "uspace (mem s) (p_pagetable (procs s pr))" and "i + m < 2 ^ 64"
    and "\<forall>k < m. user_writable (mem s) (p_pagetable (procs s pr)) (addr + of_nat (i + k))"
  defines "u \<equiv> uaddr (mem s) (p_pagetable (procs s pr))"
  defines "q \<equiv> pipe_queue (pipes s pi)"
  defines "n \<equiv> min m (length q)"
  shows "\<exists>m'. piperead_copy m i pi addr pr (locked_in lk s) =
      ret (i + n) (locked_in lk (upd_pipe pi (advance n) (s\<lparr>mem := m'\<rparr>))) \<and>
    (\<forall>k < n. m' (u (addr + of_nat (i + k))) = q ! k) \<and>
    (\<forall>x. (\<forall>k < n. x \<noteq> u (addr + of_nat (i + k))) \<longrightarrow> m' x = mem s x)"
  using assms(1-3) unfolding n_def q_def u_def
proof (induction m arbitrary: i s)
  case 0
  have "locked_in lk s = locked_in lk (s\<lparr>mem := mem s\<rparr>)" by simp
  then show ?case by (intro exI [of _ "mem s"]) simp
next
  case (Suc m)
  let ?t = "p_pagetable (procs s pr)" and ?q = "pipe_queue (pipes s pi)" and ?L = "locked_in lk"
  let ?u = "uaddr (mem s) ?t" and ?x = "pipes s pi"
  show ?case
  proof (cases "pi_nread ?x = pi_nwrite ?x")
    case True
    then have "?q = []" by (simp add: pipe_queue_def ring_list_empty_iff)
    then show ?thesis using True by (intro exI [of _ "mem s"]) simp
  next
    case False
    let ?b = "pi_data ?x (unat (pi_nread ?x mod PIPESIZE))"
    define m1 where "m1 = (mem s)(?u (addr + of_nat i) := ?b)"
    let ?s = "upd_pipe pi (advance 1) (s\<lparr>mem := m1\<rparr>)"
    have q: "?q = ?b # pipe_queue (advance 1 ?x)" using pipe_queue_get [OF False] by (simp add: advance_def)
    have wr: "user_writable (mem s) ?t (addr + of_nat (i + k))" if "k < Suc m" for k
      using Suc.prems(3) that by blast
    have w0: "user_writable (mem s) ?t (addr + of_nat i)" using wr [of 0] by simp
    let ?sl = "?L (upd_pipe pi (advance 1) s)"
    have c: "copyout ?t (addr + of_nat i) [?b] 1 ?sl = ret 0 (?L ?s)" and sp: "uspace m1 ?t"
      and fr: "user_writable m1 ?t = user_writable (mem s) ?t" "uaddr m1 ?t = ?u"
      using copyout_byte [of ?sl ?t "addr + of_nat i" ?b] Suc.prems(1) w0 by (simp_all add: m1_def)
    have step: "piperead_copy (Suc m) i pi addr pr (?L s) = piperead_copy m (Suc i) pi addr pr (?L ?s)"
      using False c by (simp add: advance_1 Let_def)
    define n where "n = min m (length (pipe_queue (advance 1 ?x)))"
    have "user_writable (mem s) ?t (addr + of_nat (Suc i + k))" if "k < m" for k
      using wr [of "Suc k"] that by simp
    then obtain m' where m': "piperead_copy m (Suc i) pi addr pr (?L ?s) =
          ret (Suc i + n) (?L (upd_pipe pi (advance n) (?s\<lparr>mem := m'\<rparr>)))"
        "\<forall>k < n. m' (?u (addr + of_nat (Suc i + k))) = pipe_queue (advance 1 ?x) ! k"
        "\<forall>x. (\<forall>k < n. x \<noteq> ?u (addr + of_nat (Suc i + k))) \<longrightarrow> m' x = m1 x"
      using Suc.IH [of ?s "Suc i"] Suc.prems(2) sp fr by (auto simp: n_def)
    have n: "min (Suc m) (length ?q) = Suc n" by (simp add: q n_def)
    have ne: "?u (addr + of_nat (Suc i + k)) \<noteq> ?u (addr + of_nat i)" if "k < m" for k
    proof
      assume "?u (addr + of_nat (Suc i + k)) = ?u (addr + of_nat i)"
      then have "addr + of_nat (Suc i + k) = addr + of_nat i"
        using uaddr_inj [OF _ wr [of "Suc k"] w0] that Suc.prems(1) by (simp add: uspace_def)
      then have "Suc i + k = i" by (rule add_of_nat_inj) (use Suc.prems(2) that in linarith)+
      then show False by simp
    qed
    have "m' (?u (addr + of_nat i)) = ?b"
      using m'(3) [rule_format, of "?u (addr + of_nat i)"] ne by (metis fun_upd_same m1_def min.strict_boundedE n_def)
    then have "\<forall>k < Suc n. m' (?u (addr + of_nat (i + k))) = ?q ! k"
      using m'(2) by (auto simp: less_Suc_eq_0_disj q add_ac)
    moreover have "m' x = mem s x" if x: "\<forall>k < Suc n. x \<noteq> ?u (addr + of_nat (i + k))" for x
    proof -
      have "x \<noteq> ?u (addr + of_nat (Suc i + k))" if "k < n" for k using x [rule_format, of "Suc k"] that by simp
      then show ?thesis using m'(3) [rule_format, of x] x [rule_format, of 0] by (simp add: m1_def)
    qed
    ultimately show ?thesis unfolding step n using m'(1) by (intro exI [of _ m']) simp
  qed
qed

section \<open>Properties\<close>

text \<open>
  C8: Writing to a pipe appends to its queue. With the read end open and at most 512 bytes in the
  ring, \<^verbatim>\<open>pipewrite(pi, addr, n)\<close> of a readable user range with room for \<open>n\<close> bytes returns \<open>n\<close> with
  exactly the user's bytes appended; without room it appends as many as fit, wakes the readers and
  sleeps with the pipe's lock released, remembering how far it came. The counters may wrap around.
\<close>

theorem pipewrite_appends:
  fixes pi addr n
  assumes "cpu_ok s" and "cpu_noff (mycpu s) = 0" and "cpu_proc (mycpu s) = Some p" and "p < NPROC"
    and "lock_free (PipeLock pi) s" and "proc_locks_free s" and "p_killed (procs s p) = 0"
    and "pi_readopen (pipes s pi)" and "pipe_inv (pipes s pi)" and "pt_ok 2 (mem s) (p_pagetable (procs s p))"
    and "\<forall>k < nat n. user_readable (mem s) (p_pagetable (procs s p)) (addr + of_nat k)" and "0 \<le> n"
  defines "q \<equiv> pipe_queue (pipes s pi)" and "bytes \<equiv> ubytes (mem s) (p_pagetable (procs s p)) addr"
  shows "if nat n + length q \<le> 512
    then \<exists>s'. pipewrite pi addr n s = ret n s' \<and> pipe_queue (pipes s' pi) = q @ bytes (nat n) \<and>
      pipe_inv (pipes s' pi) \<and> lock_free (PipeLock pi) s'
    else \<exists>ie s'. pipewrite pi addr n s = Inl (Asleep (ChanPipeWrite pi) (int (512 - length q)) ie s') \<and>
      pipe_queue (pipes s' pi) = q @ bytes (512 - length q) \<and> lock_free (PipeLock pi) s' \<and>
      p_state (procs s' p) = SLEEPING \<and> p_chan (procs s' p) = Some (ChanPipeWrite pi)"
proof -
  let ?m = "min (nat n) (512 - length q)" and ?L = "locked_in (PipeLock pi)"
  define t where "t = upd_pipe pi (fold pipe_put (bytes ?m)) s"
  define w where "w = t\<lparr>procs := awaken 0 NPROC (Some (ChanPipeRead pi)) (Some p) (procs t)\<rparr>"
  have pl: "lock_free (ProcLock p) s" using assms(4,6) by (simp add: proc_locks_free_def)
  have wk: "wakeup (Some (ChanPipeRead pi)) (?L t) = ret () (?L w)"
    using wakeup_eq [of "?L t"] assms(1,3,6) by (simp add: t_def w_def)
  have q: "length q \<le> 512" using assms(9) by (simp add: q_def pipe_inv_iff)
  then have pq: "pipe_queue (pipes w pi) = q @ bytes ?m"
    by (simp add: w_def t_def pipe_queue_puts q_def bytes_def)
  have w: "cpu_ok w" "cpu_noff (mycpu w) = 0" "cpu_proc (mycpu w) = Some p" "lock_free (PipeLock pi) w"
    "lock_free (ProcLock p) w" using assms(1-5) pl by (simp_all add: w_def t_def)
  have "pipewrite pi addr n s = pipewrite_loop (nat n) 0 pi addr p (?L s)"
    using assms(1,3,5) by (simp add: pipewrite_def)
  also have "\<dots> = (if nat n \<le> 512 - length q then pipewrite_end pi (nat n) (?L t)
      else sleep (ChanPipeWrite pi) (PipeLock pi) (int (512 - length q)) (?L w))"
    using pipewrite_loop_eq [of s p pi "nat n" addr 0] assms pl wk
    by (cases "nat n \<le> 512 - length q") (simp_all add: q_def bytes_def t_def)
  finally have eq: "pipewrite pi addr n s = (if nat n \<le> 512 - length q then ret n (crit w)
      else sleep (ChanPipeWrite pi) (PipeLock pi) (int (512 - length q)) (?L w))"
    using wk w assms(12) by (simp add: pipewrite_end_def)
  show ?thesis
  proof (cases "nat n + length q \<le> 512")
    case True
    then have "pipe_queue (pipes w pi) = q @ bytes (nat n)" and "nat n \<le> 512 - length q"
      using pq by (simp_all add: min_def)
    moreover from this eq have "pipewrite pi addr n s = ret n (crit w)" by simp
    moreover have "pipe_inv (pipes w pi)" using calculation(1) True by (simp add: pipe_inv_iff bytes_def)
    ultimately show ?thesis using True w(4) by auto
  next
    case False
    then have "pipe_queue (pipes w pi) = q @ bytes (512 - length q)" and "\<not> nat n \<le> 512 - length q"
      using pq q by (simp_all add: min_def)
    then show ?thesis
      using eq False w sleep_eq [OF w(1-5), of "ChanPipeWrite pi" "int (512 - length q)", where ?'a = int] by simp
  qed
qed

text \<open>
  C9: Reading from a pipe takes the front of its queue. \<^verbatim>\<open>piperead(pi, addr, n)\<close> of an empty pipe with
  a writer sleeps with the pipe's lock released; otherwise it returns the number of bytes it took,
  the smaller of \<open>n\<close> and the queue's length (0 is end of file), which are the first of the queue in
  order, now at \<open>addr\<close> in user memory, and no other byte of memory changes.
\<close>

theorem piperead_takes:
  fixes pi addr n
  assumes "cpu_ok s" and "cpu_noff (mycpu s) = 0" and "cpu_proc (mycpu s) = Some p" and "p < NPROC"
    and "lock_free (PipeLock pi) s" and "proc_locks_free s" and "p_killed (procs s p) = 0"
    and "pipe_inv (pipes s pi)" and "uspace (mem s) (p_pagetable (procs s p))"
    and "\<forall>k < nat n. user_writable (mem s) (p_pagetable (procs s p)) (addr + of_nat k)" and "n < 2 ^ 31"
  defines "q \<equiv> pipe_queue (pipes s pi)" and "u \<equiv> uaddr (mem s) (p_pagetable (procs s p))"
  defines "k \<equiv> min (nat n) (length q)"
  shows "if q = [] \<and> pi_writeopen (pipes s pi)
    then \<exists>ie s'. piperead pi addr n s = Inl (Asleep (ChanPipeRead pi) 0 ie s') \<and> lock_free (PipeLock pi) s' \<and>
      p_state (procs s' p) = SLEEPING \<and> p_chan (procs s' p) = Some (ChanPipeRead pi)
    else \<exists>s'. piperead pi addr n s = ret (int k) s' \<and> pipe_queue (pipes s' pi) = drop k q \<and>
      pipe_inv (pipes s' pi) \<and> lock_free (PipeLock pi) s' \<and>
      (\<forall>i < k. mem s' (u (addr + of_nat i)) = q ! i) \<and>
      (\<forall>x. (\<forall>i < k. x \<noteq> u (addr + of_nat i)) \<longrightarrow> mem s' x = mem s x)"
proof -
  let ?L = "locked_in (PipeLock pi)"
  have pl: "lock_free (ProcLock p) s" using assms(4,6) by (simp add: proc_locks_free_def)
  have e: "pi_nread (pipes s pi) = pi_nwrite (pipes s pi) \<longleftrightarrow> q = []"
    by (simp add: q_def pipe_queue_def ring_list_empty_iff)
  have eq: "piperead pi addr n s = piperead_loop pi addr n p (?L s)"
    using assms(1,3,5) by (simp add: piperead_def)
  show ?thesis
  proof (cases "q = [] \<and> pi_writeopen (pipes s pi)")
    case True
    have "killed p (?L s) = ret 0 (?L s)" using killed_eq [of "?L s" p] assms(1,7) pl by simp
    then have "piperead pi addr n s = sleep (ChanPipeRead pi) (PipeLock pi) 0 (?L s)"
      using True e by (simp add: eq piperead_loop_def)
    then show ?thesis
      using True assms(1-5) pl sleep_eq [of s p "PipeLock pi" "ChanPipeRead pi" 0, where ?'a = int] by simp
  next
    case False
    have "0 + nat n < 2 ^ 64" using assms(11) by simp
    then obtain m' where m': "piperead_copy (nat n) 0 pi addr p (?L s) =
          ret k (?L (upd_pipe pi (advance k) (s\<lparr>mem := m'\<rparr>)))"
        "\<forall>i < k. m' (u (addr + of_nat i)) = q ! i"
        "\<forall>x. (\<forall>i < k. x \<noteq> u (addr + of_nat i)) \<longrightarrow> m' x = mem s x"
      using piperead_copy_eq [of s p 0 "nat n" addr pi "PipeLock pi"] assms(9,10)
      by (auto simp: k_def q_def u_def)
    define t where "t = upd_pipe pi (advance k) (s\<lparr>mem := m'\<rparr>)"
    define w where "w = t\<lparr>procs := awaken 0 NPROC (Some (ChanPipeWrite pi)) (Some p) (procs t)\<rparr>"
    have "wakeup (Some (ChanPipeWrite pi)) (?L t) = ret () (?L w)"
      using wakeup_eq [of "?L t"] assms(1,3,6) by (simp add: t_def w_def proc_locks_free_def)
    then have "piperead pi addr n s = ret (int k) (crit w)"
      using False e m'(1) assms(1,5) by (auto simp: eq piperead_loop_def t_def w_def)
    moreover have pq: "pipe_queue (pipes w pi) = drop k q"
      by (simp add: w_def t_def q_def k_def pipe_queue_advance)
    moreover from this have "pipe_inv (pipes w pi)" using assms(8) by (simp add: pipe_inv_iff flip: q_def)
    moreover have "lock_free (PipeLock pi) w" "mem w = m'" using assms(5) by (simp_all add: w_def t_def)
    ultimately show ?thesis using False m'(2,3) by auto
  qed
qed

text \<open>
  A byte is lost when the reader's buffer cannot be written: it has left the queue before the copy
  fails.
\<close>

lemma piperead_loses_byte:
  assumes "cpu_ok s" and "cpu_proc (mycpu s) = Some p" and "lock_free (PipeLock pi) s" and "proc_locks_free s"
    and "pipe_queue (pipes s pi) = b # q" and "pt_ok 2 (mem s) (p_pagetable (procs s p))"
    and "\<not> user_writable (mem s) (p_pagetable (procs s p)) addr" and "0 < n"
  shows "\<exists>s'. piperead pi addr n s = ret 0 s' \<and> pipe_queue (pipes s' pi) = q \<and> mem s' = mem s"
proof -
  let ?L = "locked_in (PipeLock pi)"
  have ne: "pi_nread (pipes s pi) \<noteq> pi_nwrite (pipes s pi)"
    using assms(5) by (metis pipe_queue_def ring_list_empty_iff list.distinct(1))
  have c: "copyout (p_pagetable (procs s p)) addr bs 1 (?L t) = ret (-1) (?L t)" if "mem t = mem s" for bs t
    using copyout_step [of "?L t" _ 1 addr bs] assms(6,7) that by simp
  obtain m where n: "nat n = Suc m" using assms(8) by (metis gr0_implies_Suc zero_less_nat_eq)
  have "piperead_copy (nat n) 0 pi addr p (?L s) = ret 0 (?L (upd_pipe pi (advance 1) s))"
    using ne c by (simp add: n Let_def advance_1)
  moreover obtain ps where "wakeup (Some (ChanPipeWrite pi)) (?L (upd_pipe pi (advance 1) s)) =
      ret () (?L ((upd_pipe pi (advance 1) s)\<lparr>procs := ps\<rparr>))"
    using wakeup_eq [of "?L (upd_pipe pi (advance 1) s)"] assms(1,4) by (auto simp: proc_locks_free_def)
  ultimately have "piperead pi addr n s = ret 0 (crit ((upd_pipe pi (advance 1) s)\<lparr>procs := ps\<rparr>))"
    using assms(1-3) ne by (simp add: piperead_def piperead_loop_def)
  moreover have "pipe_queue (advance 1 (pipes s pi)) = q" using assms(5) pipe_queue_advance [of 1] by simp
  ultimately show ?thesis by (intro exI conjI) (assumption | simp)+
qed

section \<open>Witnesses\<close>

text \<open>A process with one user page at 0, a pipe whose counters are about to wrap, and its bytes.\<close>

definition sample_pipe :: "memory \<Rightarrow> kstate" where
  "sample_pipe m = sample_procs\<lparr>mem := m, procs := (\<lambda>p. (zero_proc\<lparr>p_pagetable := 0x80023000\<rparr>)),
    pipes := (\<lambda>_. \<lparr>pi_data = (\<lambda>i. if i = 511 then 104 else 105), pi_nread = 0xffffffff, pi_nwrite = 1,
      pi_readopen = True, pi_writeopen = True\<rparr>)\<rparr>"

lemma sample_pipe_ok [simp]:
  "cpu_ok (sample_pipe m)" "lock_free lk (sample_pipe m)" "proc_locks_free (sample_pipe m)"
  "cpu_noff (mycpu (sample_pipe m)) = 0" "cpu_proc (mycpu (sample_pipe m)) = Some 3" "mem (sample_pipe m) = m"
  "p_killed (procs (sample_pipe m) p) = 0" "p_pagetable (procs (sample_pipe m) p) = 0x80023000"
  "pi_readopen (pipes (sample_pipe m) pi)" "pipe_queue (pipes (sample_pipe m) pi) = [104, 105]"
  by (simp_all add: sample_pipe_def proc_locks_free_def zero_proc_def pipe_queue_def ring_list_def
      PIPESIZE_def upt_rec)

lemma sample_range:
  assumes "sample_space s" and "k < 3"
  shows "user_writable (mem s) 0x80023000 (16 + of_nat k)" and "user_readable (mem s) 0x80023000 (16 + of_nat k)"
proof -
  have "k = 0 \<or> k = 1 \<or> k = 2" using assms(2) by linarith
  then show w: "user_writable (mem s) 0x80023000 (16 + of_nat k)"
    by (elim disjE) (simp_all add: sample_space_user(1) [OF assms(1)])
  then show "user_readable (mem s) 0x80023000 (16 + of_nat k)"
    using sample_space_pages(4) [OF assms(1)] upagesI [OF w]
    by (auto simp: user_readable_def user_writable_def)
qed

theorem pipewrite_appends_witness:
  "\<exists>m s'. pipewrite 0x80040000 16 3 (sample_pipe m) = ret 3 s' \<and>
    pipe_queue (pipes s' 0x80040000) = [104, 105] @ ubytes m 0x80023000 16 3"
proof -
  obtain s where s: "sample_space s" using sample_space_exists by blast
  have "\<forall>k < nat 3. user_readable (mem s) 0x80023000 (16 + of_nat k)" using sample_range(2) [OF s] by simp
  then show ?thesis
    using pipewrite_appends [of "sample_pipe (mem s)" 3 "0x80040000" 3 16] sample_space_pages(1) [OF s]
    by (auto simp: NPROC_def pipe_inv_iff)
qed

theorem piperead_takes_witness:
  "\<exists>m s'. piperead 0x80040000 16 3 (sample_pipe m) = ret 2 s' \<and> pipe_queue (pipes s' 0x80040000) = []"
proof -
  obtain s where s: "sample_space s" using sample_space_exists by blast
  have "\<forall>k < nat 3. user_writable (mem s) 0x80023000 (16 + of_nat k)" using sample_range(1) [OF s] by simp
  moreover have "uspace (mem s) 0x80023000" using sample_space_pages [OF s] by (simp add: uspace_def)
  ultimately show ?thesis
    using piperead_takes [of "sample_pipe (mem s)" 3 "0x80040000" 3 16]
    by (auto simp: NPROC_def pipe_inv_iff)
qed

end
