(* ===== verification/File.thy ===== *)
theory File
  imports Pipe
begin

text \<open>
  \<^verbatim>\<open>kernel/file.c\<close>, the table of open files, and \<^verbatim>\<open>pipealloc\<close> of \<^verbatim>\<open>kernel/pipe.c\<close>. The only device
  of \<^verbatim>\<open>devsw\<close> is the console.
\<close>

section \<open>Operations\<close>

definition fileinit :: "kstate \<Rightarrow> kstate" where
  "fileinit s = initlock FtableLock ''ftable'' s"

primrec filealloc_scan :: "nat \<Rightarrow> nat \<Rightarrow> (nat \<Rightarrow> kfile) \<Rightarrow> nat option" where
  "filealloc_scan 0 f t = None"
| "filealloc_scan (Suc n) f t = (if f_ref (t f) = 0 then Some f else filealloc_scan n (f + 1) t)"

definition filealloc :: "kstate \<Rightarrow> nat option kres" where
  "filealloc s =
    bindE (acquire FtableLock s) (\<lambda>_ s.
    case filealloc_scan NFILE 0 (files s) of
      Some f \<Rightarrow>
        let s = upd_file f (\<lambda>x. x\<lparr>f_ref := 1\<rparr>) s
        in bindE (release FtableLock s) (\<lambda>_ s. ret (Some f) s)
    | None \<Rightarrow> bindE (release FtableLock s) (\<lambda>_ s. ret None s))"

definition filedup :: "nat \<Rightarrow> kstate \<Rightarrow> nat kres" where
  "filedup f s =
    bindE (acquire FtableLock s) (\<lambda>_ s.
    if f_ref (files s f) < 1 then panic ''filedup''
    else
      let s = upd_file f (\<lambda>x. x\<lparr>f_ref := f_ref x + 1\<rparr>) s
      in bindE (release FtableLock s) (\<lambda>_ s. ret f s))"

definition deref :: "'a option \<Rightarrow> kstate \<Rightarrow> 'a kres" where
  "deref p s = (case p of None \<Rightarrow> Inl NullDeref | Some x \<Rightarrow> ret x s)"

definition fileclose :: "nat \<Rightarrow> kstate \<Rightarrow> unit kres" where
  "fileclose f s =
    bindE (acquire FtableLock s) (\<lambda>_ s.
    if f_ref (files s f) < 1 then panic ''fileclose''
    else
      let s = upd_file f (\<lambda>x. x\<lparr>f_ref := f_ref x - 1\<rparr>) s
      in if f_ref (files s f) > 0 then release FtableLock s
         else
           let ff = files s f;
               s = upd_file f (\<lambda>x. x\<lparr>f_ref := 0\<rparr>) s;
               s = upd_file f (\<lambda>x. x\<lparr>f_type := FD_NONE\<rparr>) s
           in bindE (release FtableLock s) (\<lambda>_ s.
              if f_type ff = FD_PIPE then pipeclose (f_pipe ff) (f_writable ff) s
              else if f_type ff = FD_INODE \<or> f_type ff = FD_DEVICE
              then bindE (begin_op s) (\<lambda>_ s.
                   bindE (deref (f_ip ff) s) (\<lambda>ip s.
                   bindE (iput ip s) (\<lambda>_ s. end_op s)))
              else ret () s))"

text \<open>\<^verbatim>\<open>struct stat\<close> in memory: 24 bytes, with four bytes of padding that keep what was on the stack.\<close>

definition stat_bytes :: "stat \<Rightarrow> kstate \<Rightarrow> uchar list" where
  "stat_bytes st s =
    bytes_of_word 4 (st_dev st) @ bytes_of_word 4 (st_ino st) @ bytes_of_word 2 (st_type st) @
    bytes_of_word 2 (st_nlink st) @ load_bytes (mem s) (kframe s + 12) 4 @
    bytes_of_word 8 (st_size st)"

definition filestat :: "nat \<Rightarrow> uint64 \<Rightarrow> kstate \<Rightarrow> int kres" where
  "filestat f addr s =
    bindE (curproc s) (\<lambda>p s.
    if f_type (files s f) = FD_INODE \<or> f_type (files s f) = FD_DEVICE
    then bindE (ilock (f_ip (files s f)) s) (\<lambda>_ s.
         bindE (deref (f_ip (files s f)) s) (\<lambda>ip s.
         let st = stati ip s
         in bindE (iunlock (f_ip (files s f)) s) (\<lambda>_ s.
            bindE (copyout (p_pagetable (procs s p)) addr (stat_bytes st s) 24 s) (\<lambda>r s.
            if r < 0 then ret (-1) s else ret 0 s))))
    else ret (-1) s)"

definition fileread :: "nat \<Rightarrow> uint64 \<Rightarrow> int \<Rightarrow> kstate \<Rightarrow> int kres" where
  "fileread f addr n s =
    (let x = files s f
     in if \<not> f_readable x then ret (-1) s
        else case f_type x of
          FD_PIPE \<Rightarrow> piperead (f_pipe x) addr n s
        | FD_DEVICE \<Rightarrow>
            if f_major x < 0 \<or> f_major x \<ge> NDEV \<or> \<not> fst (devsw s (f_major x)) then ret (-1) s
            else consoleread True addr n s
        | FD_INODE \<Rightarrow>
            bindE (ilock (f_ip x) s) (\<lambda>_ s.
            bindE (deref (f_ip x) s) (\<lambda>ip s.
            bindE (readi ip True addr (f_off (files s f)) (word_of_int n) s) (\<lambda>r s.
            let s = (if r > 0 then upd_file f (\<lambda>x. x\<lparr>f_off := f_off x + word_of_int r\<rparr>) s else s)
            in bindE (iunlock (f_ip x) s) (\<lambda>_ s. ret r s))))
        | FD_NONE \<Rightarrow> panic ''fileread'')"

definition filewrite_max :: int where
  "filewrite_max = int ((MAXOPBLOCKS - 1 - 1 - 2) div 2 * BSIZE)"

function filewrite_loop :: "int \<Rightarrow> nat \<Rightarrow> uint64 \<Rightarrow> int \<Rightarrow> kstate \<Rightarrow> int kres" where
  "filewrite_loop i f addr n s =
    (if i < n
     then
       let n1 = n - i; n1 = (if n1 > filewrite_max then filewrite_max else n1)
       in bindE (begin_op s) (\<lambda>_ s.
          bindE (ilock (f_ip (files s f)) s) (\<lambda>_ s.
          bindE (deref (f_ip (files s f)) s) (\<lambda>ip s.
          bindE (writei ip True (addr + word_of_int i) (f_off (files s f)) (word_of_int n1) s) (\<lambda>r s.
          let s = (if r > 0 then upd_file f (\<lambda>x. x\<lparr>f_off := f_off x + word_of_int r\<rparr>) s else s)
          in bindE (iunlock (f_ip (files s f)) s) (\<lambda>_ s.
             bindE (end_op s) (\<lambda>_ s.
             if r \<noteq> n1 then ret i s else filewrite_loop (i + r) f addr n s))))))
     else ret i s)"
  by pat_completeness auto
termination
  by (relation "measure (\<lambda>(i, f, addr, n, s). nat (n - i))")
    (auto simp: filewrite_max_def MAXOPBLOCKS_def BSIZE_def split: if_splits)

declare filewrite_loop.simps [simp del]

definition filewrite :: "nat \<Rightarrow> uint64 \<Rightarrow> int \<Rightarrow> kstate \<Rightarrow> int kres" where
  "filewrite f addr n s =
    (let x = files s f
     in if \<not> f_writable x then ret (-1) s
        else case f_type x of
          FD_PIPE \<Rightarrow> pipewrite (f_pipe x) addr n s
        | FD_DEVICE \<Rightarrow>
            if f_major x < 0 \<or> f_major x \<ge> NDEV \<or> \<not> snd (devsw s (f_major x)) then ret (-1) s
            else consolewrite True addr n s
        | FD_INODE \<Rightarrow>
            bindE (filewrite_loop 0 f addr n s) (\<lambda>i s. ret (if i = n then n else -1) s)
        | FD_NONE \<Rightarrow> panic ''filewrite'')"

text \<open>\<^verbatim>\<open>pipealloc\<close>: the two files, or nothing. \<open>pipealloc_bad\<close> is the code after the label \<^verbatim>\<open>bad\<close>.\<close>

definition pipealloc_bad :: "uint64 \<Rightarrow> nat option \<Rightarrow> nat option \<Rightarrow> kstate \<Rightarrow> (nat \<times> nat) option kres" where
  "pipealloc_bad pi f0 f1 s =
    bindE (if pi \<noteq> 0 then kfree pi s else ret () s) (\<lambda>_ s.
    bindE (case f0 of None \<Rightarrow> ret () s | Some f \<Rightarrow> fileclose f s) (\<lambda>_ s.
    bindE (case f1 of None \<Rightarrow> ret () s | Some f \<Rightarrow> fileclose f s) (\<lambda>_ s.
    ret None s)))"

definition pipealloc :: "kstate \<Rightarrow> (nat \<times> nat) option kres" where
  "pipealloc s =
    bindE (filealloc s) (\<lambda>r0 s.
    case r0 of
      None \<Rightarrow> pipealloc_bad 0 None None s
    | Some f0 \<Rightarrow>
        bindE (filealloc s) (\<lambda>r1 s.
        case r1 of
          None \<Rightarrow> pipealloc_bad 0 (Some f0) None s
        | Some f1 \<Rightarrow>
            bindE (kalloc s) (\<lambda>pi s.
            if pi = 0 then pipealloc_bad 0 (Some f0) (Some f1) s
            else
              let s = upd_pipe pi (\<lambda>x. x\<lparr>pi_readopen := True, pi_writeopen := True, pi_nwrite := 0,
                                        pi_nread := 0\<rparr>) s;
                  s = initlock (PipeLock pi) ''pipe'' s;
                  s = upd_file f0 (\<lambda>x. x\<lparr>f_type := FD_PIPE, f_readable := True, f_writable := False,
                                        f_pipe := pi\<rparr>) s;
                  s = upd_file f1 (\<lambda>x. x\<lparr>f_type := FD_PIPE, f_readable := False, f_writable := True,
                                        f_pipe := pi\<rparr>) s
              in ret (Some (f0, f1)) s)))"

end
