(* ===== verification/Proc.thy ===== *)
theory Proc
  imports File
begin

text \<open>
  The life of a process in \<^verbatim>\<open>kernel/proc.c\<close>: allocation and release of the table entries,
  \<^verbatim>\<open>fork\<close>, \<^verbatim>\<open>exit\<close> and \<^verbatim>\<open>wait\<close>.
\<close>

section \<open>Operations\<close>

primrec procinit_from :: "nat \<Rightarrow> nat \<Rightarrow> kstate \<Rightarrow> kstate" where
  "procinit_from 0 i s = s"
| "procinit_from (Suc n) i s =
    (let s = initlock (ProcLock i) ''proc'' s;
         s = upd_proc i (\<lambda>q. q\<lparr>p_state := UNUSED\<rparr>) s;
         s = upd_proc i (\<lambda>q. q\<lparr>p_kstack := KSTACK i\<rparr>) s
     in procinit_from n (i + 1) s)"

definition procinit :: "kstate \<Rightarrow> kstate" where
  "procinit s =
    (let s = initlock PidLock ''nextpid'' s;
         s = initlock WaitLock ''wait_lock'' s
     in procinit_from NPROC 0 s)"

definition allocpid :: "kstate \<Rightarrow> int kres" where
  "allocpid s =
    bindE (acquire PidLock s) (\<lambda>_ s.
    let pid = nextpid s; s = s\<lparr>nextpid := nextpid s + 1\<rparr>
    in bindE (release PidLock s) (\<lambda>_ s. ret pid s))"

definition proc_pagetable :: "nat \<Rightarrow> kstate \<Rightarrow> uint64 kres" where
  "proc_pagetable p s =
    bindE (uvmcreate s) (\<lambda>pagetable s.
    if pagetable = 0 then ret 0 s
    else
      bindE (mappages pagetable TRAMPOLINE PGSIZE (sym_trampoline (syms s)) (PTE_R OR PTE_X) s) (\<lambda>r s.
      if r < 0 then bindE (uvmfree pagetable 0 s) (\<lambda>_ s. ret 0 s)
      else
        bindE (mappages pagetable TRAPFRAME PGSIZE (p_trapframe (procs s p)) (PTE_R OR PTE_W) s) (\<lambda>r s.
        if r < 0
        then bindE (uvmunmap pagetable TRAMPOLINE 1 False s) (\<lambda>_ s.
             bindE (uvmfree pagetable 0 s) (\<lambda>_ s. ret 0 s))
        else ret pagetable s)))"

definition proc_freepagetable :: "uint64 \<Rightarrow> uint64 \<Rightarrow> kstate \<Rightarrow> unit kres" where
  "proc_freepagetable pagetable sz s =
    bindE (uvmunmap pagetable TRAMPOLINE 1 False s) (\<lambda>_ s.
    bindE (uvmunmap pagetable TRAPFRAME 1 False s) (\<lambda>_ s.
    uvmfree pagetable sz s))"

definition freeproc :: "nat \<Rightarrow> kstate \<Rightarrow> unit kres" where
  "freeproc p s =
    bindE (if p_trapframe (procs s p) \<noteq> 0 then kfree (p_trapframe (procs s p)) s else ret () s) (\<lambda>_ s.
    let s = upd_proc p (\<lambda>q. q\<lparr>p_trapframe := 0\<rparr>) s
    in bindE (if p_pagetable (procs s p) \<noteq> 0
              then proc_freepagetable (p_pagetable (procs s p)) (p_sz (procs s p)) s
              else ret () s) (\<lambda>_ s.
       ret () (upd_proc p (\<lambda>q. q\<lparr>p_pagetable := 0, p_sz := 0, p_pid := 0, p_parent := None,
           p_name := (p_name q)[0 := 0], p_chan := None, p_killed := 0, p_xstate := 0,
           p_state := UNUSED\<rparr>) s)))"

text \<open>The search of \<^verbatim>\<open>allocproc\<close>; the entry found stays locked.\<close>

primrec allocproc_from :: "nat \<Rightarrow> nat \<Rightarrow> kstate \<Rightarrow> nat option kres" where
  "allocproc_from 0 i s = ret None s"
| "allocproc_from (Suc n) i s =
    bindE (acquire (ProcLock i) s) (\<lambda>_ s.
    if p_state (procs s i) = UNUSED then ret (Some i) s
    else bindE (release (ProcLock i) s) (\<lambda>_ s. allocproc_from n (i + 1) s))"

definition allocproc_fail :: "nat \<Rightarrow> kstate \<Rightarrow> nat option kres" where
  "allocproc_fail p s =
    bindE (freeproc p s) (\<lambda>_ s. bindE (release (ProcLock p) s) (\<lambda>_ s. ret None s))"

definition allocproc :: "kstate \<Rightarrow> nat option kres" where
  "allocproc s =
    bindE (allocproc_from NPROC 0 s) (\<lambda>r s.
    case r of
      None \<Rightarrow> ret None s
    | Some p \<Rightarrow>
        bindE (allocpid s) (\<lambda>pid s.
        let s = upd_proc p (\<lambda>q. q\<lparr>p_pid := pid\<rparr>) s;
            s = upd_proc p (\<lambda>q. q\<lparr>p_state := USED\<rparr>) s
        in bindE (kalloc s) (\<lambda>tf s.
           let s = upd_proc p (\<lambda>q. q\<lparr>p_trapframe := tf\<rparr>) s
           in if tf = 0 then allocproc_fail p s
              else bindE (proc_pagetable p s) (\<lambda>pt s.
                let s = upd_proc p (\<lambda>q. q\<lparr>p_pagetable := pt\<rparr>) s
                in if pt = 0 then allocproc_fail p s
                   else
                     let s = upd_proc p (\<lambda>q. q\<lparr>p_context := zero_context\<lparr>
                           ctx_ra := sym_forkret (syms s), ctx_sp := p_kstack q + PGSIZE\<rparr>\<rparr>) s
                     in ret (Some p) s))))"

definition initcode :: "uchar list" where
  "initcode =
    [0x17, 0x05, 0x00, 0x00, 0x13, 0x05, 0x45, 0x02,
     0x97, 0x05, 0x00, 0x00, 0x93, 0x85, 0x35, 0x02,
     0x93, 0x08, 0x70, 0x00, 0x73, 0x00, 0x00, 0x00,
     0x93, 0x08, 0x20, 0x00, 0x73, 0x00, 0x00, 0x00,
     0xef, 0xf0, 0x9f, 0xff, 0x2f, 0x69, 0x6e, 0x69,
     0x74, 0x00, 0x00, 0x24, 0x00, 0x00, 0x00, 0x00,
     0x00, 0x00, 0x00, 0x00]"

definition set_name :: "uchar list \<Rightarrow> proc \<Rightarrow> proc" where
  "set_name nm q = q\<lparr>p_name := splice (p_name q) 0 (safestrcpy (at_list nm) 16)\<rparr>"

definition userinit :: "kstate \<Rightarrow> unit kres" where
  "userinit s =
    bindE (allocproc s) (\<lambda>r s.
    let s = s\<lparr>initproc := r\<rparr>
    in bindE (deref r s) (\<lambda>p s.
       bindE (uvmfirst (p_pagetable (procs s p)) initcode (of_nat (length initcode)) s) (\<lambda>_ s.
       let s = upd_proc p (\<lambda>q. q\<lparr>p_sz := PGSIZE\<rparr>) s;
           s = upd_tframe (p_trapframe (procs s p)) (\<lambda>t. t\<lparr>tf_epc := 0, tf_sp := PGSIZE\<rparr>) s;
           s = upd_proc p (set_name (map of_char ''initcode'')) s
       in bindE (namei [slash] s) (\<lambda>ip s.
          let s = upd_proc p (\<lambda>q. q\<lparr>p_cwd := ip\<rparr>) s;
              s = upd_proc p (\<lambda>q. q\<lparr>p_state := RUNNABLE\<rparr>) s
          in release (ProcLock p) s))))"

definition growproc :: "int \<Rightarrow> kstate \<Rightarrow> int kres" where
  "growproc n s =
    bindE (curproc s) (\<lambda>p s.
    let sz = p_sz (procs s p)
    in if n > 0
       then bindE (uvmalloc (p_pagetable (procs s p)) sz (sz + word_of_int n) PTE_W s) (\<lambda>sz s.
         if sz = 0 then ret (-1) s else ret 0 (upd_proc p (\<lambda>q. q\<lparr>p_sz := sz\<rparr>) s))
       else if n < 0
       then bindE (uvmdealloc (p_pagetable (procs s p)) sz (sz + word_of_int n) s) (\<lambda>sz s.
         ret 0 (upd_proc p (\<lambda>q. q\<lparr>p_sz := sz\<rparr>) s))
       else ret 0 (upd_proc p (\<lambda>q. q\<lparr>p_sz := sz\<rparr>) s))"

primrec fork_files :: "nat \<Rightarrow> nat \<Rightarrow> nat \<Rightarrow> nat \<Rightarrow> kstate \<Rightarrow> unit kres" where
  "fork_files 0 i p np s = ret () s"
| "fork_files (Suc n) i p np s =
    bindE (case p_ofile (procs s p) i of
             None \<Rightarrow> ret () s
           | Some f \<Rightarrow> bindE (filedup f s) (\<lambda>f s.
               ret () (upd_proc np (\<lambda>q. q\<lparr>p_ofile := (p_ofile q)(i := Some f)\<rparr>) s))) (\<lambda>_ s.
    fork_files n (i + 1) p np s)"

definition fork :: "kstate \<Rightarrow> int kres" where
  "fork s =
    bindE (curproc s) (\<lambda>p s.
    bindE (allocproc s) (\<lambda>r s.
    case r of
      None \<Rightarrow> ret (-1) s
    | Some np \<Rightarrow>
        bindE (uvmcopy (p_pagetable (procs s p)) (p_pagetable (procs s np)) (p_sz (procs s p)) s) (\<lambda>c s.
        if c < 0
        then bindE (freeproc np s) (\<lambda>_ s. bindE (release (ProcLock np) s) (\<lambda>_ s. ret (-1) s))
        else
          let s = upd_proc np (\<lambda>q. q\<lparr>p_sz := p_sz (procs s p)\<rparr>) s;
              s = upd_tframe (p_trapframe (procs s np)) (\<lambda>_. tframes s (p_trapframe (procs s p))) s;
              s = upd_tframe (p_trapframe (procs s np)) (\<lambda>t. t\<lparr>tf_a0 := 0\<rparr>) s
          in bindE (fork_files NOFILE 0 p np s) (\<lambda>_ s.
             bindE (deref (p_cwd (procs s p)) s) (\<lambda>cwd s.
             bindE (idup cwd s) (\<lambda>cwd s.
             let s = upd_proc np (\<lambda>q. q\<lparr>p_cwd := Some cwd\<rparr>) s;
                 s = upd_proc np (set_name (p_name (procs s p))) s;
                 pid = p_pid (procs s np)
             in bindE (release (ProcLock np) s) (\<lambda>_ s.
                bindE (acquire WaitLock s) (\<lambda>_ s.
                let s = upd_proc np (\<lambda>q. q\<lparr>p_parent := Some p\<rparr>) s
                in bindE (release WaitLock s) (\<lambda>_ s.
                   bindE (acquire (ProcLock np) s) (\<lambda>_ s.
                   let s = upd_proc np (\<lambda>q. q\<lparr>p_state := RUNNABLE\<rparr>) s
                   in bindE (release (ProcLock np) s) (\<lambda>_ s. ret pid s)))))))))))"

primrec reparent_from :: "nat \<Rightarrow> nat \<Rightarrow> nat \<Rightarrow> kstate \<Rightarrow> unit kres" where
  "reparent_from 0 i p s = ret () s"
| "reparent_from (Suc n) i p s =
    bindE (if p_parent (procs s i) = Some p
           then
             let s = upd_proc i (\<lambda>q. q\<lparr>p_parent := initproc s\<rparr>) s
             in wakeup (map_option ChanProc (initproc s)) s
           else ret () s) (\<lambda>_ s.
    reparent_from n (i + 1) p s)"

definition reparent :: "nat \<Rightarrow> kstate \<Rightarrow> unit kres" where
  "reparent p s = reparent_from NPROC 0 p s"

primrec exit_files :: "nat \<Rightarrow> nat \<Rightarrow> nat \<Rightarrow> kstate \<Rightarrow> unit kres" where
  "exit_files 0 fd p s = ret () s"
| "exit_files (Suc n) fd p s =
    bindE (case p_ofile (procs s p) fd of
             None \<Rightarrow> ret () s
           | Some f \<Rightarrow> bindE (fileclose f s) (\<lambda>_ s.
               ret () (upd_proc p (\<lambda>q. q\<lparr>p_ofile := (p_ofile q)(fd := None)\<rparr>) s))) (\<lambda>_ s.
    exit_files n (fd + 1) p s)"

text \<open>\<^verbatim>\<open>exit\<close> from the line that acquires \<^verbatim>\<open>wait_lock\<close> on.\<close>

definition exit_zombie :: "uint \<Rightarrow> nat \<Rightarrow> kstate \<Rightarrow> 'a kres" where
  "exit_zombie status p s =
    bindE (acquire WaitLock s) (\<lambda>_ s.
    bindE (reparent p s) (\<lambda>_ s.
    bindE (wakeup (map_option ChanProc (p_parent (procs s p))) s) (\<lambda>_ s.
    bindE (acquire (ProcLock p) s) (\<lambda>_ s.
    let s = upd_proc p (\<lambda>q. q\<lparr>p_xstate := status\<rparr>) s;
        s = upd_proc p (\<lambda>q. q\<lparr>p_state := ZOMBIE\<rparr>) s
    in bindE (release WaitLock s) (\<lambda>_ s.
       bindE (sched s) (\<lambda>_ s. Inl (Exited s)))))))"

definition exit :: "uint \<Rightarrow> kstate \<Rightarrow> 'a kres" where
  "exit status s =
    bindE (curproc s) (\<lambda>p s.
    if Some p = initproc s then panic ''init exiting''
    else
      bindE (exit_files NOFILE 0 p s) (\<lambda>_ s.
      bindE (begin_op s) (\<lambda>_ s.
      bindE (deref (p_cwd (procs s p)) s) (\<lambda>cwd s.
      bindE (iput cwd s) (\<lambda>_ s.
      bindE (end_op s) (\<lambda>_ s.
      let s = upd_proc p (\<lambda>q. q\<lparr>p_cwd := None\<rparr>) s
      in exit_zombie status p s))))))"

text \<open>
  The scan of \<^verbatim>\<open>wait\<close> from entry \<open>i\<close> on: the value to return, or whether the process has children.
\<close>

primrec wait_scan :: "nat \<Rightarrow> nat \<Rightarrow> bool \<Rightarrow> uint64 \<Rightarrow> nat \<Rightarrow> kstate \<Rightarrow> (int + bool) kres" where
  "wait_scan 0 i havekids addr p s = ret (Inr havekids) s"
| "wait_scan (Suc n) i havekids addr p s =
    (if p_parent (procs s i) = Some p
     then
       bindE (acquire (ProcLock i) s) (\<lambda>_ s.
       if p_state (procs s i) = ZOMBIE
       then
         let pid = p_pid (procs s i)
         in bindE (if addr \<noteq> 0
                   then copyout (p_pagetable (procs s p)) addr (bytes_of_word 4 (p_xstate (procs s i))) 4 s
                   else ret 0 s) (\<lambda>r s.
            if r < 0
            then bindE (release (ProcLock i) s) (\<lambda>_ s.
                 bindE (release WaitLock s) (\<lambda>_ s. ret (Inl (-1)) s))
            else bindE (freeproc i s) (\<lambda>_ s.
                 bindE (release (ProcLock i) s) (\<lambda>_ s.
                 bindE (release WaitLock s) (\<lambda>_ s. ret (Inl pid) s))))
       else bindE (release (ProcLock i) s) (\<lambda>_ s. wait_scan n (i + 1) True addr p s))
     else wait_scan n (i + 1) havekids addr p s)"

text \<open>One round of the endless loop: a process that goes to sleep comes back to it.\<close>

definition wait_loop :: "uint64 \<Rightarrow> nat \<Rightarrow> kstate \<Rightarrow> int kres" where
  "wait_loop addr p s =
    bindE (wait_scan NPROC 0 False addr p s) (\<lambda>r s.
    case r of
      Inl pid \<Rightarrow> ret pid s
    | Inr havekids \<Rightarrow>
        bindE (if \<not> havekids then ret True s else bindE (killed p s) (\<lambda>k s. ret (k \<noteq> 0) s)) (\<lambda>stop s.
        if stop then bindE (release WaitLock s) (\<lambda>_ s. ret (-1) s)
        else sleep (ChanProc p) WaitLock 0 s))"

definition wait :: "uint64 \<Rightarrow> kstate \<Rightarrow> int kres" where
  "wait addr s =
    bindE (curproc s) (\<lambda>p s.
    bindE (acquire WaitLock s) (\<lambda>_ s. wait_loop addr p s))"

end
