(* ===== verification/Exec.thy ===== *)
theory Exec
  imports Proc
begin

text \<open>
  \<^verbatim>\<open>kernel/exec.c\<close>. The jumps to \<^verbatim>\<open>bad\<close> are calls of \<open>exec_bad\<close>; the loops return what they have
  computed together with whether they succeeded. \<^verbatim>\<open>argv\<close> is the array of the addresses of the
  argument strings in kernel memory.
\<close>

section \<open>The executable format\<close>

definition ELF_MAGIC :: uint where "ELF_MAGIC = 0x464C457F"
definition ELF_PROG_LOAD :: uint where "ELF_PROG_LOAD = 1"

record elfhdr =
  e_magic :: uint
  e_entry :: uint64
  e_phoff :: uint64
  e_phnum :: ushort

record proghdr =
  ph_type :: uint
  ph_flags :: uint
  ph_off :: uint64
  ph_vaddr :: uint64
  ph_filesz :: uint64
  ph_memsz :: uint64

definition ELFHDR :: uint where "ELFHDR = 64"
definition PROGHDR :: uint where "PROGHDR = 56"

definition get_elfhdr :: "uchar list \<Rightarrow> elfhdr" where
  "get_elfhdr d =
    \<lparr>e_magic = field d 0 4, e_entry = field d 24 8, e_phoff = field d 32 8, e_phnum = field d 56 2\<rparr>"

definition get_proghdr :: "uchar list \<Rightarrow> proghdr" where
  "get_proghdr d =
    \<lparr>ph_type = field d 0 4, ph_flags = field d 4 4, ph_off = field d 8 8, ph_vaddr = field d 16 8,
     ph_filesz = field d 32 8, ph_memsz = field d 40 8\<rparr>"

section \<open>Operations\<close>

definition flags2perm :: "uint \<Rightarrow> uint64" where
  "flags2perm flags =
    (let perm = (if flags AND 0x1 \<noteq> 0 then PTE_X else 0)
     in if flags AND 0x2 \<noteq> 0 then perm OR PTE_W else perm)"

text \<open>
  The loop of \<^verbatim>\<open>loadseg\<close> takes one round for each page of the segment; more rounds mean that
  the counter has wrapped around.
\<close>

primrec loadseg_from :: "nat \<Rightarrow> uint \<Rightarrow> uint64 \<Rightarrow> uint64 \<Rightarrow> nat \<Rightarrow> uint \<Rightarrow> uint \<Rightarrow> kstate \<Rightarrow> int kres" where
  "loadseg_from 0 i pagetable va ip offset sz s = Inl Forever"
| "loadseg_from (Suc k) i pagetable va ip offset sz s =
    (if i < sz
     then bindE (walkaddr pagetable (va + ucast i) s) (\<lambda>pa s.
       if pa = 0 then panic ''loadseg: address should exist''
       else
         let n = (if sz - i < ucast PGSIZE then sz - i else ucast PGSIZE)
         in bindE (readi ip False pa (offset + i) n s) (\<lambda>r s.
            if r \<noteq> uint n then ret (-1) s
            else loadseg_from k (i + ucast PGSIZE) pagetable va ip offset sz s))
     else ret 0 s)"

definition loadseg :: "uint64 \<Rightarrow> uint64 \<Rightarrow> nat \<Rightarrow> uint \<Rightarrow> uint \<Rightarrow> kstate \<Rightarrow> int kres" where
  "loadseg pagetable va ip offset sz s =
    loadseg_from ((unat sz + 4095) div 4096 + 1) 0 pagetable va ip offset sz s"

text \<open>The program headers: \<open>n\<close> of them, from file offset \<open>off\<close> on, with \<open>sz\<close> bytes loaded so far.\<close>

primrec exec_load :: "nat \<Rightarrow> uint \<Rightarrow> uint64 \<Rightarrow> uint64 \<Rightarrow> nat \<Rightarrow> kstate \<Rightarrow> (bool \<times> uint64) kres" where
  "exec_load 0 off sz pagetable ip s = ret (True, sz) s"
| "exec_load (Suc n) off sz pagetable ip s =
    bindE (readi ip False (kframe s) off PROGHDR s) (\<lambda>r s.
    if r \<noteq> uint PROGHDR then ret (False, sz) s
    else
      let ph = get_proghdr (load_bytes (mem s) (kframe s) 56)
      in if ph_type ph \<noteq> ELF_PROG_LOAD then exec_load n (off + PROGHDR) sz pagetable ip s
         else if ph_memsz ph < ph_filesz ph then ret (False, sz) s
         else if ph_vaddr ph + ph_memsz ph < ph_vaddr ph then ret (False, sz) s
         else if ph_vaddr ph mod PGSIZE \<noteq> 0 then ret (False, sz) s
         else
           bindE (uvmalloc pagetable sz (ph_vaddr ph + ph_memsz ph) (flags2perm (ph_flags ph)) s) (\<lambda>sz1 s.
           if sz1 = 0 then ret (False, sz) s
           else
             bindE (loadseg pagetable (ph_vaddr ph) ip (ucast (ph_off ph)) (ucast (ph_filesz ph)) s) (\<lambda>r s.
             if r < 0 then ret (False, sz1) s
             else exec_load n (off + PROGHDR) sz1 pagetable ip s)))"

text \<open>
  The arguments from \<open>argc\<close> on: the strings go to the new stack below \<open>sp\<close>, their addresses to
  \<open>ustack\<close>. \<open>n\<close> is the number of entries of \<^verbatim>\<open>argv\<close> left.
\<close>

primrec exec_args ::
  "nat \<Rightarrow> nat \<Rightarrow> uint64 \<Rightarrow> uint64 list \<Rightarrow> uint64 \<Rightarrow> uint64 list \<Rightarrow> uint64 \<Rightarrow> kstate \<Rightarrow>
    (uint64 \<times> uint64 list) option kres" where
  "exec_args 0 argc sp ustack stackbase argv pagetable s = Inl Overrun"
| "exec_args (Suc n) argc sp ustack stackbase argv pagetable s =
    (let a = argv ! argc
     in if a = 0 then ret (Some (sp, ustack)) s
        else if argc \<ge> MAXARG then ret None s
        else case strlen (at_mem (mem s) a) of
          None \<Rightarrow> Inl Forever
        | Some len \<Rightarrow>
            let sp = sp - (of_nat len + 1); sp = sp - sp mod 16
            in if sp < stackbase then ret None s
               else bindE (copyout pagetable sp (load_bytes (mem s) a (len + 1)) (of_nat len + 1) s) (\<lambda>r s.
                 if r < 0 then ret None s
                 else exec_args n (argc + 1) sp (ustack @ [sp]) stackbase argv pagetable s))"

fun exec_last :: "uchar list \<Rightarrow> uchar list \<Rightarrow> uchar list" where
  "exec_last [] lst = lst"
| "exec_last (c # cs) lst =
    (if c = 0 then lst else exec_last cs (if c = slash then cs else lst))"

definition exec_bad :: "uint64 \<Rightarrow> uint64 \<Rightarrow> nat option \<Rightarrow> kstate \<Rightarrow> int kres" where
  "exec_bad pagetable sz ip s =
    bindE (if pagetable \<noteq> 0 then proc_freepagetable pagetable sz s else ret () s) (\<lambda>_ s.
    bindE (case ip of None \<Rightarrow> ret () s
           | Some ip \<Rightarrow> bindE (iunlockput ip s) (\<lambda>_ s. end_op s)) (\<lambda>_ s.
    ret (-1) s))"

text \<open>\<^verbatim>\<open>exec\<close> from the allocation of the user stack on, with the program loaded.\<close>

definition exec_stack :: "uchar list \<Rightarrow> uint64 list \<Rightarrow> uint64 \<Rightarrow> uint64 \<Rightarrow> uint64 \<Rightarrow> kstate \<Rightarrow> int kres" where
  "exec_stack path argv pagetable sz entry s =
    bindE (curproc s) (\<lambda>p s.
    let oldsz = p_sz (procs s p); sz = PGROUNDUP sz
    in bindE (uvmalloc pagetable sz (sz + (USERSTACK + 1) * PGSIZE) PTE_W s) (\<lambda>sz1 s.
       if sz1 = 0 then exec_bad pagetable sz None s
       else
         let sz = sz1
         in bindE (uvmclear pagetable (sz - (USERSTACK + 1) * PGSIZE) s) (\<lambda>_ s.
            let sp = sz; stackbase = sp - USERSTACK * PGSIZE
            in bindE (exec_args (length argv) 0 sp [] stackbase argv pagetable s) (\<lambda>r s.
               case r of
                 None \<Rightarrow> exec_bad pagetable sz None s
               | Some (sp, ustack) \<Rightarrow>
                   let argc = length ustack; ustack = ustack @ [0];
                       sp = sp - (of_nat argc + 1) * 8; sp = sp - sp mod 16
                   in if sp < stackbase then exec_bad pagetable sz None s
                      else bindE (copyout pagetable sp (concat (map (bytes_of_word 8) ustack))
                                    ((of_nat argc + 1) * 8) s) (\<lambda>r s.
                        if r < 0 then exec_bad pagetable sz None s
                        else
                          let tf = p_trapframe (procs s p);
                              s = upd_tframe tf (\<lambda>t. t\<lparr>tf_a1 := sp\<rparr>) s;
                              s = upd_proc p (set_name (exec_last path path)) s;
                              oldpagetable = p_pagetable (procs s p);
                              s = upd_proc p (\<lambda>q. q\<lparr>p_pagetable := pagetable\<rparr>) s;
                              s = upd_proc p (\<lambda>q. q\<lparr>p_sz := sz\<rparr>) s;
                              s = upd_tframe tf (\<lambda>t. t\<lparr>tf_epc := entry, tf_sp := sp\<rparr>) s
                          in bindE (proc_freepagetable oldpagetable oldsz s) (\<lambda>_ s.
                             ret (int argc) s))))))"

definition exec :: "uchar list \<Rightarrow> uint64 list \<Rightarrow> kstate \<Rightarrow> int kres" where
  "exec path argv s =
    bindE (curproc s) (\<lambda>p s.
    bindE (begin_op s) (\<lambda>_ s.
    bindE (namei path s) (\<lambda>r s.
    case r of
      None \<Rightarrow> bindE (end_op s) (\<lambda>_ s. ret (-1) s)
    | Some ip \<Rightarrow>
        bindE (ilock (Some ip) s) (\<lambda>_ s.
        bindE (readi ip False (kframe s) 0 ELFHDR s) (\<lambda>r s.
        if r \<noteq> uint ELFHDR then exec_bad 0 0 (Some ip) s
        else
          let elf = get_elfhdr (load_bytes (mem s) (kframe s) 64)
          in if e_magic elf \<noteq> ELF_MAGIC then exec_bad 0 0 (Some ip) s
             else bindE (proc_pagetable p s) (\<lambda>pagetable s.
               if pagetable = 0 then exec_bad 0 0 (Some ip) s
               else bindE (exec_load (unat (e_phnum elf)) (ucast (e_phoff elf)) 0 pagetable ip s) (\<lambda>(ok, sz) s.
                 if \<not> ok then exec_bad pagetable sz (Some ip) s
                 else bindE (iunlockput ip s) (\<lambda>_ s.
                      bindE (end_op s) (\<lambda>_ s.
                      exec_stack path argv pagetable sz (e_entry elf) s)))))))))"

end
