(* ===== verification/Sysargs.thy ===== *)
theory Sysargs
  imports Exec
begin

text \<open>
  System call arguments, \<^verbatim>\<open>kernel/syscall.c\<close>: the trap frame's argument registers, and words and
  strings fetched from user memory.
\<close>

section \<open>Operations\<close>

definition fetchaddr :: "uint64 \<Rightarrow> kstate \<Rightarrow> (int \<times> uint64) kres" where
  "fetchaddr addr s =
    bindE (curproc s) (\<lambda>p s.
    if addr \<ge> p_sz (procs s p) \<or> addr + 8 > p_sz (procs s p) then ret (-1, 0) s
    else bindE (copyin (p_pagetable (procs s p)) addr 8 s) (\<lambda>(r, bs) s.
      if r \<noteq> 0 then ret (-1, 0) s else ret (0, word_of_bytes bs) s))"

text \<open>The value and the bytes stored in \<^verbatim>\<open>buf\<close>, the final NUL included.\<close>

definition fetchstr :: "uint64 \<Rightarrow> uint64 \<Rightarrow> kstate \<Rightarrow> (int \<times> uchar list) kres" where
  "fetchstr addr mx s =
    bindE (curproc s) (\<lambda>p s.
    bindE (copyinstr (p_pagetable (procs s p)) addr mx s) (\<lambda>(r, buf) s.
    if r < 0 then ret (-1, buf) s
    else case strlen (at_list buf) of None \<Rightarrow> Inl Forever | Some n \<Rightarrow> ret (int n, buf) s))"

definition argraw :: "int \<Rightarrow> kstate \<Rightarrow> uint64 kres" where
  "argraw n s =
    bindE (curproc s) (\<lambda>p s.
    let tf = tframes s (p_trapframe (procs s p))
    in if n = 0 then ret (tf_a0 tf) s
       else if n = 1 then ret (tf_a1 tf) s
       else if n = 2 then ret (tf_a2 tf) s
       else if n = 3 then ret (tf_a3 tf) s
       else if n = 4 then ret (tf_a4 tf) s
       else if n = 5 then ret (tf_a5 tf) s
       else panic ''argraw'')"

text \<open>An \<^verbatim>\<open>int\<close> is the low half of the register.\<close>

definition argint :: "int \<Rightarrow> kstate \<Rightarrow> uint kres" where
  "argint n s = bindE (argraw n s) (\<lambda>x s. ret (ucast x) s)"

definition argaddr :: "int \<Rightarrow> kstate \<Rightarrow> uint64 kres" where
  "argaddr n s = argraw n s"

definition argstr :: "int \<Rightarrow> uint64 \<Rightarrow> kstate \<Rightarrow> (int \<times> uchar list) kres" where
  "argstr n mx s = bindE (argaddr n s) (\<lambda>addr s. fetchstr addr mx s)"

end
