(* ===== verification/Sysproc.thy ===== *)
theory Sysproc
  imports Sysargs
begin

text \<open>
  The system calls of \<^verbatim>\<open>kernel/sysproc.c\<close>, and \<^verbatim>\<open>sys_add\<close> of \<^verbatim>\<open>kernel/sysadd.c\<close>. A handler returns
  the 64-bit value for the caller's register; an \<^verbatim>\<open>int\<close> result is sign-extended.
\<close>

section \<open>Operations\<close>

definition ret_int :: "int \<Rightarrow> kstate \<Rightarrow> uint64 kres" where
  "ret_int r s = ret (word_of_int r) s"

definition sys_exit :: "kstate \<Rightarrow> uint64 kres" where
  "sys_exit s = bindE (argint 0 s) (\<lambda>n s. exit n s)"

definition sys_getpid :: "kstate \<Rightarrow> uint64 kres" where
  "sys_getpid s = bindE (curproc s) (\<lambda>p s. ret_int (p_pid (procs s p)) s)"

definition sys_fork :: "kstate \<Rightarrow> uint64 kres" where
  "sys_fork s = bindE (fork s) ret_int"

definition sys_wait :: "kstate \<Rightarrow> uint64 kres" where
  "sys_wait s = bindE (argaddr 0 s) (\<lambda>p s. bindE (wait p s) ret_int)"

definition sys_sbrk :: "kstate \<Rightarrow> uint64 kres" where
  "sys_sbrk s =
    bindE (argint 0 s) (\<lambda>n s.
    bindE (curproc s) (\<lambda>p s.
    let addr = p_sz (procs s p)
    in bindE (growproc (sint n) s) (\<lambda>r s. if r < 0 then ret_int (-1) s else ret addr s)))"

text \<open>The loop of \<^verbatim>\<open>sys_sleep\<close>: the comparison of \<^verbatim>\<open>uint\<close> with \<^verbatim>\<open>int\<close> is unsigned.\<close>

definition sys_sleep_loop :: "uint \<Rightarrow> uint \<Rightarrow> kstate \<Rightarrow> uint64 kres" where
  "sys_sleep_loop ticks0 n s =
    (if ticks s - ticks0 < n
     then bindE (curproc s) (\<lambda>p s.
       bindE (killed p s) (\<lambda>k s.
       if k \<noteq> 0 then bindE (release TicksLock s) (\<lambda>_ s. ret_int (-1) s)
       else sleep ChanTicks TicksLock (uint ticks0) s))
     else bindE (release TicksLock s) (\<lambda>_ s. ret_int 0 s))"

definition sys_sleep :: "kstate \<Rightarrow> uint64 kres" where
  "sys_sleep s =
    bindE (argint 0 s) (\<lambda>n s.
    let n = (if n <s 0 then 0 else n)
    in bindE (acquire TicksLock s) (\<lambda>_ s. sys_sleep_loop (ticks s) n s))"

definition sys_kill :: "kstate \<Rightarrow> uint64 kres" where
  "sys_kill s = bindE (argint 0 s) (\<lambda>pid s. bindE (kill (sint pid) s) ret_int)"

definition sys_uptime :: "kstate \<Rightarrow> uint64 kres" where
  "sys_uptime s =
    bindE (acquire TicksLock s) (\<lambda>_ s.
    let xticks = ticks s in bindE (release TicksLock s) (\<lambda>_ s. ret (ucast xticks) s))"

definition sys_add :: "kstate \<Rightarrow> uint64 kres" where
  "sys_add s =
    bindE (argint 0 s) (\<lambda>n1 s.
    bindE (argint 1 s) (\<lambda>n2 s.
    ret (scast (n1 + n2)) s))"

end
