(* ===== verification/Sysfile.thy ===== *)
theory Sysfile
  imports Sysproc
begin

text \<open>
  The system calls of \<^verbatim>\<open>kernel/sysfile.c\<close>. Buffers for path names are local variables, so a path
  is the list of bytes \<^verbatim>\<open>argstr\<close> has stored; a buffer \<^verbatim>\<open>name\<close> starts with what is on the stack.
\<close>

section \<open>File descriptors\<close>

definition O_RDONLY :: uint where "O_RDONLY = 0x000"
definition O_WRONLY :: uint where "O_WRONLY = 0x001"
definition O_RDWR :: uint where "O_RDWR = 0x002"
definition O_CREATE :: uint where "O_CREATE = 0x200"
definition O_TRUNC :: uint where "O_TRUNC = 0x400"

definition argfd :: "int \<Rightarrow> kstate \<Rightarrow> (nat \<times> nat) option kres" where
  "argfd n s =
    bindE (argint n s) (\<lambda>fd s.
    if fd <s 0 \<or> of_nat NOFILE \<le>s fd then ret None s
    else bindE (curproc s) (\<lambda>p s.
      case p_ofile (procs s p) (unat fd) of None \<Rightarrow> ret None s | Some f \<Rightarrow> ret (Some (unat fd, f)) s))"

primrec fdalloc_from :: "nat \<Rightarrow> nat \<Rightarrow> nat \<Rightarrow> nat \<Rightarrow> kstate \<Rightarrow> int kres" where
  "fdalloc_from 0 fd f p s = ret (-1) s"
| "fdalloc_from (Suc n) fd f p s =
    (if p_ofile (procs s p) fd = None
     then ret (int fd) (upd_proc p (\<lambda>q. q\<lparr>p_ofile := (p_ofile q)(fd := Some f)\<rparr>) s)
     else fdalloc_from n (fd + 1) f p s)"

definition fdalloc :: "nat \<Rightarrow> kstate \<Rightarrow> int kres" where
  "fdalloc f s = bindE (curproc s) (\<lambda>p s. fdalloc_from NOFILE 0 f p s)"

definition sys_dup :: "kstate \<Rightarrow> uint64 kres" where
  "sys_dup s =
    bindE (argfd 0 s) (\<lambda>r s.
    case r of
      None \<Rightarrow> ret_int (-1) s
    | Some (_, f) \<Rightarrow>
        bindE (fdalloc f s) (\<lambda>fd s.
        if fd < 0 then ret_int (-1) s
        else bindE (filedup f s) (\<lambda>_ s. ret_int fd s)))"

definition sys_read :: "kstate \<Rightarrow> uint64 kres" where
  "sys_read s =
    bindE (argaddr 1 s) (\<lambda>p s.
    bindE (argint 2 s) (\<lambda>n s.
    bindE (argfd 0 s) (\<lambda>r s.
    case r of
      None \<Rightarrow> ret_int (-1) s
    | Some (_, f) \<Rightarrow> bindE (fileread f p (sint n) s) ret_int)))"

definition sys_write :: "kstate \<Rightarrow> uint64 kres" where
  "sys_write s =
    bindE (argaddr 1 s) (\<lambda>p s.
    bindE (argint 2 s) (\<lambda>n s.
    bindE (argfd 0 s) (\<lambda>r s.
    case r of
      None \<Rightarrow> ret_int (-1) s
    | Some (_, f) \<Rightarrow> bindE (filewrite f p (sint n) s) ret_int)))"

definition sys_close :: "kstate \<Rightarrow> uint64 kres" where
  "sys_close s =
    bindE (argfd 0 s) (\<lambda>r s.
    case r of
      None \<Rightarrow> ret_int (-1) s
    | Some (fd, f) \<Rightarrow>
        bindE (curproc s) (\<lambda>p s.
        let s = upd_proc p (\<lambda>q. q\<lparr>p_ofile := (p_ofile q)(fd := None)\<rparr>) s
        in bindE (fileclose f s) (\<lambda>_ s. ret_int 0 s)))"

definition sys_fstat :: "kstate \<Rightarrow> uint64 kres" where
  "sys_fstat s =
    bindE (argaddr 1 s) (\<lambda>st s.
    bindE (argfd 0 s) (\<lambda>r s.
    case r of
      None \<Rightarrow> ret_int (-1) s
    | Some (_, f) \<Rightarrow> bindE (filestat f st s) ret_int))"

section \<open>Links and directories\<close>

abbreviation local_name :: "kstate \<Rightarrow> uchar list" where
  "local_name s \<equiv> load_bytes (mem s) (kframe s) DIRSIZ"

abbreviation argpath :: "int \<Rightarrow> kstate \<Rightarrow> (int \<times> uchar list) kres" where
  "argpath n s \<equiv> argstr n (of_nat MAXPATH) s"

definition sys_link_bad :: "nat \<Rightarrow> kstate \<Rightarrow> uint64 kres" where
  "sys_link_bad ip s =
    bindE (ilock (Some ip) s) (\<lambda>_ s.
    let s = upd_inode ip (\<lambda>x. x\<lparr>i_nlink := i_nlink x - 1\<rparr>) s
    in bindE (iupdate ip s) (\<lambda>_ s.
       bindE (iunlockput ip s) (\<lambda>_ s.
       bindE (end_op s) (\<lambda>_ s. ret_int (-1) s))))"

definition sys_link :: "kstate \<Rightarrow> uint64 kres" where
  "sys_link s =
    bindE (argpath 0 s) (\<lambda>(r, old) s.
    if r < 0 then ret_int (-1) s
    else bindE (argpath 1 s) (\<lambda>(r, new) s.
    if r < 0 then ret_int (-1) s
    else
      bindE (begin_op s) (\<lambda>_ s.
      bindE (namei old s) (\<lambda>r s.
      case r of
        None \<Rightarrow> bindE (end_op s) (\<lambda>_ s. ret_int (-1) s)
      | Some ip \<Rightarrow>
          bindE (ilock (Some ip) s) (\<lambda>_ s.
          if i_type (inodes s ip) = T_DIR
          then bindE (iunlockput ip s) (\<lambda>_ s. bindE (end_op s) (\<lambda>_ s. ret_int (-1) s))
          else
            let s = upd_inode ip (\<lambda>x. x\<lparr>i_nlink := i_nlink x + 1\<rparr>) s
            in bindE (iupdate ip s) (\<lambda>_ s.
               bindE (iunlock (Some ip) s) (\<lambda>_ s.
               bindE (nameiparent new (local_name s) s) (\<lambda>(r, name) s.
               case r of
                 None \<Rightarrow> sys_link_bad ip s
               | Some dp \<Rightarrow>
                   bindE (ilock (Some dp) s) (\<lambda>_ s.
                   bindE (if i_dev (inodes s dp) \<noteq> i_dev (inodes s ip) then ret (-1) s
                          else dirlink dp name (i_inum (inodes s ip)) s) (\<lambda>r s.
                   if r < 0 then bindE (iunlockput dp s) (\<lambda>_ s. sys_link_bad ip s)
                   else
                     bindE (iunlockput dp s) (\<lambda>_ s.
                     bindE (iput ip s) (\<lambda>_ s.
                     bindE (end_op s) (\<lambda>_ s. ret_int 0 s)))))))))))))"

primrec isdirempty_from :: "nat \<Rightarrow> uint \<Rightarrow> nat \<Rightarrow> kstate \<Rightarrow> bool kres" where
  "isdirempty_from 0 off dp s = Inl Forever"
| "isdirempty_from (Suc n) off dp s =
    (if off < i_size (inodes s dp)
     then bindE (readi dp False (kframe s) off DIRENT s) (\<lambda>r s.
       if r \<noteq> uint DIRENT then panic ''isdirempty: readi''
       else if dirent_inum s \<noteq> 0 then ret False s
       else isdirempty_from n (off + DIRENT) dp s)
     else ret True s)"

definition isdirempty :: "nat \<Rightarrow> kstate \<Rightarrow> bool kres" where
  "isdirempty dp s = isdirempty_from (dir_rounds (i_size (inodes s dp))) (2 * DIRENT) dp s"

definition dot :: "uchar list" where "dot = [0x2e]"
definition dotdot :: "uchar list" where "dotdot = [0x2e, 0x2e]"

definition sys_unlink_bad :: "nat \<Rightarrow> kstate \<Rightarrow> uint64 kres" where
  "sys_unlink_bad dp s =
    bindE (iunlockput dp s) (\<lambda>_ s. bindE (end_op s) (\<lambda>_ s. ret_int (-1) s))"

definition sys_unlink :: "kstate \<Rightarrow> uint64 kres" where
  "sys_unlink s =
    bindE (argpath 0 s) (\<lambda>(r, path) s.
    if r < 0 then ret_int (-1) s
    else
      bindE (begin_op s) (\<lambda>_ s.
      bindE (nameiparent path (local_name s) s) (\<lambda>(r, name) s.
      case r of
        None \<Rightarrow> bindE (end_op s) (\<lambda>_ s. ret_int (-1) s)
      | Some dp \<Rightarrow>
          bindE (ilock (Some dp) s) (\<lambda>_ s.
          if namecmp name dot = 0 \<or> namecmp name dotdot = 0 then sys_unlink_bad dp s
          else bindE (dirlookup dp name s) (\<lambda>r s.
            case r of
              None \<Rightarrow> sys_unlink_bad dp s
            | Some (ip, off) \<Rightarrow>
                bindE (ilock (Some ip) s) (\<lambda>_ s.
                if i_nlink (inodes s ip) <s 1 then panic ''unlink: nlink < 1''
                else bindE (if i_type (inodes s ip) = T_DIR then isdirempty ip s else ret True s) (\<lambda>ok s.
                  if \<not> ok then bindE (iunlockput ip s) (\<lambda>_ s. sys_unlink_bad dp s)
                  else
                    let s = s\<lparr>mem := store_bytes (mem s) (kframe s) (replicate 16 0)\<rparr>
                    in bindE (writei dp False (kframe s) off DIRENT s) (\<lambda>r s.
                       if r \<noteq> uint DIRENT then panic ''unlink: writei''
                       else
                         bindE (if i_type (inodes s ip) = T_DIR
                                then
                                  let s = upd_inode dp (\<lambda>x. x\<lparr>i_nlink := i_nlink x - 1\<rparr>) s
                                  in iupdate dp s
                                else ret () s) (\<lambda>_ s.
                         bindE (iunlockput dp s) (\<lambda>_ s.
                         let s = upd_inode ip (\<lambda>x. x\<lparr>i_nlink := i_nlink x - 1\<rparr>) s
                         in bindE (iupdate ip s) (\<lambda>_ s.
                            bindE (iunlockput ip s) (\<lambda>_ s.
                            bindE (end_op s) (\<lambda>_ s. ret_int 0 s)))))))))))))"

definition create_fail :: "nat \<Rightarrow> nat \<Rightarrow> kstate \<Rightarrow> nat option kres" where
  "create_fail ip dp s =
    (let s = upd_inode ip (\<lambda>x. x\<lparr>i_nlink := 0\<rparr>) s
     in bindE (iupdate ip s) (\<lambda>_ s.
        bindE (iunlockput ip s) (\<lambda>_ s.
        bindE (iunlockput dp s) (\<lambda>_ s. ret None s))))"

definition create :: "uchar list \<Rightarrow> ushort \<Rightarrow> ushort \<Rightarrow> ushort \<Rightarrow> kstate \<Rightarrow> nat option kres" where
  "create path ty major minor s =
    bindE (nameiparent path (local_name s) s) (\<lambda>(r, name) s.
    case r of
      None \<Rightarrow> ret None s
    | Some dp \<Rightarrow>
        bindE (ilock (Some dp) s) (\<lambda>_ s.
        bindE (dirlookup dp name s) (\<lambda>r s.
        case r of
          Some (ip, _) \<Rightarrow>
            bindE (iunlockput dp s) (\<lambda>_ s.
            bindE (ilock (Some ip) s) (\<lambda>_ s.
            if ty = T_FILE \<and> (i_type (inodes s ip) = T_FILE \<or> i_type (inodes s ip) = T_DEVICE)
            then ret (Some ip) s
            else bindE (iunlockput ip s) (\<lambda>_ s. ret None s)))
        | None \<Rightarrow>
            bindE (ialloc (i_dev (inodes s dp)) ty s) (\<lambda>r s.
            case r of
              None \<Rightarrow> bindE (iunlockput dp s) (\<lambda>_ s. ret None s)
            | Some ip \<Rightarrow>
                bindE (ilock (Some ip) s) (\<lambda>_ s.
                let s = upd_inode ip (\<lambda>x. x\<lparr>i_major := major, i_minor := minor, i_nlink := 1\<rparr>) s
                in bindE (iupdate ip s) (\<lambda>_ s.
                   bindE (if ty = T_DIR
                          then bindE (dirlink ip dot (i_inum (inodes s ip)) s) (\<lambda>r s.
                            if r < 0 then ret r s else dirlink ip dotdot (i_inum (inodes s dp)) s)
                          else ret 0 s) (\<lambda>r s.
                   if r < 0 then create_fail ip dp s
                   else bindE (dirlink dp name (i_inum (inodes s ip)) s) (\<lambda>r s.
                     if r < 0 then create_fail ip dp s
                     else
                       bindE (if ty = T_DIR
                              then
                                let s = upd_inode dp (\<lambda>x. x\<lparr>i_nlink := i_nlink x + 1\<rparr>) s
                                in iupdate dp s
                              else ret () s) (\<lambda>_ s.
                       bindE (iunlockput dp s) (\<lambda>_ s. ret (Some ip) s))))))))))"

text \<open>\<^verbatim>\<open>sys_open\<close> up to the inode, locked; \<open>None\<close> after an error.\<close>

definition sys_open_inode :: "uchar list \<Rightarrow> uint \<Rightarrow> kstate \<Rightarrow> nat option kres" where
  "sys_open_inode path omode s =
    bindE (if omode AND O_CREATE \<noteq> 0
           then bindE (create path T_FILE 0 0 s) (\<lambda>r s.
             case r of
               None \<Rightarrow> bindE (end_op s) (\<lambda>_ s. ret None s)
             | Some ip \<Rightarrow> ret (Some ip) s)
           else bindE (namei path s) (\<lambda>r s.
             case r of
               None \<Rightarrow> bindE (end_op s) (\<lambda>_ s. ret None s)
             | Some ip \<Rightarrow>
                 bindE (ilock (Some ip) s) (\<lambda>_ s.
                 if i_type (inodes s ip) = T_DIR \<and> omode \<noteq> O_RDONLY
                 then bindE (iunlockput ip s) (\<lambda>_ s. bindE (end_op s) (\<lambda>_ s. ret None s))
                 else ret (Some ip) s))) (\<lambda>r s.
    case r of
      None \<Rightarrow> ret None s
    | Some ip \<Rightarrow>
        if i_type (inodes s ip) = T_DEVICE
           \<and> (sint (i_major (inodes s ip)) < 0 \<or> sint (i_major (inodes s ip)) \<ge> NDEV)
        then bindE (iunlockput ip s) (\<lambda>_ s. bindE (end_op s) (\<lambda>_ s. ret None s))
        else ret (Some ip) s)"

definition sys_open :: "kstate \<Rightarrow> uint64 kres" where
  "sys_open s =
    bindE (argint 1 s) (\<lambda>omode s.
    bindE (argpath 0 s) (\<lambda>(r, path) s.
    if r < 0 then ret_int (-1) s
    else
      bindE (begin_op s) (\<lambda>_ s.
      bindE (sys_open_inode path omode s) (\<lambda>r s.
      case r of
        None \<Rightarrow> ret_int (-1) s
      | Some ip \<Rightarrow>
          bindE (filealloc s) (\<lambda>f s.
          bindE (case f of None \<Rightarrow> ret (-1) s | Some f \<Rightarrow> fdalloc f s) (\<lambda>fd s.
          if f = None \<or> fd < 0
          then bindE (case f of None \<Rightarrow> ret () s | Some f \<Rightarrow> fileclose f s) (\<lambda>_ s.
               bindE (iunlockput ip s) (\<lambda>_ s.
               bindE (end_op s) (\<lambda>_ s. ret_int (-1) s)))
          else
            let s = upd_file (the f) (\<lambda>x.
                  if i_type (inodes s ip) = T_DEVICE
                  then x\<lparr>f_type := FD_DEVICE, f_major := sint (i_major (inodes s ip))\<rparr>
                  else x\<lparr>f_type := FD_INODE, f_off := 0\<rparr>) s;
                s = upd_file (the f) (\<lambda>x. x\<lparr>f_ip := Some ip, f_readable := (omode AND O_WRONLY = 0),
                  f_writable := (omode AND O_WRONLY \<noteq> 0 \<or> omode AND O_RDWR \<noteq> 0)\<rparr>) s
            in bindE (if omode AND O_TRUNC \<noteq> 0 \<and> i_type (inodes s ip) = T_FILE
                      then itrunc ip s else ret () s) (\<lambda>_ s.
               bindE (iunlock (Some ip) s) (\<lambda>_ s.
               bindE (end_op s) (\<lambda>_ s. ret_int fd s)))))))))"

definition sys_make :: "nat option \<Rightarrow> kstate \<Rightarrow> uint64 kres" where
  "sys_make r s =
    (case r of
       None \<Rightarrow> bindE (end_op s) (\<lambda>_ s. ret_int (-1) s)
     | Some ip \<Rightarrow> bindE (iunlockput ip s) (\<lambda>_ s. bindE (end_op s) (\<lambda>_ s. ret_int 0 s)))"

definition sys_mkdir :: "kstate \<Rightarrow> uint64 kres" where
  "sys_mkdir s =
    bindE (begin_op s) (\<lambda>_ s.
    bindE (argpath 0 s) (\<lambda>(r, path) s.
    bindE (if r < 0 then ret None s else create path T_DIR 0 0 s) sys_make))"

definition sys_mknod :: "kstate \<Rightarrow> uint64 kres" where
  "sys_mknod s =
    bindE (begin_op s) (\<lambda>_ s.
    bindE (argint 1 s) (\<lambda>major s.
    bindE (argint 2 s) (\<lambda>minor s.
    bindE (argpath 0 s) (\<lambda>(r, path) s.
    bindE (if r < 0 then ret None s
           else create path T_DEVICE (ucast major) (ucast minor) s) sys_make))))"

definition sys_chdir :: "kstate \<Rightarrow> uint64 kres" where
  "sys_chdir s =
    bindE (curproc s) (\<lambda>p s.
    bindE (begin_op s) (\<lambda>_ s.
    bindE (argpath 0 s) (\<lambda>(r, path) s.
    bindE (if r < 0 then ret None s else namei path s) (\<lambda>r s.
    case r of
      None \<Rightarrow> bindE (end_op s) (\<lambda>_ s. ret_int (-1) s)
    | Some ip \<Rightarrow>
        bindE (ilock (Some ip) s) (\<lambda>_ s.
        if i_type (inodes s ip) \<noteq> T_DIR
        then bindE (iunlockput ip s) (\<lambda>_ s. bindE (end_op s) (\<lambda>_ s. ret_int (-1) s))
        else
          bindE (iunlock (Some ip) s) (\<lambda>_ s.
          bindE (deref (p_cwd (procs s p)) s) (\<lambda>cwd s.
          bindE (iput cwd s) (\<lambda>_ s.
          bindE (end_op s) (\<lambda>_ s.
          ret_int 0 (upd_proc p (\<lambda>q. q\<lparr>p_cwd := Some ip\<rparr>) s))))))))))"

section \<open>Exec and pipes\<close>

text \<open>The loop of \<^verbatim>\<open>sys_exec\<close> over the argument pointers, with \<open>n\<close> entries of \<^verbatim>\<open>argv\<close> left.\<close>

primrec sys_exec_args :: "nat \<Rightarrow> nat \<Rightarrow> uint64 \<Rightarrow> uint64 list \<Rightarrow> kstate \<Rightarrow> (bool \<times> uint64 list) kres" where
  "sys_exec_args 0 i uargv argv s = ret (False, argv) s"
| "sys_exec_args (Suc n) i uargv argv s =
    bindE (fetchaddr (uargv + 8 * of_nat i) s) (\<lambda>(r, uarg) s.
    if r < 0 then ret (False, argv) s
    else if uarg = 0 then ret (True, argv[i := 0]) s
    else
      bindE (kalloc s) (\<lambda>a s.
      let argv = argv[i := a]
      in if a = 0 then ret (False, argv) s
         else bindE (fetchstr uarg PGSIZE s) (\<lambda>(r, buf) s.
           let s = s\<lparr>mem := store_bytes (mem s) a buf\<rparr>
           in if r < 0 then ret (False, argv) s else sys_exec_args n (i + 1) uargv argv s)))"

fun sys_exec_free :: "uint64 list \<Rightarrow> kstate \<Rightarrow> unit kres" where
  "sys_exec_free [] s = ret () s"
| "sys_exec_free (a # as) s =
    (if a \<noteq> 0 then bindE (kfree a s) (\<lambda>_ s. sys_exec_free as s) else ret () s)"

definition sys_exec :: "kstate \<Rightarrow> uint64 kres" where
  "sys_exec s =
    bindE (argaddr 1 s) (\<lambda>uargv s.
    bindE (argpath 0 s) (\<lambda>(r, path) s.
    if r < 0 then ret_int (-1) s
    else
      bindE (sys_exec_args MAXARG 0 uargv (replicate MAXARG 0) s) (\<lambda>(ok, argv) s.
      if ok
      then bindE (exec path argv s) (\<lambda>r s. bindE (sys_exec_free argv s) (\<lambda>_ s. ret_int r s))
      else bindE (sys_exec_free argv s) (\<lambda>_ s. ret_int (-1) s))))"

definition sys_pipe_bad :: "nat \<Rightarrow> nat \<Rightarrow> kstate \<Rightarrow> uint64 kres" where
  "sys_pipe_bad rf wrf s =
    bindE (fileclose rf s) (\<lambda>_ s. bindE (fileclose wrf s) (\<lambda>_ s. ret_int (-1) s))"

definition clear_fd :: "nat \<Rightarrow> int \<Rightarrow> kstate \<Rightarrow> kstate" where
  "clear_fd p fd s = upd_proc p (\<lambda>q. q\<lparr>p_ofile := (p_ofile q)(nat fd := None)\<rparr>) s"

definition sys_pipe :: "kstate \<Rightarrow> uint64 kres" where
  "sys_pipe s =
    bindE (curproc s) (\<lambda>p s.
    bindE (argaddr 0 s) (\<lambda>fdarray s.
    bindE (pipealloc s) (\<lambda>r s.
    case r of
      None \<Rightarrow> ret_int (-1) s
    | Some (rf, wrf) \<Rightarrow>
        bindE (fdalloc rf s) (\<lambda>fd0 s.
        bindE (if fd0 < 0 then ret (-1) s else fdalloc wrf s) (\<lambda>fd1 s.
        if fd0 < 0 \<or> fd1 < 0
        then sys_pipe_bad rf wrf (if fd0 \<ge> 0 then clear_fd p fd0 s else s)
        else
          bindE (copyout (p_pagetable (procs s p)) fdarray (bytes_of_word 4 (word_of_int fd0 :: uint)) 4 s) (\<lambda>r0 s.
          bindE (if r0 < 0 then ret (-1) s
                 else copyout (p_pagetable (procs s p)) (fdarray + 4)
                        (bytes_of_word 4 (word_of_int fd1 :: uint)) 4 s) (\<lambda>r1 s.
          if r0 < 0 \<or> r1 < 0 then sys_pipe_bad rf wrf (clear_fd p fd1 (clear_fd p fd0 s))
          else ret_int 0 s)))))))"

end
