(* ===== verification/Syscall.thy ===== *)
theory Syscall
  imports Sysfile
begin

text \<open>\<^verbatim>\<open>kernel/syscall.c\<close>: the table of system calls and the dispatcher.\<close>

section \<open>Operations\<close>

definition syscalls :: "(kstate \<Rightarrow> uint64 kres) option list" where
  "syscalls =
    [None, Some sys_fork, Some sys_exit, Some sys_wait, Some sys_pipe, Some sys_read, Some sys_kill,
     Some sys_exec, Some sys_fstat, Some sys_chdir, Some sys_dup, Some sys_getpid, Some sys_sbrk,
     Some sys_sleep, Some sys_uptime, Some sys_open, Some sys_write, Some sys_mknod,
     Some sys_unlink, Some sys_link, Some sys_mkdir, Some sys_close, Some sys_add]"

definition set_a0 :: "nat \<Rightarrow> uint64 \<Rightarrow> kstate \<Rightarrow> kstate" where
  "set_a0 p v s = upd_tframe (p_trapframe (procs s p)) (\<lambda>t. t\<lparr>tf_a0 := v\<rparr>) s"

definition syscall_unknown :: "nat \<Rightarrow> uint \<Rightarrow> kstate \<Rightarrow> unit kres" where
  "syscall_unknown p num s =
    bindE (printf (''%d %s: unknown sys call %d'' @ [CHR 0x0A])
      [Reg (word_of_int (p_pid (procs s p))), Str (Some (p_name (procs s p))), Reg (scast num)] s) (\<lambda>_ s.
    ret () (set_a0 p (-1) s))"

definition syscall :: "kstate \<Rightarrow> unit kres" where
  "syscall s =
    bindE (curproc s) (\<lambda>p s.
    let num = (ucast (tf_a7 (tframes s (p_trapframe (procs s p)))) :: uint)
    in if 0 <s num \<and> sint num < int (length syscalls)
       then case syscalls ! unat num of
              Some f \<Rightarrow> bindE (f s) (\<lambda>v s. ret () (set_a0 p v s))
            | None \<Rightarrow> syscall_unknown p num s
       else syscall_unknown p num s)"

end
