(* ===== verification/Virtio.thy ===== *)
theory Virtio
  imports Bio
begin

text \<open>
  \<^verbatim>\<open>kernel/virtio_disk.c\<close>, the driver of the virtio disk. The device is outside: what a read of one
  of its registers shows is the argument \<open>rd\<close>, stores to its registers are recorded in \<open>mmio\<close>,
  and the queue it shares with the driver is the record \<open>vdisk\<close>.
\<close>

section \<open>Registers\<close>

definition VIRTIO_MMIO_MAGIC_VALUE :: uint64 where "VIRTIO_MMIO_MAGIC_VALUE = 0x000"
definition VIRTIO_MMIO_VERSION :: uint64 where "VIRTIO_MMIO_VERSION = 0x004"
definition VIRTIO_MMIO_DEVICE_ID :: uint64 where "VIRTIO_MMIO_DEVICE_ID = 0x008"
definition VIRTIO_MMIO_VENDOR_ID :: uint64 where "VIRTIO_MMIO_VENDOR_ID = 0x00c"
definition VIRTIO_MMIO_DEVICE_FEATURES :: uint64 where "VIRTIO_MMIO_DEVICE_FEATURES = 0x010"
definition VIRTIO_MMIO_DRIVER_FEATURES :: uint64 where "VIRTIO_MMIO_DRIVER_FEATURES = 0x020"
definition VIRTIO_MMIO_QUEUE_SEL :: uint64 where "VIRTIO_MMIO_QUEUE_SEL = 0x030"
definition VIRTIO_MMIO_QUEUE_NUM_MAX :: uint64 where "VIRTIO_MMIO_QUEUE_NUM_MAX = 0x034"
definition VIRTIO_MMIO_QUEUE_NUM :: uint64 where "VIRTIO_MMIO_QUEUE_NUM = 0x038"
definition VIRTIO_MMIO_QUEUE_READY :: uint64 where "VIRTIO_MMIO_QUEUE_READY = 0x044"
definition VIRTIO_MMIO_QUEUE_NOTIFY :: uint64 where "VIRTIO_MMIO_QUEUE_NOTIFY = 0x050"
definition VIRTIO_MMIO_INTERRUPT_STATUS :: uint64 where "VIRTIO_MMIO_INTERRUPT_STATUS = 0x060"
definition VIRTIO_MMIO_INTERRUPT_ACK :: uint64 where "VIRTIO_MMIO_INTERRUPT_ACK = 0x064"
definition VIRTIO_MMIO_STATUS :: uint64 where "VIRTIO_MMIO_STATUS = 0x070"
definition VIRTIO_MMIO_QUEUE_DESC_LOW :: uint64 where "VIRTIO_MMIO_QUEUE_DESC_LOW = 0x080"
definition VIRTIO_MMIO_QUEUE_DESC_HIGH :: uint64 where "VIRTIO_MMIO_QUEUE_DESC_HIGH = 0x084"
definition VIRTIO_MMIO_DRIVER_DESC_LOW :: uint64 where "VIRTIO_MMIO_DRIVER_DESC_LOW = 0x090"
definition VIRTIO_MMIO_DRIVER_DESC_HIGH :: uint64 where "VIRTIO_MMIO_DRIVER_DESC_HIGH = 0x094"
definition VIRTIO_MMIO_DEVICE_DESC_LOW :: uint64 where "VIRTIO_MMIO_DEVICE_DESC_LOW = 0x0a0"
definition VIRTIO_MMIO_DEVICE_DESC_HIGH :: uint64 where "VIRTIO_MMIO_DEVICE_DESC_HIGH = 0x0a4"

definition VIRTIO_CONFIG_S_ACKNOWLEDGE :: uint where "VIRTIO_CONFIG_S_ACKNOWLEDGE = 1"
definition VIRTIO_CONFIG_S_DRIVER :: uint where "VIRTIO_CONFIG_S_DRIVER = 2"
definition VIRTIO_CONFIG_S_DRIVER_OK :: uint where "VIRTIO_CONFIG_S_DRIVER_OK = 4"
definition VIRTIO_CONFIG_S_FEATURES_OK :: uint where "VIRTIO_CONFIG_S_FEATURES_OK = 8"

definition VIRTIO_BLK_F_RO :: nat where "VIRTIO_BLK_F_RO = 5"
definition VIRTIO_BLK_F_SCSI :: nat where "VIRTIO_BLK_F_SCSI = 7"
definition VIRTIO_BLK_F_CONFIG_WCE :: nat where "VIRTIO_BLK_F_CONFIG_WCE = 11"
definition VIRTIO_BLK_F_MQ :: nat where "VIRTIO_BLK_F_MQ = 12"
definition VIRTIO_F_ANY_LAYOUT :: nat where "VIRTIO_F_ANY_LAYOUT = 27"
definition VIRTIO_RING_F_INDIRECT_DESC :: nat where "VIRTIO_RING_F_INDIRECT_DESC = 28"
definition VIRTIO_RING_F_EVENT_IDX :: nat where "VIRTIO_RING_F_EVENT_IDX = 29"

definition NUM :: nat where "NUM = 8"
definition VRING_DESC_F_NEXT :: ushort where "VRING_DESC_F_NEXT = 1"
definition VRING_DESC_F_WRITE :: ushort where "VRING_DESC_F_WRITE = 2"
definition VIRTIO_BLK_T_IN :: uint where "VIRTIO_BLK_T_IN = 0"
definition VIRTIO_BLK_T_OUT :: uint where "VIRTIO_BLK_T_OUT = 1"

definition wr_virtio :: "uint64 \<Rightarrow> uint \<Rightarrow> kstate \<Rightarrow> kstate" where
  "wr_virtio r v s = s\<lparr>mmio := mmio s @ [(VIRTIO0 + r, v)]\<rparr>"

section \<open>Initialisation\<close>

definition virtio_features :: "uint \<Rightarrow> uint64" where
  "virtio_features f =
    foldl (\<lambda>f b. f AND NOT (push_bit b 1)) (ucast f)
      [VIRTIO_BLK_F_RO, VIRTIO_BLK_F_SCSI, VIRTIO_BLK_F_CONFIG_WCE, VIRTIO_BLK_F_MQ,
       VIRTIO_F_ANY_LAYOUT, VIRTIO_RING_F_EVENT_IDX, VIRTIO_RING_F_INDIRECT_DESC]"

text \<open>The second half of \<^verbatim>\<open>virtio_disk_init\<close>: the queue's memory and the final status.\<close>

definition virtio_queue_init :: "uint \<Rightarrow> kstate \<Rightarrow> unit kres" where
  "virtio_queue_init status s =
    bindE (kalloc s) (\<lambda>desc s.
    bindE (kalloc s) (\<lambda>avail s.
    bindE (kalloc s) (\<lambda>used s.
    if desc = 0 \<or> avail = 0 \<or> used = 0 then panic ''virtio disk kalloc''
    else
      let s = s\<lparr>mem := memset (memset (memset (mem s) desc 0 (ucast PGSIZE)) avail 0 (ucast PGSIZE))
                         used 0 (ucast PGSIZE)\<rparr>;
          s = upd_vdisk (\<lambda>v. v\<lparr>vq_desc_pa := desc, vq_avail_pa := avail, vq_used_pa := used,
                vq_desc := (\<lambda>_. zero_desc), vq_avail_idx := 0, vq_avail_ring := (\<lambda>_. 0),
                vq_used_idx := 0, vq_used_ring := (\<lambda>_. 0)\<rparr>) s;
          s = wr_virtio VIRTIO_MMIO_QUEUE_NUM (of_nat NUM) s;
          s = wr_virtio VIRTIO_MMIO_QUEUE_DESC_LOW (ucast desc) s;
          s = wr_virtio VIRTIO_MMIO_QUEUE_DESC_HIGH (ucast (drop_bit 32 desc)) s;
          s = wr_virtio VIRTIO_MMIO_DRIVER_DESC_LOW (ucast avail) s;
          s = wr_virtio VIRTIO_MMIO_DRIVER_DESC_HIGH (ucast (drop_bit 32 avail)) s;
          s = wr_virtio VIRTIO_MMIO_DEVICE_DESC_LOW (ucast used) s;
          s = wr_virtio VIRTIO_MMIO_DEVICE_DESC_HIGH (ucast (drop_bit 32 used)) s;
          s = wr_virtio VIRTIO_MMIO_QUEUE_READY 0x1 s;
          s = upd_vdisk (\<lambda>v. v\<lparr>vq_free := (\<lambda>i. i < NUM \<or> vq_free v i)\<rparr>) s;
          status = status OR VIRTIO_CONFIG_S_DRIVER_OK
      in ret () (wr_virtio VIRTIO_MMIO_STATUS status s))))"

definition virtio_disk_init :: "(uint64 \<Rightarrow> uint) \<Rightarrow> kstate \<Rightarrow> unit kres" where
  "virtio_disk_init rd s =
    (let s = initlock VdiskLock ''virtio_disk'' s; status = 0
     in if rd VIRTIO_MMIO_MAGIC_VALUE \<noteq> 0x74726976 \<or> rd VIRTIO_MMIO_VERSION \<noteq> 2 \<or>
           rd VIRTIO_MMIO_DEVICE_ID \<noteq> 2 \<or> rd VIRTIO_MMIO_VENDOR_ID \<noteq> 0x554d4551
        then panic ''could not find virtio disk''
        else
          let s = wr_virtio VIRTIO_MMIO_STATUS status s;
              status = status OR VIRTIO_CONFIG_S_ACKNOWLEDGE;
              s = wr_virtio VIRTIO_MMIO_STATUS status s;
              status = status OR VIRTIO_CONFIG_S_DRIVER;
              s = wr_virtio VIRTIO_MMIO_STATUS status s;
              features = virtio_features (rd VIRTIO_MMIO_DEVICE_FEATURES);
              s = wr_virtio VIRTIO_MMIO_DRIVER_FEATURES (ucast features) s;
              status = status OR VIRTIO_CONFIG_S_FEATURES_OK;
              s = wr_virtio VIRTIO_MMIO_STATUS status s;
              status = rd VIRTIO_MMIO_STATUS
          in if status AND VIRTIO_CONFIG_S_FEATURES_OK = 0 then panic ''virtio disk FEATURES_OK unset''
             else
               let s = wr_virtio VIRTIO_MMIO_QUEUE_SEL 0 s
               in if rd VIRTIO_MMIO_QUEUE_READY \<noteq> 0 then panic ''virtio disk should not be ready''
                  else if rd VIRTIO_MMIO_QUEUE_NUM_MAX = 0 then panic ''virtio disk has no queue 0''
                  else if rd VIRTIO_MMIO_QUEUE_NUM_MAX < of_nat NUM
                  then panic ''virtio disk max queue too short''
                  else virtio_queue_init status s)"

section \<open>Descriptors\<close>

primrec alloc_desc_from :: "nat \<Rightarrow> nat \<Rightarrow> kstate \<Rightarrow> int \<times> kstate" where
  "alloc_desc_from 0 i s = (-1, s)"
| "alloc_desc_from (Suc n) i s =
    (if vq_free (vdisk s) i
     then (int i, upd_vdisk (\<lambda>v. v\<lparr>vq_free := (vq_free v)(i := False)\<rparr>) s)
     else alloc_desc_from n (i + 1) s)"

definition alloc_desc :: "kstate \<Rightarrow> int \<times> kstate" where
  "alloc_desc s = alloc_desc_from NUM 0 s"

definition free_desc :: "nat \<Rightarrow> kstate \<Rightarrow> unit kres" where
  "free_desc i s =
    (if i \<ge> NUM then panic ''free_desc 1''
     else if vq_free (vdisk s) i then panic ''free_desc 2''
     else
       let s = upd_vdisk (\<lambda>v. v\<lparr>vq_desc := (vq_desc v)(i := zero_desc),
                                vq_free := (vq_free v)(i := True)\<rparr>) s
       in wakeup (Some ChanDiskFree) s)"

text \<open>
  \<^verbatim>\<open>free_chain\<close>: a round frees a descriptor that was not free, or panics, so there are at most
  \<open>NUM + 1\<close> of them.
\<close>

primrec free_chain_from :: "nat \<Rightarrow> nat \<Rightarrow> kstate \<Rightarrow> unit kres" where
  "free_chain_from 0 i s = Inl Forever"
| "free_chain_from (Suc n) i s =
    (let flag = vd_flags (vq_desc (vdisk s) i); nxt = vd_next (vq_desc (vdisk s) i)
     in bindE (free_desc i s) (\<lambda>_ s.
        if flag AND VRING_DESC_F_NEXT \<noteq> 0 then free_chain_from n (unat nxt) s else ret () s))"

definition free_chain :: "nat \<Rightarrow> kstate \<Rightarrow> unit kres" where
  "free_chain i s = free_chain_from (NUM + 1) i s"

primrec free_descs :: "nat list \<Rightarrow> kstate \<Rightarrow> unit kres" where
  "free_descs [] s = ret () s"
| "free_descs (i # is) s = bindE (free_desc i s) (\<lambda>_ s. free_descs is s)"

text \<open>The loop of \<^verbatim>\<open>alloc3_desc\<close>, with the descriptors \<open>idx\<close> taken and \<open>n\<close> to go.\<close>

primrec alloc3_desc_from :: "nat \<Rightarrow> nat list \<Rightarrow> kstate \<Rightarrow> nat list option kres" where
  "alloc3_desc_from 0 idx s = ret (Some idx) s"
| "alloc3_desc_from (Suc n) idx s =
    (let (d, s) = alloc_desc s
     in if d < 0 then bindE (free_descs idx s) (\<lambda>_ s. ret None s)
        else alloc3_desc_from n (idx @ [nat d]) s)"

definition alloc3_desc :: "kstate \<Rightarrow> nat list option kres" where
  "alloc3_desc s = alloc3_desc_from 3 [] s"

section \<open>Requests\<close>

definition virtio_format :: "nat \<Rightarrow> bool \<Rightarrow> nat \<Rightarrow> nat \<Rightarrow> nat \<Rightarrow> uint64 \<Rightarrow> vdisk \<Rightarrow> vdisk" where
  "virtio_format b wr i0 i1 i2 sector v =
    v\<lparr>vq_ops := (vq_ops v)(i0 := \<lparr>rq_type = (if wr then VIRTIO_BLK_T_OUT else VIRTIO_BLK_T_IN),
                                 rq_reserved = 0, rq_sector = sector\<rparr>),
      vq_desc := (vq_desc v)
        (i0 := \<lparr>vd_addr = DmaOps i0, vd_len = 16, vd_flags = VRING_DESC_F_NEXT, vd_next = of_nat i1\<rparr>,
         i1 := \<lparr>vd_addr = DmaData b, vd_len = of_nat BSIZE,
                vd_flags = (if wr then 0 else VRING_DESC_F_WRITE) OR VRING_DESC_F_NEXT,
                vd_next = of_nat i2\<rparr>,
         i2 := \<lparr>vd_addr = DmaStatus i0, vd_len = 1, vd_flags = VRING_DESC_F_WRITE, vd_next = 0\<rparr>),
      vq_info_status := (vq_info_status v)(i0 := 0xff),
      vq_info_b := (vq_info_b v)(i0 := Some b)\<rparr>"

definition virtio_avail :: "nat \<Rightarrow> vdisk \<Rightarrow> vdisk" where
  "virtio_avail i0 v =
    v\<lparr>vq_avail_ring := (vq_avail_ring v)(unat (vq_avail_idx v) mod NUM := of_nat i0),
      vq_avail_idx := vq_avail_idx v + 1\<rparr>"

text \<open>
  \<^verbatim>\<open>virtio_disk_rw\<close> in its three bursts: up to the wait for free descriptors, to which it comes
  back; the request and the wait for the interrupt; and the end.
\<close>

definition virtio_rw_end :: "nat \<Rightarrow> nat \<Rightarrow> kstate \<Rightarrow> unit kres" where
  "virtio_rw_end b i0 s =
    (if b_disk (bufs s b) then sleep (ChanBuf b) VdiskLock (int i0) s
     else
       let s = upd_vdisk (\<lambda>v. v\<lparr>vq_info_b := (vq_info_b v)(i0 := None)\<rparr>) s
       in bindE (free_chain i0 s) (\<lambda>_ s. release VdiskLock s))"

definition virtio_submit :: "nat \<Rightarrow> bool \<Rightarrow> nat \<Rightarrow> nat \<Rightarrow> nat \<Rightarrow> kstate \<Rightarrow> kstate" where
  "virtio_submit b wr i0 i1 i2 s =
    (let sector = ucast (b_blockno (bufs s b) * (of_nat BSIZE div 512));
         s = upd_vdisk (virtio_format b wr i0 i1 i2 sector) s;
         s = upd_buf b (\<lambda>x. x\<lparr>b_disk := True\<rparr>) s;
         s = upd_vdisk (virtio_avail i0) s
     in wr_virtio VIRTIO_MMIO_QUEUE_NOTIFY 0 s)"

definition virtio_rw_loop :: "nat \<Rightarrow> bool \<Rightarrow> kstate \<Rightarrow> unit kres" where
  "virtio_rw_loop b wr s =
    bindE (alloc3_desc s) (\<lambda>r s.
    case r of
      Some [i0, i1, i2] \<Rightarrow> virtio_rw_end b i0 (virtio_submit b wr i0 i1 i2 s)
    | _ \<Rightarrow> sleep ChanDiskFree VdiskLock 0 s)"

definition virtio_disk_rw :: "nat \<Rightarrow> bool \<Rightarrow> kstate \<Rightarrow> unit kres" where
  "virtio_disk_rw b wr s =
    bindE (acquire VdiskLock s) (\<lambda>_ s. virtio_rw_loop b wr s)"

text \<open>The loop of the interrupt handler over the finished requests.\<close>

primrec virtio_intr_loop :: "nat \<Rightarrow> kstate \<Rightarrow> unit kres" where
  "virtio_intr_loop 0 s = ret () s"
| "virtio_intr_loop (Suc n) s =
    (if vq_seen_idx (vdisk s) \<noteq> vq_used_idx (vdisk s)
     then
       let i = unat (vq_used_ring (vdisk s) (unat (vq_seen_idx (vdisk s)) mod NUM))
       in if vq_info_status (vdisk s) i \<noteq> 0 then panic ''virtio_disk_intr status''
          else case vq_info_b (vdisk s) i of
            None \<Rightarrow> Inl NullDeref
          | Some b \<Rightarrow>
              let s = upd_buf b (\<lambda>x. x\<lparr>b_disk := False\<rparr>) s
              in bindE (wakeup (Some (ChanBuf b)) s) (\<lambda>_ s.
                 let s = upd_vdisk (\<lambda>v. v\<lparr>vq_seen_idx := vq_seen_idx v + 1\<rparr>) s
                 in virtio_intr_loop n s)
     else ret () s)"

definition virtio_disk_intr :: "(uint64 \<Rightarrow> uint) \<Rightarrow> kstate \<Rightarrow> unit kres" where
  "virtio_disk_intr rd s =
    bindE (acquire VdiskLock s) (\<lambda>_ s.
    let s = wr_virtio VIRTIO_MMIO_INTERRUPT_ACK (rd VIRTIO_MMIO_INTERRUPT_STATUS AND 0x3) s
    in bindE (virtio_intr_loop (Suc (unat (vq_used_idx (vdisk s) - vq_seen_idx (vdisk s)))) s) (\<lambda>_ s.
       release VdiskLock s))"

end
