(* ===== verification/Trap.thy ===== *)
theory Trap
  imports Syscall Virtio
begin

text \<open>
  \<^verbatim>\<open>kernel/trap.c\<close> and \<^verbatim>\<open>kernel/plic.c\<close>, with \<^verbatim>\<open>forkret\<close> of \<^verbatim>\<open>kernel/proc.c\<close>. Reads of device registers are
  the arguments \<open>plic\<close> and \<open>rd\<close>. The jump to user space is \<^const>\<open>ToUser\<close>.
\<close>

section \<open>Interrupt controller\<close>

definition UART0_IRQ :: nat where "UART0_IRQ = 10"
definition VIRTIO0_IRQ :: nat where "VIRTIO0_IRQ = 1"

definition PLIC_SENABLE :: "nat \<Rightarrow> uint64" where "PLIC_SENABLE h = PLIC + 0x2080 + of_nat h * 0x100"
definition PLIC_SPRIORITY :: "nat \<Rightarrow> uint64" where "PLIC_SPRIORITY h = PLIC + 0x201000 + of_nat h * 0x2000"
definition PLIC_SCLAIM :: "nat \<Rightarrow> uint64" where "PLIC_SCLAIM h = PLIC + 0x201004 + of_nat h * 0x2000"

definition wr_reg :: "uint64 \<Rightarrow> uint \<Rightarrow> kstate \<Rightarrow> kstate" where
  "wr_reg a v s = s\<lparr>mmio := mmio s @ [(a, v)]\<rparr>"

definition plicinit :: "kstate \<Rightarrow> kstate" where
  "plicinit s =
    (let s = wr_reg (PLIC + of_nat UART0_IRQ * 4) 1 s
     in wr_reg (PLIC + of_nat VIRTIO0_IRQ * 4) 1 s)"

definition plicinithart :: "kstate \<Rightarrow> kstate" where
  "plicinithart s =
    (let hart = cpuid s;
         s = wr_reg (PLIC_SENABLE hart) (push_bit UART0_IRQ 1 OR push_bit VIRTIO0_IRQ 1) s
     in wr_reg (PLIC_SPRIORITY hart) 0 s)"

definition plic_claim :: "(uint64 \<Rightarrow> uint) \<Rightarrow> kstate \<Rightarrow> uint" where
  "plic_claim plic s = plic (PLIC_SCLAIM (cpuid s))"

definition plic_complete :: "uint \<Rightarrow> kstate \<Rightarrow> kstate" where
  "plic_complete irq s = wr_reg (PLIC_SCLAIM (cpuid s)) irq s"

section \<open>Traps\<close>

definition trapinit :: "kstate \<Rightarrow> kstate" where
  "trapinit s = initlock TicksLock ''time'' s"

definition trapinithart :: "kstate \<Rightarrow> kstate" where
  "trapinithart s = upd_hart (\<lambda>h. h\<lparr>h_stvec := sym_kernelvec (syms s)\<rparr>) s"

abbreviation this_hart :: "kstate \<Rightarrow> hart" where
  "this_hart s \<equiv> harts s (tp s)"

definition clockintr :: "kstate \<Rightarrow> unit kres" where
  "clockintr s =
    bindE (if cpuid s = 0
           then bindE (acquire TicksLock s) (\<lambda>_ s.
             let s = s\<lparr>ticks := ticks s + 1\<rparr>
             in bindE (wakeup (Some ChanTicks) s) (\<lambda>_ s. release TicksLock s))
           else ret () s) (\<lambda>_ s.
    ret () (upd_hart (\<lambda>h. h\<lparr>h_stimecmp := h_time h + 1000000\<rparr>) s))"

definition devintr :: "(uint64 \<Rightarrow> uint) \<Rightarrow> (uint64 \<Rightarrow> uint) \<Rightarrow> kstate \<Rightarrow> int kres" where
  "devintr plic rd s =
    (let scause = h_scause (this_hart s)
     in if scause = 0x8000000000000009
        then
          let irq = plic_claim plic s
          in bindE (if irq = of_nat UART0_IRQ then uartintr s
                    else if irq = of_nat VIRTIO0_IRQ then virtio_disk_intr rd s
                    else if irq \<noteq> 0
                    then bindE (printf (''unexpected interrupt irq=%d'' @ [CHR 0x0A]) [Reg (ucast irq)] s)
                           (\<lambda>_ s. ret () s)
                    else ret () s) (\<lambda>_ s.
             ret 1 (if irq \<noteq> 0 then plic_complete irq s else s))
        else if scause = 0x8000000000000005
        then bindE (clockintr s) (\<lambda>_ s. ret 2 s)
        else ret 0 s)"

definition usertrapret :: "kstate \<Rightarrow> 'a kres" where
  "usertrapret s =
    bindE (curproc s) (\<lambda>p s.
    let s = intr_off s;
        trampoline_uservec = TRAMPOLINE + (sym_uservec (syms s) - sym_trampoline (syms s));
        s = upd_hart (\<lambda>h. h\<lparr>h_stvec := trampoline_uservec\<rparr>) s;
        s = upd_tframe (p_trapframe (procs s p)) (\<lambda>t. t\<lparr>
              tf_kernel_satp := h_satp (this_hart s),
              tf_kernel_sp := p_kstack (procs s p) + PGSIZE,
              tf_kernel_trap := sym_usertrap (syms s),
              tf_kernel_hartid := of_nat (tp s)\<rparr>) s;
        x = h_sstatus (this_hart s);
        x = x AND NOT SSTATUS_SPP;
        x = x OR SSTATUS_SPIE;
        s = upd_hart (\<lambda>h. h\<lparr>h_sstatus := x\<rparr>) s;
        s = upd_hart (\<lambda>h. h\<lparr>h_sepc := tf_epc (tframes s (p_trapframe (procs s p)))\<rparr>) s;
        satp = MAKE_SATP (p_pagetable (procs s p));
        s = upd_hart (\<lambda>h. h\<lparr>h_satp := satp\<rparr>) s
    in Inl (ToUser s))"

definition forkret :: "kstate \<Rightarrow> 'a kres" where
  "forkret s =
    bindE (curproc s) (\<lambda>p s.
    bindE (release (ProcLock p) s) (\<lambda>_ s.
    bindE (if forkret_first s
           then bindE (fsinit ROOTDEV s) (\<lambda>_ s. ret () (s\<lparr>forkret_first := False\<rparr>))
           else ret () s) (\<lambda>_ s.
    usertrapret s)))"

text \<open>The end of \<^verbatim>\<open>usertrap\<close>, common to the three kinds of traps.\<close>

definition usertrap_end :: "nat \<Rightarrow> int \<Rightarrow> kstate \<Rightarrow> 'a kres" where
  "usertrap_end p which_dev s =
    bindE (killed p s) (\<lambda>k s.
    if k \<noteq> 0 then exit (-1) s
    else bindE (if which_dev = 2 then yield s else ret () s) (\<lambda>_ s. usertrapret s))"

definition usertrap :: "(uint64 \<Rightarrow> uint) \<Rightarrow> (uint64 \<Rightarrow> uint) \<Rightarrow> kstate \<Rightarrow> 'a kres" where
  "usertrap plic rd s =
    (if h_sstatus (this_hart s) AND SSTATUS_SPP \<noteq> 0 then panic ''usertrap: not from user mode''
     else
       let s = upd_hart (\<lambda>h. h\<lparr>h_stvec := sym_kernelvec (syms s)\<rparr>) s
       in bindE (curproc s) (\<lambda>p s.
          let s = upd_tframe (p_trapframe (procs s p)) (\<lambda>t. t\<lparr>tf_epc := h_sepc (this_hart s)\<rparr>) s
          in if h_scause (this_hart s) = 8
             then
               bindE (killed p s) (\<lambda>k s.
               if k \<noteq> 0 then exit (-1) s
               else
                 let s = upd_tframe (p_trapframe (procs s p)) (\<lambda>t. t\<lparr>tf_epc := tf_epc t + 4\<rparr>) s;
                     s = intr_on s
                 in bindE (syscall s) (\<lambda>_ s. usertrap_end p 0 s))
             else
               bindE (devintr plic rd s) (\<lambda>which_dev s.
               if which_dev \<noteq> 0 then usertrap_end p which_dev s
               else
                 bindE (printf (''usertrap(): unexpected scause 0x%lx pid=%d'' @ [CHR 0x0A])
                   [Reg (h_scause (this_hart s)), Reg (word_of_int (p_pid (procs s p)))] s) (\<lambda>_ s.
                 bindE (printf (''            sepc=0x%lx stval=0x%lx'' @ [CHR 0x0A])
                   [Reg (h_sepc (this_hart s)), Reg (h_stval (this_hart s))] s) (\<lambda>_ s.
                 bindE (setkilled p s) (\<lambda>_ s. usertrap_end p 0 s))))))"

text \<open>
  \<^verbatim>\<open>kerneltrap\<close> up to its \<^verbatim>\<open>yield\<close>. The two saved registers are restored by \<open>kerneltrap_return\<close>,
  at once or after the yield.
\<close>

definition kerneltrap_return :: "uint64 \<Rightarrow> uint64 \<Rightarrow> kstate \<Rightarrow> kstate" where
  "kerneltrap_return sepc sstatus s =
    (let s = upd_hart (\<lambda>h. h\<lparr>h_sepc := sepc\<rparr>) s in upd_hart (\<lambda>h. h\<lparr>h_sstatus := sstatus\<rparr>) s)"

definition kerneltrap :: "(uint64 \<Rightarrow> uint) \<Rightarrow> (uint64 \<Rightarrow> uint) \<Rightarrow> kstate \<Rightarrow> unit kres" where
  "kerneltrap plic rd s =
    (let sepc = h_sepc (this_hart s); sstatus = h_sstatus (this_hart s);
         scause = h_scause (this_hart s)
     in if sstatus AND SSTATUS_SPP = 0 then panic ''kerneltrap: not from supervisor mode''
        else if intr_get s then panic ''kerneltrap: interrupts enabled''
        else
          bindE (devintr plic rd s) (\<lambda>which_dev s.
          if which_dev = 0
          then bindE (printf (''scause=0x%lx sepc=0x%lx stval=0x%lx'' @ [CHR 0x0A])
                 [Reg scause, Reg (h_sepc (this_hart s)), Reg (h_stval (this_hart s))] s) (\<lambda>_ s.
               panic ''kerneltrap'')
          else
            bindE (if which_dev = 2
                   then bindE (myproc s) (\<lambda>p s. if p \<noteq> None then yield s else ret () s)
                   else ret () s) (\<lambda>_ s.
            ret () (kerneltrap_return sepc sstatus s))))"

end
