(* ===== verification/Boot.thy ===== *)
theory Boot
  imports Trap
begin

text \<open>
  \<^verbatim>\<open>kernel/start.c\<close> and \<^verbatim>\<open>kernel/main.c\<close>: machine-mode set-up of a hart and the start of the kernel.
\<close>

section \<open>Machine mode\<close>

definition MSTATUS_MPP_MASK :: uint64 where "MSTATUS_MPP_MASK = push_bit 11 3"
definition MSTATUS_MPP_S :: uint64 where "MSTATUS_MPP_S = push_bit 11 1"
definition SIE_SEIE :: uint64 where "SIE_SEIE = push_bit 9 1"
definition SIE_STIE :: uint64 where "SIE_STIE = push_bit 5 1"
definition SIE_SSIE :: uint64 where "SIE_SSIE = push_bit 1 1"
definition MIE_STIE :: uint64 where "MIE_STIE = push_bit 5 1"

definition timerinit :: "hart \<Rightarrow> hart" where
  "timerinit h =
    (let h = h\<lparr>h_mie := h_mie h OR MIE_STIE\<rparr>;
         h = h\<lparr>h_menvcfg := h_menvcfg h OR push_bit 63 1\<rparr>;
         h = h\<lparr>h_mcounteren := h_mcounteren h OR 2\<rparr>
     in h\<lparr>h_stimecmp := h_time h + 1000000\<rparr>)"

text \<open>
  \<^verbatim>\<open>start\<close> on the hart \<open>hid\<close>, up to \<^verbatim>\<open>mret\<close>, which goes on at \<^verbatim>\<open>mepc\<close> in the mode of the field
  \<^verbatim>\<open>MPP\<close>. \<open>main_addr\<close> is the address of \<^verbatim>\<open>main\<close>.
\<close>

definition start :: "uint64 \<Rightarrow> nat \<Rightarrow> kstate \<Rightarrow> kstate" where
  "start main_addr hid s =
    (let h = harts s hid;
         x = h_mstatus h;
         x = x AND NOT MSTATUS_MPP_MASK;
         x = x OR MSTATUS_MPP_S;
         h = h\<lparr>h_mstatus := x\<rparr>;
         h = h\<lparr>h_mepc := main_addr\<rparr>;
         h = h\<lparr>h_satp := 0\<rparr>;
         h = h\<lparr>h_medeleg := 0xffff\<rparr>;
         h = h\<lparr>h_mideleg := 0xffff\<rparr>;
         h = h\<lparr>h_sie := h_sie h OR SIE_SEIE OR SIE_STIE OR SIE_SSIE\<rparr>;
         h = h\<lparr>h_pmpaddr0 := 0x3fffffffffffff\<rparr>;
         h = h\<lparr>h_pmpcfg0 := 0xf\<rparr>;
         h = timerinit h
     in s\<lparr>harts := (harts s)(hid := h), tp := hid\<rparr>)"

section \<open>The start of the kernel\<close>

text \<open>\<^verbatim>\<open>main\<close> up to the call of \<^verbatim>\<open>scheduler\<close>; a hart that waits for hart 0 does not get past its loop.\<close>

definition main :: "(uint64 \<Rightarrow> uint) \<Rightarrow> kstate \<Rightarrow> unit kres" where
  "main rd s =
    bindE
     (if cpuid s = 0
      then
        let s = consoleinit s; s = printfinit s
        in bindE (printf [CHR 0x0A] [] s) (\<lambda>_ s.
           bindE (printf (''xv6 kernel is booting'' @ [CHR 0x0A]) [] s) (\<lambda>_ s.
           bindE (printf [CHR 0x0A] [] s) (\<lambda>_ s.
           bindE (kinit s) (\<lambda>_ s.
           bindE (kvminit s) (\<lambda>_ s.
           let s = kvminithart s;
               s = procinit s;
               s = trapinit s;
               s = trapinithart s;
               s = plicinit s;
               s = plicinithart s;
               s = binit s;
               s = iinit s;
               s = fileinit s
           in bindE (virtio_disk_init rd s) (\<lambda>_ s.
              bindE (userinit s) (\<lambda>_ s.
              ret () (s\<lparr>started := True\<rparr>))))))))
      else if \<not> started s then Inl Forever
      else
        bindE (printf (''hart %d starting'' @ [CHR 0x0A]) [Reg (of_nat (cpuid s))] s) (\<lambda>_ s.
        let s = kvminithart s;
            s = trapinithart s
        in ret () (plicinithart s)))
     (\<lambda>_ s. ret () (scheduler_start s))"

end
