(* ===== verification/Bcache.thy ===== *)
theory Bcache
  imports Bio
begin

text \<open>
  What the buffer cache of \<open>Bio\<close> promises its clients. The recency list is a ring that \<^verbatim>\<open>binit\<close>
  builds and every operation keeps; the scans of \<^verbatim>\<open>bget\<close> always end. To a client the cache is a
  store of blocks: \<open>store s n\<close> is the current content of block \<open>n\<close>, \<open>refs s n\<close> the number of
  references to it, and a map from the blocks the process holds to their buffers. The locale
  \<open>block_cache\<close> is this contract, and the definitions of \<open>Bio\<close> satisfy it.
\<close>

section \<open>The ring\<close>

lemma adj_rev: "adj pv nx (rev l) = adj nx pv l"
proof (induction nx pv l rule: adj.induct)
  case (1 nx pv a b l)
  then show ?case using adj_append [of pv nx "rev l" b "[a]"] by auto
qed simp_all

lemma bget_cached_adj:
  assumes "adj (nexts s) pv (zs @ [bhead])" and "bhead \<notin> set zs" and "length zs < n"
  shows "bget_cached n (hd (zs @ [bhead])) dev k s =
    ret (find (\<lambda>b. b_dev (bufs s b) = dev \<and> b_blockno (bufs s b) = k) zs) s"
  using assms
proof (induction zs arbitrary: n)
  case Nil
  then show ?case by (cases n) simp_all
next
  case (Cons z zs)
  then obtain m where n: "n = Suc m" by (cases n) auto
  have "b_next (bufs s z) = hd (zs @ [bhead])" "adj (nexts s) pv (zs @ [bhead])"
    using Cons.prems(1) by (cases zs; simp add: nexts_def)+
  then show ?case using Cons.IH [of m] Cons.prems(2,3) n by simp
qed

lemma bget_unused_adj:
  assumes "adj (prevs s) nx (zs @ [bhead])" and "bhead \<notin> set zs" and "length zs < n"
  shows "bget_unused n (hd (zs @ [bhead])) s = ret (find (\<lambda>b. b_refcnt (bufs s b) = 0) zs) s"
  using assms
proof (induction zs arbitrary: n)
  case Nil
  then show ?case by (cases n) simp_all
next
  case (Cons z zs)
  then obtain m where n: "n = Suc m" by (cases n) auto
  have "b_prev (bufs s z) = hd (zs @ [bhead])" "adj (prevs s) nx (zs @ [bhead])"
    using Cons.prems(1) by (cases zs; simp add: prevs_def)+
  then show ?case using Cons.IH [of m] Cons.prems(2,3) n by simp
qed

lemma buf_ring_length: "buf_ring s xs \<Longrightarrow> length xs = NBUF \<and> bhead \<notin> set xs"
  unfolding buf_ring_def by (metis card_lessThan distinct_card lessThan_iff less_irrefl)

lemma bget_scans:
  assumes "buf_ring s xs"
  shows "bget_cached (NBUF + 1) (b_next (bufs s bhead)) dev k s =
      ret (find (\<lambda>b. b_dev (bufs s b) = dev \<and> b_blockno (bufs s b) = k) xs) s"
    and "bget_unused (NBUF + 1) (b_prev (bufs s bhead)) s =
      ret (find (\<lambda>b. b_refcnt (bufs s b) = 0) (rev xs)) s"
proof -
  have a: "adj (nexts s) (prevs s) (bhead # xs @ [bhead])" using assms by (simp add: buf_ring_def)
  then have "adj (prevs s) (nexts s) (bhead # rev xs @ [bhead])" using adj_rev [of "prevs s" "nexts s" "bhead # xs @ [bhead]"] by simp
  then have p: "b_prev (bufs s bhead) = hd (rev xs @ [bhead])" "adj (prevs s) (nexts s) (rev xs @ [bhead])"
    by (cases "rev xs @ [bhead]"; simp add: prevs_def)+
  have n: "b_next (bufs s bhead) = hd (xs @ [bhead])" "adj (nexts s) (prevs s) (xs @ [bhead])"
    using a by (cases "xs @ [bhead]"; simp add: nexts_def)+
  show "bget_cached (NBUF + 1) (b_next (bufs s bhead)) dev k s =
      ret (find (\<lambda>b. b_dev (bufs s b) = dev \<and> b_blockno (bufs s b) = k) xs) s"
    unfolding n(1) by (rule bget_cached_adj [OF n(2)]) (simp_all add: buf_ring_length [OF assms])
  show "bget_unused (NBUF + 1) (b_prev (bufs s bhead)) s =
      ret (find (\<lambda>b. b_refcnt (bufs s b) = 0) (rev xs)) s"
    unfolding p(1) by (rule bget_unused_adj [OF p(2)]) (simp_all add: buf_ring_length [OF assms])
qed

lemma initsleeplock_links [simp]:
  "nexts (initsleeplock (BufLock b) nm s) = nexts s" "prevs (initsleeplock (BufLock b) nm s) = prevs s"
  by (auto simp: initsleeplock_def nexts_def prevs_def upd_buf_def initlock_def machine_defs)

lemma binit_link_adj:
  assumes "adj (nexts s) (prevs s) (bhead # ws @ [bhead])" and "distinct (bhead # ws)" and "b \<notin> set (bhead # ws)"
  shows "adj (nexts (binit_link b s)) (prevs (binit_link b s)) (bhead # b # ws @ [bhead])"
proof -
  have "binit_link b s =
    (let s = set_next b (nexts s bhead) s;
         s = set_prev b bhead s;
         s = initsleeplock (BufLock b) ''buffer'' s;
         s = set_prev (nexts s bhead) b s
     in set_next bhead b s)"
    by (simp add: binit_link_def nexts_def prevs_def)
  then show ?thesis using adj_insert [OF assms] assms(3) by (simp add: Let_def)
qed

lemma binit_from_adj:
  assumes "adj (nexts s) (prevs s) (bhead # rev [0..<k] @ [bhead])" and "k + n \<le> NBUF"
  shows "adj (nexts (binit_from n k s)) (prevs (binit_from n k s)) (bhead # rev [0..<k + n] @ [bhead])"
  using assms
proof (induction n arbitrary: k s)
  case (Suc n)
  have "adj (nexts (binit_link k s)) (prevs (binit_link k s)) (bhead # k # rev [0..<k] @ [bhead])"
    using Suc.prems by (intro binit_link_adj) auto
  then show ?case using Suc.IH [of "binit_link k s" "Suc k"] Suc.prems(2) by simp
qed simp

lemma binit_ring: "buf_ring (binit s) (rev [0..<NBUF])"
proof -
  define t where "t = set_next bhead bhead (set_prev bhead bhead (initlock BcacheLock ''bcache'' s))"
  have "adj (nexts t) (prevs t) (bhead # rev [0..<0] @ [bhead])" by (simp add: t_def)
  from binit_from_adj [OF this, of NBUF]
  have "adj (nexts (binit s)) (prevs (binit s)) (bhead # rev [0..<NBUF] @ [bhead])"
    by (simp add: binit_def t_def Let_def)
  then show ?thesis by (auto simp: buf_ring_def)
qed

section \<open>The blocks the buffers hold\<close>

definition slot :: "(nat \<Rightarrow> buf) \<Rightarrow> uint \<Rightarrow> nat option" where
  "slot B n = find (\<lambda>b. b_dev (B b) = ROOTDEV \<and> b_blockno (B b) = n) [0..<NBUF]"

definition bstore :: "(nat \<Rightarrow> block) \<Rightarrow> (nat \<Rightarrow> buf) \<Rightarrow> uint \<Rightarrow> block" where
  "bstore D B n = (case slot B n of Some b \<Rightarrow> b_data (B b) | None \<Rightarrow> D (unat n))"

definition brefs :: "(nat \<Rightarrow> buf) \<Rightarrow> uint \<Rightarrow> nat" where
  "brefs B n = (case slot B n of Some b \<Rightarrow> unat (b_refcnt (B b)) | None \<Rightarrow> 0)"

text \<open>
  The invariant of the buffers, with \<open>h\<close> the blocks that process \<open>pid\<close> holds: no block is in two
  buffers, a referenced buffer has a block, the content of an unreferenced one is on the disk, and
  exactly the buffers in \<open>h\<close> are locked, by \<open>pid\<close>.
\<close>

definition bufs_ok :: "int \<Rightarrow> (uint \<rightharpoonup> nat) \<Rightarrow> (nat \<Rightarrow> block) \<Rightarrow> (nat \<Rightarrow> buf) \<Rightarrow> bool" where
  "bufs_ok pid h D B \<longleftrightarrow>
    (\<forall>b < NBUF. \<forall>c < NBUF. b_dev (B b) = ROOTDEV \<and> b_dev (B c) = ROOTDEV \<and> b_blockno (B b) = b_blockno (B c) \<longrightarrow> b = c) \<and>
    (\<forall>b < NBUF. b_refcnt (B b) \<noteq> 0 \<longrightarrow> b_dev (B b) = ROOTDEV) \<and>
    (\<forall>b < NBUF. b_dev (B b) = ROOTDEV \<longrightarrow> b_valid (B b)) \<and>
    (\<forall>b < NBUF. b_dev (B b) = ROOTDEV \<longrightarrow> b_refcnt (B b) = 0 \<longrightarrow> b_data (B b) = D (unat (b_blockno (B b)))) \<and>
    (\<forall>n b. h n = Some b \<longrightarrow> b < NBUF \<and> b_dev (B b) = ROOTDEV \<and> b_blockno (B b) = n \<and> b_refcnt (B b) \<noteq> 0 \<and>
      sl_locked (b_lock (B b)) = 1 \<and> sl_pid (b_lock (B b)) = pid) \<and>
    (\<forall>b < NBUF. sl_locked (b_lock (B b)) \<noteq> 0 \<longrightarrow> h (b_blockno (B b)) = Some b)"

lemma bufs_okD:
  assumes "bufs_ok pid h D B"
  shows "b < NBUF \<Longrightarrow> c < NBUF \<Longrightarrow> b_dev (B b) = ROOTDEV \<Longrightarrow> b_dev (B c) = ROOTDEV \<Longrightarrow>
      b_blockno (B b) = b_blockno (B c) \<Longrightarrow> b = c"
    and "b < NBUF \<Longrightarrow> b_refcnt (B b) \<noteq> 0 \<Longrightarrow> b_dev (B b) = ROOTDEV"
    and "b < NBUF \<Longrightarrow> b_dev (B b) = ROOTDEV \<Longrightarrow> b_valid (B b)"
    and "b < NBUF \<Longrightarrow> b_dev (B b) = ROOTDEV \<Longrightarrow> b_refcnt (B b) = 0 \<Longrightarrow> b_data (B b) = D (unat (b_blockno (B b)))"
    and "h n = Some b \<Longrightarrow> b < NBUF \<and> b_dev (B b) = ROOTDEV \<and> b_blockno (B b) = n \<and> b_refcnt (B b) \<noteq> 0 \<and>
      sl_locked (b_lock (B b)) = 1 \<and> sl_pid (b_lock (B b)) = pid"
    and "b < NBUF \<Longrightarrow> sl_locked (b_lock (B b)) \<noteq> 0 \<Longrightarrow> h (b_blockno (B b)) = Some b"
  using assms unfolding bufs_ok_def by blast+

lemma slot_Some_iff:
  assumes "bufs_ok pid h D B"
  shows "slot B n = Some b \<longleftrightarrow> b < NBUF \<and> b_dev (B b) = ROOTDEV \<and> b_blockno (B b) = n"
proof
  assume "slot B n = Some b"
  then show "b < NBUF \<and> b_dev (B b) = ROOTDEV \<and> b_blockno (B b) = n"
    unfolding slot_def find_Some_iff by auto
next
  assume b: "b < NBUF \<and> b_dev (B b) = ROOTDEV \<and> b_blockno (B b) = n"
  then obtain c where c: "slot B n = Some c"
    unfolding slot_def by (metis (mono_tags, lifting) atLeastLessThan_iff find_None_iff not_Some_eq set_upt zero_le)
  then have "c < NBUF \<and> b_dev (B c) = ROOTDEV \<and> b_blockno (B c) = n"
    unfolding slot_def find_Some_iff by auto
  then show "slot B n = Some b" using c b bufs_okD(1) [OF assms] by metis
qed

lemma slot_None_iff: "slot B n = None \<longleftrightarrow> (\<forall>b < NBUF. b_dev (B b) = ROOTDEV \<longrightarrow> b_blockno (B b) \<noteq> n)"
  unfolding slot_def find_None_iff by auto

lemma bufs_ok_held:
  assumes "bufs_ok pid h D B" and "h n = Some b"
  shows "slot B n = Some b" and "bstore D B n = b_data (B b)" and "brefs B n = unat (b_refcnt (B b))"
  using bufs_okD(5) [OF assms] slot_Some_iff [OF assms(1), of n b] by (simp_all add: bstore_def brefs_def)

text \<open>Buffer \<open>b\<close> gets block \<open>n\<close>, which it held already or which was in no buffer.\<close>

lemma slot_upd:
  assumes "bufs_ok pid h D B" and "b < NBUF" and "slot B n = Some b \<or> slot B n = None"
    and "b_dev x = ROOTDEV" and "b_blockno x = n"
  shows "slot (B(b := x)) m = (if m = n then Some b else if slot B m = Some b then None else slot B m)"
proof -
  have u: "c = b" if "c < NBUF" "b_dev (B c) = ROOTDEV" "b_blockno (B c) = n" for c
    using assms(3) that slot_Some_iff [OF assms(1), of n c] by auto
  show ?thesis
  proof (cases "slot (B(b := x)) m")
    case None
    then have no: "c < NBUF \<Longrightarrow> b_dev ((B(b := x)) c) = ROOTDEV \<Longrightarrow> b_blockno ((B(b := x)) c) \<noteq> m" for c
      by (auto simp: slot_None_iff simp del: fun_upd_apply)
    then have "m \<noteq> n" using assms(2,4,5) by (metis fun_upd_same)
    moreover have "slot B m = None \<or> slot B m = Some b"
    proof (cases "slot B m")
      case (Some c)
      then have "c < NBUF \<and> b_dev (B c) = ROOTDEV \<and> b_blockno (B c) = m" using slot_Some_iff [OF assms(1)] by blast
      then have "c = b" using no [of c] by (metis fun_upd_other)
      then show ?thesis using Some by simp
    qed simp
    ultimately show ?thesis using None by auto
  next
    case (Some c)
    then have c: "c < NBUF" "b_dev ((B(b := x)) c) = ROOTDEV" "b_blockno ((B(b := x)) c) = m"
      unfolding slot_def find_Some_iff by auto
    show ?thesis
    proof (cases "c = b")
      case True
      then show ?thesis using c assms(5) Some by simp
    next
      case False
      then have "slot B m = Some c" using c slot_Some_iff [OF assms(1)] by simp
      moreover have "m \<noteq> n" using u [of c] c False by auto
      ultimately show ?thesis using Some False by simp
    qed
  qed
qed

text \<open>The invariant after buffer \<open>b\<close> becomes \<open>x\<close>.\<close>

lemma bufs_ok_change:
  assumes "bufs_ok pid h D B" and "b < NBUF" and "b_dev x = ROOTDEV" and "b_valid x"
    and "\<And>c. c < NBUF \<Longrightarrow> c \<noteq> b \<Longrightarrow> b_dev (B c) = ROOTDEV \<Longrightarrow> b_blockno (B c) \<noteq> b_blockno x"
    and "b_refcnt x = 0 \<Longrightarrow> b_data x = D (unat (b_blockno x))"
    and "\<And>m c. c \<noteq> b \<Longrightarrow> h' m = Some c \<longleftrightarrow> h m = Some c"
    and "\<And>m. h' m = Some b \<Longrightarrow> b_blockno x = m \<and> b_refcnt x \<noteq> 0 \<and> sl_locked (b_lock x) = 1 \<and> sl_pid (b_lock x) = pid"
    and "sl_locked (b_lock x) \<noteq> 0 \<Longrightarrow> h' (b_blockno x) = Some b"
  shows "bufs_ok pid h' D (B(b := x))"
proof -
  note ok = bufs_okD [OF assms(1)]
  have 1: "a = c" if "a < NBUF" "c < NBUF" "b_dev ((B(b := x)) a) = ROOTDEV" "b_dev ((B(b := x)) c) = ROOTDEV"
    "b_blockno ((B(b := x)) a) = b_blockno ((B(b := x)) c)" for a c
  proof (cases "a = b"; cases "c = b")
    assume "a \<noteq> b" "c \<noteq> b"
    then show ?thesis using that ok(1) [of a c] by simp
  next
    assume "a = b" "c \<noteq> b"
    then show ?thesis using that assms(5) [of c] by simp
  next
    assume "a \<noteq> b" "c = b"
    then show ?thesis using that assms(5) [of a] by simp
  qed simp
  have 2: "b_dev ((B(b := x)) c) = ROOTDEV" if "c < NBUF" "b_refcnt ((B(b := x)) c) \<noteq> 0" for c
    using that ok(2) [of c] assms(3) by (cases "c = b") simp_all
  have 3: "b_valid ((B(b := x)) c)" if "c < NBUF" "b_dev ((B(b := x)) c) = ROOTDEV" for c
    using that ok(3) [of c] assms(4) by (cases "c = b") simp_all
  have 4: "b_data ((B(b := x)) c) = D (unat (b_blockno ((B(b := x)) c)))"
    if "c < NBUF" "b_dev ((B(b := x)) c) = ROOTDEV" "b_refcnt ((B(b := x)) c) = 0" for c
    using that ok(4) [of c] assms(6) by (cases "c = b") simp_all
  have 5: "c < NBUF \<and> b_dev ((B(b := x)) c) = ROOTDEV \<and> b_blockno ((B(b := x)) c) = m \<and>
      b_refcnt ((B(b := x)) c) \<noteq> 0 \<and> sl_locked (b_lock ((B(b := x)) c)) = 1 \<and> sl_pid (b_lock ((B(b := x)) c)) = pid"
    if "h' m = Some c" for m c
  proof (cases "c = b")
    case True
    then show ?thesis using that assms(2,3) assms(8) [of m] by simp
  next
    case False
    then show ?thesis using that assms(7) [of c m] ok(5) [of m c] by simp
  qed
  have 6: "h' (b_blockno ((B(b := x)) c)) = Some c" if "c < NBUF" "sl_locked (b_lock ((B(b := x)) c)) \<noteq> 0" for c
    using that ok(6) [of c] assms(9) assms(7) [of c "b_blockno (B c)"] by (cases "c = b") simp_all
  show ?thesis unfolding bufs_ok_def using 1 2 3 4 5 6 by blast
qed

text \<open>How the invariant and the two views change: a reference taken with the lock, \<dots>\<close>

lemma bufs_ok_get:
  assumes "bufs_ok pid h D B" and "b < NBUF" and "h n = None"
    and "slot B n = Some b \<or> slot B n = None \<and> b_refcnt (B b) = 0"
    and "b_dev x = ROOTDEV" "b_blockno x = n" "b_valid x" "unat (b_refcnt x) = Suc (brefs B n)"
    "b_data x = bstore D B n" "sl_locked (b_lock x) = 1" "sl_pid (b_lock x) = pid"
  shows "bufs_ok pid (h(n \<mapsto> b)) D (B(b := x))" and "bstore D (B(b := x)) = bstore D B"
    and "brefs (B(b := x)) = (brefs B)(n := Suc (brefs B n))"
proof -
  have sl: "slot (B(b := x)) m = (if m = n then Some b else if slot B m = Some b then None else slot B m)" for m
    using slot_upd [OF assms(1,2) _ assms(5,6)] assms(4) by blast
  have gone: "b_refcnt (B b) = 0 \<and> b_dev (B b) = ROOTDEV \<and> b_blockno (B b) = m" if "slot B m = Some b" "m \<noteq> n" for m
    using assms(4) that slot_Some_iff [OF assms(1), of _ b] by metis
  have nz: "b_refcnt x \<noteq> 0" using assms(8) by auto
  have nh: "h m \<noteq> Some b" for m
  proof
    assume m: "h m = Some b"
    then have "m \<noteq> n" "slot B m = Some b" "b_refcnt (B b) \<noteq> 0"
      using assms(3) bufs_ok_held(1) [OF assms(1) m] bufs_okD(5) [OF assms(1) m] by auto
    then show False using gone by blast
  qed
  have un: "c = b" if "c < NBUF" "b_dev (B c) = ROOTDEV" "b_blockno (B c) = n" for c
    using assms(4) that slot_Some_iff [OF assms(1), of n c] by auto
  show "bufs_ok pid (h(n \<mapsto> b)) D (B(b := x))"
  proof (rule bufs_ok_change [OF assms(1,2,5,7)])
    show "b_blockno (B c) \<noteq> b_blockno x" if "c < NBUF" "c \<noteq> b" "b_dev (B c) = ROOTDEV" for c
      using un [of c] that assms(6) by blast
    show "(h(n \<mapsto> b)) m = Some c \<longleftrightarrow> h m = Some c" if "c \<noteq> b" for m c
      using that assms(3) by simp
    show "b_blockno x = m \<and> b_refcnt x \<noteq> 0 \<and> sl_locked (b_lock x) = 1 \<and> sl_pid (b_lock x) = pid"
      if "(h(n \<mapsto> b)) m = Some b" for m
      using that nh [of m] assms(6,10,11) nz by (cases "m = n") simp_all
  qed (use nz assms(6) in simp_all)
  have "bstore D (B(b := x)) m = bstore D B m" for m
  proof (cases "slot B m = Some b \<and> m \<noteq> n")
    case True
    then show ?thesis using gone [of m] bufs_okD(4) [OF assms(1,2)] by (simp add: bstore_def sl)
  next
    case False
    then show ?thesis using assms(9) by (auto simp: bstore_def sl split: option.split)
  qed
  then show "bstore D (B(b := x)) = bstore D B" ..
  have "brefs (B(b := x)) m = ((brefs B)(n := Suc (brefs B n))) m" for m
  proof (cases "slot B m = Some b \<and> m \<noteq> n")
    case True
    then show ?thesis using gone [of m] by (simp add: brefs_def sl)
  next
    case False
    then show ?thesis using assms(8) by (auto simp: brefs_def sl split: option.split)
  qed
  then show "brefs (B(b := x)) = (brefs B)(n := Suc (brefs B n))" ..
qed

text \<open>\<dots> a change of the buffer that holds a block, and of its lock, \<dots>\<close>

lemma views_upd:
  assumes "bufs_ok pid h D B" and "slot B n = Some b" and "b_dev x = ROOTDEV" "b_blockno x = n"
  shows "bstore D (B(b := x)) = (bstore D B)(n := b_data x)" and "brefs (B(b := x)) = (brefs B)(n := unat (b_refcnt x))"
proof -
  have b: "b < NBUF" "b_blockno (B b) = n" using slot_Some_iff [OF assms(1), of n b] assms(2) by simp_all
  have other: "slot B m \<noteq> Some b" if "m \<noteq> n" for m
    using that slot_Some_iff [OF assms(1), of m b] b by auto
  have sl: "slot (B(b := x)) m = (if m = n then Some b else slot B m)" for m
    using slot_upd [OF assms(1) b(1) _ assms(3,4), of m] assms(2) other [of m] by simp
  have "bstore D (B(b := x)) m = ((bstore D B)(n := b_data x)) m"
    "brefs (B(b := x)) m = ((brefs B)(n := unat (b_refcnt x))) m" for m
    using other [of m] by (auto simp: bstore_def brefs_def sl split: option.split)
  note v = this
  show "bstore D (B(b := x)) = (bstore D B)(n := b_data x)" using v(1) by (rule ext)
  show "brefs (B(b := x)) = (brefs B)(n := unat (b_refcnt x))" using v(2) by (rule ext)
qed

lemma bufs_ok_upd:
  assumes "bufs_ok pid h D B" and "h n = Some b"
    and "b_dev x = ROOTDEV" "b_blockno x = n" "b_valid x" "b_refcnt x \<noteq> 0" "b_lock x = b_lock (B b)"
  shows "bufs_ok pid h D (B(b := x))"
proof -
  note b = bufs_okD(5) [OF assms(1,2)]
  show ?thesis
  proof (rule bufs_ok_change [OF assms(1) _ assms(3,5)])
    show "b_blockno (B c) \<noteq> b_blockno x" if "c < NBUF" "c \<noteq> b" "b_dev (B c) = ROOTDEV" for c
      using bufs_okD(1) [OF assms(1), of c b] that b assms(4) by auto
    show "b_blockno x = m \<and> b_refcnt x \<noteq> 0 \<and> sl_locked (b_lock x) = 1 \<and> sl_pid (b_lock x) = pid"
      if "h m = Some b" for m
      using bufs_okD(5) [OF assms(1) that] b assms(4,6,7) by simp
  qed (use b assms in simp_all)
qed

lemma bufs_ok_put:
  assumes "bufs_ok pid h D B" and "h n = Some b"
    and "b_dev x = ROOTDEV" "b_blockno x = n" "b_valid x" "sl_locked (b_lock x) = 0"
    and "b_refcnt x = 0 \<Longrightarrow> b_data x = D (unat n)"
  shows "bufs_ok pid (h(n := None)) D (B(b := x))"
proof -
  note b = bufs_okD(5) [OF assms(1,2)]
  have only: "m = n" if "h m = Some b" for m using bufs_okD(5) [OF assms(1) that] b by simp
  show ?thesis
  proof (rule bufs_ok_change [OF assms(1) _ assms(3,5)])
    show "b_blockno (B c) \<noteq> b_blockno x" if "c < NBUF" "c \<noteq> b" "b_dev (B c) = ROOTDEV" for c
      using bufs_okD(1) [OF assms(1), of c b] that b assms(4) by auto
    show "b_blockno x = m \<and> b_refcnt x \<noteq> 0 \<and> sl_locked (b_lock x) = 1 \<and> sl_pid (b_lock x) = pid"
      if "(h(n := None)) m = Some b" for m
      using that only [of m] by (cases "m = n") simp_all
    show "(h(n := None)) m = Some c \<longleftrightarrow> h m = Some c" if "c \<noteq> b" for m c
      using that assms(2) by simp
  qed (use b assms in simp_all)
qed

text \<open>\<dots> and a write of a held block to the disk.\<close>

lemma bufs_ok_write:
  assumes "bufs_ok pid h D B" and "h n = Some b"
  shows "bufs_ok pid h (D(unat n := b_data (B b))) B" and "bstore (D(unat n := b_data (B b))) B = bstore D B"
proof -
  note b = bufs_okD(5) [OF assms]
  show "bufs_ok pid h (D(unat n := b_data (B b))) B"
  proof -
    have "b_data (B c) = (D(unat n := b_data (B b))) (unat (b_blockno (B c)))"
      if "c < NBUF" "b_dev (B c) = ROOTDEV" "b_refcnt (B c) = 0" for c
    proof (cases "b_blockno (B c) = n")
      case True
      then have "c = b" using bufs_okD(1) [OF assms(1), of c b] that b by simp
      then show ?thesis using that b by simp
    next
      case False
      then have "unat (b_blockno (B c)) \<noteq> unat n" by (metis unsigned_word_eqI)
      then show ?thesis using bufs_okD(4) [OF assms(1), of c] that by simp
    qed
    then show ?thesis using assms(1) unfolding bufs_ok_def by blast
  qed
  have "bstore (D(unat n := b_data (B b))) B m = bstore D B m" for m
  proof (cases "m = n")
    case True
    then show ?thesis using bufs_ok_held(1) [OF assms] by (simp add: bstore_def)
  next
    case False
    then have "unat m \<noteq> unat n" by (metis unsigned_word_eqI)
    then show ?thesis by (simp add: bstore_def split: option.split)
  qed
  then show "bstore (D(unat n := b_data (B b))) B = bstore D B" ..
qed

lemma bufs_ok_relink [simp]:
  "bufs_ok pid h D (\<lambda>b. (B b)\<lparr>b_prev := pv b, b_next := nx b\<rparr>) = bufs_ok pid h D B"
  "bstore D (\<lambda>b. (B b)\<lparr>b_prev := pv b, b_next := nx b\<rparr>) = bstore D B"
  "brefs (\<lambda>b. (B b)\<lparr>b_prev := pv b, b_next := nx b\<rparr>) = brefs B"
  by (simp_all add: bufs_ok_def fun_eq_iff bstore_def brefs_def slot_def cong: option.case_cong)

section \<open>The operations\<close>

definition store :: "kstate \<Rightarrow> uint \<Rightarrow> block" where
  "store s = bstore (disk s) (bufs s)"

definition refs :: "kstate \<Rightarrow> uint \<Rightarrow> nat" where
  "refs s = brefs (bufs s)"

text \<open>Process \<open>p\<close> runs and no spin lock is held.\<close>

definition quiet :: "nat \<Rightarrow> kstate \<Rightarrow> bool" where
  "quiet p s \<longleftrightarrow> cpu_ok s \<and> cpu_proc (mycpu s) = Some p \<and> (\<forall>lk. lock_free lk s)"

definition cache_ok :: "nat \<Rightarrow> (uint \<rightharpoonup> nat) \<Rightarrow> kstate \<Rightarrow> bool" where
  "cache_ok p h s \<longleftrightarrow> quiet p s \<and> (\<exists>xs. buf_ring s xs) \<and> bufs_ok (p_pid (procs s p)) h (disk s) (bufs s)"

text \<open>What a buffer operation leaves alone: all but the buffers, the disk, and who is asleep.\<close>

definition bframe :: "kstate \<Rightarrow> kstate \<Rightarrow> bool" where
  "bframe s t \<longleftrightarrow> (\<exists>B ps d w. crit t = crit (s\<lparr>bufs := B, procs := ps, disk := d, dtrace := w\<rparr>) \<and>
    (\<forall>i. ps i = procs s i \<or> ps i = (procs s i)\<lparr>p_state := RUNNABLE\<rparr>))"

lemma bframeI:
  assumes "t = crit (s\<lparr>bufs := B, procs := ps, disk := d, dtrace := w\<rparr>)" and "cpu_ok s"
    and "\<And>i. ps i = procs s i \<or> ps i = (procs s i)\<lparr>p_state := RUNNABLE\<rparr>"
  shows "bframe s t"
  unfolding bframe_def using assms by (intro exI conjI allI) auto

lemma bframe_trans: "bframe s t \<Longrightarrow> bframe t u \<Longrightarrow> bframe s u"
proof -
  assume "bframe s t" and "bframe t u"
  then obtain B ps d w B' ps' d' w' where
    t: "crit t = crit (s\<lparr>bufs := B, procs := ps, disk := d, dtrace := w\<rparr>)"
      "\<forall>i. ps i = procs s i \<or> ps i = (procs s i)\<lparr>p_state := RUNNABLE\<rparr>" and
    u: "crit u = crit (t\<lparr>bufs := B', procs := ps', disk := d', dtrace := w'\<rparr>)"
      "\<forall>i. ps' i = procs t i \<or> ps' i = (procs t i)\<lparr>p_state := RUNNABLE\<rparr>"
    unfolding bframe_def by blast
  have "crit u = (crit t)\<lparr>bufs := B', procs := ps', disk := d', dtrace := w'\<rparr>" using u(1) by simp
  also have "\<dots> = crit (s\<lparr>bufs := B', procs := ps', disk := d', dtrace := w'\<rparr>)" unfolding t(1) by simp
  finally have c: "crit u = crit (s\<lparr>bufs := B', procs := ps', disk := d', dtrace := w'\<rparr>)" .
  have "procs t = ps" using arg_cong [OF t(1), of procs] by simp
  then have "\<forall>i. ps' i = procs s i \<or> ps' i = (procs s i)\<lparr>p_state := RUNNABLE\<rparr>"
    using t(2) u(2) by (metis (no_types, lifting) proc.update_convs(1) proc.surjective)
  with c show ?thesis unfolding bframe_def by blast
qed

lemma bframeD:
  assumes "bframe s t"
  shows "klog t = klog s" and "sblk t = sblk s" and "inodes t = inodes s" and "files t = files s" and "mem t = mem s"
    and "p_pid (procs t i) = p_pid (procs s i)"
proof -
  obtain B ps d w where t: "crit t = crit (s\<lparr>bufs := B, procs := ps, disk := d, dtrace := w\<rparr>)"
      "\<forall>i. ps i = procs s i \<or> ps i = (procs s i)\<lparr>p_state := RUNNABLE\<rparr>"
    using assms unfolding bframe_def by blast
  show "klog t = klog s" "sblk t = sblk s" "inodes t = inodes s" "files t = files s" "mem t = mem s"
    using arg_cong [OF t(1), of klog] arg_cong [OF t(1), of sblk] arg_cong [OF t(1), of inodes]
      arg_cong [OF t(1), of files] arg_cong [OF t(1), of mem] by simp_all
  have "procs t i = ps i" using arg_cong [OF t(1), of procs] by simp
  then show "p_pid (procs t i) = p_pid (procs s i)" using t(2) [rule_format, of i] by auto
qed

lemma find_slot:
  assumes "buf_ring s xs" and "bufs_ok pid h D (bufs s)"
  shows "find (\<lambda>b. b_dev (bufs s b) = ROOTDEV \<and> b_blockno (bufs s b) = n) xs = slot (bufs s) n"
proof (cases "find (\<lambda>b. b_dev (bufs s b) = ROOTDEV \<and> b_blockno (bufs s b) = n) xs")
  case None
  then show ?thesis using assms(1) unfolding find_None_iff buf_ring_def
    by (metis lessThan_iff None slot_None_iff)
next
  case (Some b)
  then have "b \<in> set xs" "b_dev (bufs s b) = ROOTDEV" "b_blockno (bufs s b) = n"
    unfolding find_Some_iff by auto
  then have "slot (bufs s) n = Some b" using assms(1) slot_Some_iff [OF assms(2)] by (simp add: buf_ring_def)
  then show ?thesis using Some by simp
qed

lemma free_buffer:
  assumes "bufs_ok pid h D B" and "card {m. brefs B m > 0} < NBUF"
  shows "\<exists>b < NBUF. b_refcnt (B b) = 0"
proof (rule ccontr)
  assume "\<not> (\<exists>b < NBUF. b_refcnt (B b) = 0)"
  then have r: "b_refcnt (B b) \<noteq> 0 \<and> b_dev (B b) = ROOTDEV" if "b < NBUF" for b
    using that bufs_okD(2) [OF assms(1)] by blast
  then have "inj_on (\<lambda>b. b_blockno (B b)) {..<NBUF}"
    using bufs_okD(1) [OF assms(1)] by (intro inj_onI) auto
  moreover have "(\<lambda>b. b_blockno (B b)) ` {..<NBUF} \<subseteq> {m. brefs B m > 0}"
  proof (rule image_subsetI)
    fix b
    assume b: "b \<in> {..<NBUF}"
    then have "slot B (b_blockno (B b)) = Some b" using r slot_Some_iff [OF assms(1)] by simp
    then show "b_blockno (B b) \<in> {m. brefs B m > 0}" using b r by (simp add: brefs_def unat_gt_0)
  qed
  ultimately have "NBUF \<le> card {m. brefs B m > 0}"
    using card_inj_on_le [of "\<lambda>b. b_blockno (B b)" "{..<NBUF}" "{m. brefs B m > 0}"] by simp
  then show False using assms(2) by simp
qed

lemma buf_ring_simps [simp]:
  "buf_ring (locked_in lk s) xs = buf_ring s xs" "buf_ring (crit s) xs = buf_ring s xs"
  by (simp_all add: buf_ring_def nexts_def prevs_def)

abbreviation owned_by :: "int \<Rightarrow> sleeplock \<Rightarrow> sleeplock" where
  "owned_by pid l \<equiv> l\<lparr>sl_locked := 1, sl_pid := pid\<rparr>"

lemma bget_hit:
  assumes "cache_ok p h s" and "h n = None" and "slot (bufs s) n = Some b"
  shows "bget ROOTDEV n s = ret b (crit (upd_buf b (\<lambda>x. x\<lparr>b_refcnt := b_refcnt x + 1,
    b_lock := owned_by (p_pid (procs s p)) (b_lock x)\<rparr>) s))"
proof -
  obtain xs where xs: "buf_ring s xs" and ok: "bufs_ok (p_pid (procs s p)) h (disk s) (bufs s)"
    and q: "cpu_ok s" "cpu_proc (mycpu s) = Some p" "\<And>lk. lock_free lk s"
    using assms(1) unfolding cache_ok_def quiet_def by blast
  have c: "bget_cached (NBUF + 1) (b_next (bufs s bhead)) ROOTDEV n (locked_in BcacheLock s) =
      ret (Some b) (locked_in BcacheLock s)"
    using bget_scans(1) [of "locked_in BcacheLock s" xs ROOTDEV n] xs find_slot [OF xs ok, of n] assms(3)
    by (simp del: bget_cached.simps)
  have "b < NBUF" "b_blockno (bufs s b) = n" using slot_Some_iff [OF ok] assms(3) by blast+
  then have "sl_locked (b_lock (bufs s b)) = 0" using bufs_okD(6) [OF ok, of b] assms(2) by auto
  then show ?thesis
    using q c acquiresleep_free [of "crit (upd_buf b (\<lambda>x. x\<lparr>b_refcnt := b_refcnt x + 1\<rparr>) s)" p "BufLock b"]
    by (simp add: bget_def Let_def upd_buf_def del: bget_cached.simps)
qed

lemma bget_miss_eq:
  assumes "cache_ok p h s" and "buf_ring s xs" and "slot (bufs s) n = None"
  shows "case find (\<lambda>b. b_refcnt (bufs s b) = 0) (rev xs) of
      None \<Rightarrow> bget ROOTDEV n s = panic ''bget: no buffers''
    | Some b \<Rightarrow> bget ROOTDEV n s = ret b (crit (upd_buf b (\<lambda>x. x\<lparr>b_dev := ROOTDEV,
        b_blockno := n, b_valid := False, b_refcnt := 1, b_lock := owned_by (p_pid (procs s p)) (b_lock x)\<rparr>) s))"
proof -
  have ok: "bufs_ok (p_pid (procs s p)) h (disk s) (bufs s)"
    and q: "cpu_ok s" "cpu_proc (mycpu s) = Some p" "\<And>lk. lock_free lk s"
    using assms(1) unfolding cache_ok_def quiet_def by blast+
  have c: "bget_cached (NBUF + 1) (b_next (bufs s bhead)) ROOTDEV n (locked_in BcacheLock s) =
      ret None (locked_in BcacheLock s)"
    using bget_scans(1) [of "locked_in BcacheLock s" xs ROOTDEV n] assms(2,3) find_slot [OF assms(2) ok, of n]
    by (simp del: bget_cached.simps)
  let ?f = "find (\<lambda>b. b_refcnt (bufs s b) = 0) (rev xs)"
  have u: "bget_unused (NBUF + 1) (b_prev (bufs s bhead)) (locked_in BcacheLock s) = ret ?f (locked_in BcacheLock s)"
    using bget_scans(2) [of "locked_in BcacheLock s" xs] assms(2) by (simp del: bget_unused.simps)
  show ?thesis
  proof (cases ?f)
    case None
    then show ?thesis using q c u by (simp add: bget_def del: bget_cached.simps bget_unused.simps)
  next
    case (Some b)
    then have b: "b < NBUF" "b_refcnt (bufs s b) = 0"
      using assms(2) unfolding find_Some_iff by (auto simp: buf_ring_def rev_nth)
    then have "sl_locked (b_lock (bufs s b)) = 0"
      using bufs_okD(6) [OF ok b(1)] bufs_okD(5) [OF ok, of "b_blockno (bufs s b)" b] by auto
    then show ?thesis
      using Some q c u acquiresleep_free [of "crit (upd_buf b (\<lambda>x. x\<lparr>b_dev := ROOTDEV, b_blockno := n, b_valid := False,
        b_refcnt := 1\<rparr>) s)" p "BufLock b"]
      by (simp add: bget_def Let_def upd_buf_def del: bget_cached.simps bget_unused.simps)
  qed
qed

lemma bget_miss:
  assumes "cache_ok p h s" and "slot (bufs s) n = None" and "card {m. refs s m > 0} < NBUF"
  shows "\<exists>b < NBUF. b_refcnt (bufs s b) = 0 \<and> bget ROOTDEV n s = ret b (crit (upd_buf b (\<lambda>x. x\<lparr>b_dev := ROOTDEV,
    b_blockno := n, b_valid := False, b_refcnt := 1, b_lock := owned_by (p_pid (procs s p)) (b_lock x)\<rparr>) s))"
proof -
  obtain xs where xs: "buf_ring s xs" and ok: "bufs_ok (p_pid (procs s p)) h (disk s) (bufs s)"
    using assms(1) unfolding cache_ok_def quiet_def by blast
  obtain b where b: "find (\<lambda>b. b_refcnt (bufs s b) = 0) (rev xs) = Some b"
  proof (cases "find (\<lambda>b. b_refcnt (bufs s b) = 0) (rev xs)")
    case None
    then have "b_refcnt (bufs s b) \<noteq> 0" if "b < NBUF" for b
      using that xs unfolding find_None_iff by (auto simp: buf_ring_def)
    then show ?thesis using free_buffer [OF ok] assms(3) by (auto simp: refs_def)
  qed
  then have "b < NBUF" "b_refcnt (bufs s b) = 0"
    using xs unfolding find_Some_iff by (auto simp: buf_ring_def rev_nth)
  then show ?thesis using bget_miss_eq [OF assms(1) xs assms(2)] b by auto
qed

text \<open>Buffer \<open>b\<close> of a state becomes \<open>x\<close>, in the links it was.\<close>

lemma buf_ring_upd:
  assumes "buf_ring s xs" and "b_prev x = b_prev (bufs s b)" and "b_next x = b_next (bufs s b)"
  shows "buf_ring (s\<lparr>bufs := (bufs s)(b := x)\<rparr>) xs"
proof -
  have "nexts (s\<lparr>bufs := (bufs s)(b := x)\<rparr>) = nexts s" "prevs (s\<lparr>bufs := (bufs s)(b := x)\<rparr>) = prevs s"
    using assms(2,3) by (auto simp: nexts_def prevs_def)
  then show ?thesis using assms(1) by (simp add: buf_ring_def)
qed

lemma cache_okD:
  assumes "cache_ok p h s"
  obtains xs where "buf_ring s xs" "bufs_ok (p_pid (procs s p)) h (disk s) (bufs s)"
    "cpu_ok s" "cpu_proc (mycpu s) = Some p" "\<And>lk. lock_free lk s"
  using assms unfolding cache_ok_def quiet_def by blast

lemma cache_okI:
  assumes "cpu_ok s" and "cpu_proc (mycpu s) = Some p" and "\<And>lk. lock_free lk s"
    and "t = crit (s\<lparr>bufs := B, procs := ps, disk := D, dtrace := w\<rparr>)" and "buf_ring (s\<lparr>bufs := B\<rparr>) xs"
    and "bufs_ok (p_pid (ps p)) h D B"
  shows "cache_ok p h t"
proof -
  have "buf_ring t xs" using assms(5) by (simp add: assms(4) buf_ring_def nexts_def prevs_def)
  then show ?thesis using assms by (auto simp: cache_ok_def quiet_def)
qed

lemma same_buf_upd: "s\<lparr>bufs := B\<rparr> = s\<lparr>bufs := B, procs := procs s, disk := disk s, dtrace := dtrace s\<rparr>"
  by (rule kstate.equality) simp_all

lemma bread_form:
  assumes "cache_ok p h s" and "h n = None" and "refs s n > 0 \<or> card {m. refs s m > 0} < NBUF" and "refs s n < 2 ^ 32 - 1"
  shows "\<exists>b x. bread ROOTDEV n s = ret b (crit (s\<lparr>bufs := (bufs s)(b := x)\<rparr>)) \<and> b < NBUF \<and>
      (slot (bufs s) n = Some b \<or> slot (bufs s) n = None \<and> b_refcnt (bufs s b) = 0) \<and>
      b_dev x = ROOTDEV \<and> b_blockno x = n \<and> b_valid x \<and> unat (b_refcnt x) = Suc (refs s n) \<and>
      b_data x = store s n \<and> sl_locked (b_lock x) = 1 \<and> sl_pid (b_lock x) = p_pid (procs s p) \<and>
      b_prev x = b_prev (bufs s b) \<and> b_next x = b_next (bufs s b)"
proof -
  obtain xs where xs: "buf_ring s xs" and ok: "bufs_ok (p_pid (procs s p)) h (disk s) (bufs s)"
    and q: "cpu_ok s" "cpu_proc (mycpu s) = Some p" "\<And>lk. lock_free lk s"
    using cache_okD [OF assms(1)] by blast
  let ?pid = "p_pid (procs s p)"
  show ?thesis
  proof (cases "slot (bufs s) n")
    case (Some b)
    let ?x = "(bufs s b)\<lparr>b_refcnt := b_refcnt (bufs s b) + 1, b_lock := owned_by ?pid (b_lock (bufs s b))\<rparr>"
    have b: "b < NBUF" "b_dev (bufs s b) = ROOTDEV" "b_blockno (bufs s b) = n" "b_valid (bufs s b)"
      using slot_Some_iff [OF ok] bufs_okD(3) [OF ok] Some by blast+
    have r: "refs s n = unat (b_refcnt (bufs s b))" using Some by (simp add: refs_def brefs_def)
    then have "unat (b_refcnt (bufs s b) + 1) = Suc (refs s n)"
      using assms(4) by (simp add: unat_word_ariths)
    moreover have "bread ROOTDEV n s = ret b (crit (s\<lparr>bufs := (bufs s)(b := ?x)\<rparr>))"
      using bget_hit [OF assms(1,2) Some] b(4) by (simp add: bread_def upd_buf_def)
    ultimately show ?thesis using b Some
      by (intro exI [of _ b] exI [of _ ?x]) (simp add: store_def bstore_def)
  next
    case None
    then have z: "refs s n = 0" by (simp add: refs_def brefs_def)
    then obtain b where b: "b < NBUF" "b_refcnt (bufs s b) = 0"
      and g: "bget ROOTDEV n s = ret b (crit (upd_buf b (\<lambda>x. x\<lparr>b_dev := ROOTDEV,
        b_blockno := n, b_valid := False, b_refcnt := 1, b_lock := owned_by ?pid (b_lock x)\<rparr>) s))"
      using bget_miss [OF assms(1) None] assms(3) by auto
    let ?x = "(bufs s b)\<lparr>b_dev := ROOTDEV, b_blockno := n, b_refcnt := 1,
        b_lock := owned_by ?pid (b_lock (bufs s b)), b_data := disk s (unat n), b_disk := False, b_valid := True\<rparr>"
    have "bread ROOTDEV n s = ret b (crit (s\<lparr>bufs := (bufs s)(b := ?x)\<rparr>))"
      using q(1) by (simp add: bread_def g disk_rw_def upd_buf_def)
    then show ?thesis using b None z
      by (intro exI [of _ b] exI [of _ ?x]) (simp add: store_def bstore_def)
  qed
qed

lemma bread_ok:
  assumes "cache_ok p h s" and "h n = None" and "refs s n > 0 \<or> card {m. refs s m > 0} < NBUF" and "refs s n < 2 ^ 32 - 1"
  shows "\<exists>b s'. bread ROOTDEV n s = ret b s' \<and> cache_ok p (h(n \<mapsto> b)) s' \<and> bframe s s' \<and> store s' = store s \<and>
    refs s' = (refs s)(n := Suc (refs s n)) \<and> disk s' = disk s \<and> dtrace s' = dtrace s"
proof -
  obtain xs where xs: "buf_ring s xs" and ok: "bufs_ok (p_pid (procs s p)) h (disk s) (bufs s)"
    and q: "cpu_ok s" "cpu_proc (mycpu s) = Some p" "\<And>lk. lock_free lk s"
    using cache_okD [OF assms(1)] by blast
  let ?pid = "p_pid (procs s p)"
  obtain b x where b: "bread ROOTDEV n s = ret b (crit (s\<lparr>bufs := (bufs s)(b := x)\<rparr>))" "b < NBUF"
      "slot (bufs s) n = Some b \<or> slot (bufs s) n = None \<and> b_refcnt (bufs s b) = 0"
    and x: "b_dev x = ROOTDEV" "b_blockno x = n" "b_valid x" "unat (b_refcnt x) = Suc (brefs (bufs s) n)"
      "b_data x = bstore (disk s) (bufs s) n" "sl_locked (b_lock x) = 1" "sl_pid (b_lock x) = ?pid"
      "b_prev x = b_prev (bufs s b)" "b_next x = b_next (bufs s b)"
    using bread_form [OF assms] unfolding refs_def store_def by blast
  define t where "t = crit (s\<lparr>bufs := (bufs s)(b := x)\<rparr>)"
  have t': "t = crit (s\<lparr>bufs := (bufs s)(b := x), procs := procs s, disk := disk s, dtrace := dtrace s\<rparr>)"
    unfolding t_def by (rule arg_cong [where f = crit]) (rule same_buf_upd)
  note g = bufs_ok_get [OF ok b(2) assms(2) b(3) x(1-7)]
  have "cache_ok p (h(n \<mapsto> b)) t" by (rule cache_okI [OF q t' buf_ring_upd [OF xs x(8,9)] g(1)])
  moreover have "bframe s t" by (rule bframeI [OF t' q(1)]) simp
  moreover have "store t = store s" "refs t = (refs s)(n := Suc (refs s n))" "disk t = disk s" "dtrace t = dtrace s"
    using g by (simp_all add: t_def store_def refs_def)
  ultimately show ?thesis using b(1) unfolding t_def by blast
qed

lemma set_data_ok:
  assumes "cache_ok p h s" and "h n = Some b"
  shows "cache_ok p h (set_data b d s)" and "bframe s (set_data b d s)" and "store (set_data b d s) = (store s)(n := d)"
    and "refs (set_data b d s) = refs s" and "disk (set_data b d s) = disk s" and "dtrace (set_data b d s) = dtrace s"
proof -
  obtain xs where xs: "buf_ring s xs" and ok: "bufs_ok (p_pid (procs s p)) h (disk s) (bufs s)"
    and q: "cpu_ok s" "cpu_proc (mycpu s) = Some p" "\<And>lk. lock_free lk s"
    using cache_okD [OF assms(1)] by blast
  let ?x = "(bufs s b)\<lparr>b_data := d\<rparr>" and ?s = "set_data b d s"
  note b = bufs_okD(5) [OF ok assms(2)]
  have "bufs_ok (p_pid (procs s p)) h (disk s) ((bufs s)(b := ?x))"
    by (rule bufs_ok_upd [OF ok assms(2)]) (use b bufs_okD(3) [OF ok] in simp_all)
  moreover have "buf_ring ?s xs" using buf_ring_upd [OF xs, of ?x b] by (simp add: set_data_def upd_buf_def)
  ultimately show "cache_ok p h ?s" using q by (auto simp: cache_ok_def quiet_def set_data_def upd_buf_def)
  have "?s = s\<lparr>bufs := (bufs s)(b := ?x), procs := procs s, disk := disk s, dtrace := dtrace s\<rparr>"
    by (rule kstate.equality) (simp_all add: set_data_def upd_buf_def)
  then show "bframe s ?s" unfolding bframe_def by metis
  have s: "slot (bufs s) n = Some b" by (rule bufs_ok_held(1) [OF ok assms(2)])
  have "b_dev ?x = ROOTDEV" "b_blockno ?x = n" using b by simp_all
  from views_upd [OF ok s this] bufs_ok_held(3) [OF ok assms(2)]
  show "store ?s = (store s)(n := d)" "refs ?s = refs s"
    by (simp_all add: store_def refs_def set_data_def upd_buf_def fun_upd_idem)
  show "disk ?s = disk s" "dtrace ?s = dtrace s" by (simp_all add: set_data_def upd_buf_def)
qed

lemma held_data:
  assumes "cache_ok p h s" and "h n = Some b"
  shows "b_data (bufs s b) = store s n"
proof -
  obtain xs where "bufs_ok (p_pid (procs s p)) h (disk s) (bufs s)" using cache_okD [OF assms(1)] by blast
  from bufs_ok_held(2) [OF this assms(2)] show ?thesis by (simp add: store_def)
qed

lemma bwrite_ok:
  assumes "cache_ok p h s" and "h n = Some b"
  shows "\<exists>s'. bwrite b s = ret () s' \<and> cache_ok p h s' \<and> bframe s s' \<and> store s' = store s \<and> refs s' = refs s \<and>
    disk s' = (disk s)(unat n := store s n) \<and> dtrace s' = dtrace s @ [(unat n, store s n)]"
proof -
  obtain xs where xs: "buf_ring s xs" and ok: "bufs_ok (p_pid (procs s p)) h (disk s) (bufs s)"
    and q: "cpu_ok s" "cpu_proc (mycpu s) = Some p" "\<And>lk. lock_free lk s"
    using cache_okD [OF assms(1)] by blast
  note b = bufs_okD(5) [OF ok assms(2)]
  let ?x = "(bufs s b)\<lparr>b_disk := False\<rparr>" and ?d = "b_data (bufs s b)"
  define t where "t = crit (s\<lparr>bufs := (bufs s)(b := ?x), procs := procs s, disk := (disk s)(unat n := ?d),
      dtrace := dtrace s @ [(unat n, ?d)]\<rparr>)"
  have w: "bwrite b s = ret () t"
    using q holdingsleep_eq [of s p "BufLock b"] b
    by (simp add: bwrite_def disk_rw_def t_def Let_def)
       (rule arg_cong [where f = crit], rule kstate.equality, simp_all)
  have x: "bufs_ok (p_pid (procs s p)) h (disk s) ((bufs s)(b := ?x))"
    by (rule bufs_ok_upd [OF ok assms(2)]) (use b bufs_okD(3) [OF ok] in simp_all)
  note wr = bufs_ok_write [OF x assms(2)]
  have s: "slot (bufs s) n = Some b" by (rule bufs_ok_held(1) [OF ok assms(2)])
  have "b_dev ?x = ROOTDEV" "b_blockno ?x = n" using b by simp_all
  note v = views_upd [OF ok s this] bufs_ok_held [OF ok assms(2)]
  have "cache_ok p h t"
    by (rule cache_okI [OF q t_def, of xs]) (use buf_ring_upd [OF xs] wr(1) in simp_all)
  moreover have "bframe s t" by (rule bframeI [OF t_def q(1)]) simp
  moreover have "store t = store s" "refs t = refs s" "disk t = (disk s)(unat n := store s n)"
    "dtrace t = dtrace s @ [(unat n, store s n)]"
    using wr(2) v by (simp_all add: t_def store_def refs_def fun_upd_idem)
  ultimately show ?thesis using w by blast
qed

lemma awaken_cases: "awaken i n ch me ps p = ps p \<or> awaken i n ch me ps p = (ps p)\<lparr>p_state := RUNNABLE\<rparr>"
  by (simp add: awaken_def)

lemma upd_buf_simps:
  "upd_buf b f (locked_in lk s) = locked_in lk (upd_buf b f s)" "nexts (locked_in lk s) = nexts s"
  "prevs (locked_in lk s) = prevs s" "cpu_ok (upd_buf b f s) = cpu_ok s" "lock_free lk (upd_buf b f s) = lock_free lk s"
  by (simp_all add: upd_buf_def nexts_def prevs_def)

lemma brelse_move_simps [simp]:
  "brelse_move b (locked_in lk s) = locked_in lk (brelse_move b s)"
  "cpu_ok (brelse_move b s) = cpu_ok s" "lock_free lk (brelse_move b s) = lock_free lk s"
  unfolding brelse_move_eq Let_def by (simp_all only: upd_buf_simps)

lemma brelse_eq:
  assumes "cache_ok p h s" and "h n = Some b"
  defines "t \<equiv> s\<lparr>bufs := (bufs s)(b := (bufs s b)\<lparr>b_lock := (b_lock (bufs s b))\<lparr>sl_locked := 0, sl_pid := 0\<rparr>,
      b_refcnt := b_refcnt (bufs s b) - 1\<rparr>), procs := awaken 0 NPROC (Some (ChanBufLock b)) (Some p) (procs s)\<rparr>"
  shows "brelse b s = ret () (crit (if b_refcnt (bufs s b) = 1 then brelse_move b t else t))"
proof -
  obtain xs where ok: "bufs_ok (p_pid (procs s p)) h (disk s) (bufs s)"
    and q: "cpu_ok s" "cpu_proc (mycpu s) = Some p" "\<And>lk. lock_free lk s"
    using cache_okD [OF assms(1)] by blast
  note b = bufs_okD(5) [OF ok assms(2)]
  define u where "u = s\<lparr>bufs := (bufs s)(b := (bufs s b)\<lparr>b_lock := (b_lock (bufs s b))\<lparr>sl_locked := 0, sl_pid := 0\<rparr>\<rparr>),
      procs := awaken 0 NPROC (Some (ChanBufLock b)) (Some p) (procs s)\<rparr>"
  have "proc_locks_free s" using q(3) by (simp add: proc_locks_free_def)
  then have "releasesleep (BufLock b) (crit s) = ret () (crit u)"
    using releasesleep_eq [of "crit s" "Some p" "BufLock b"] q
    by (simp add: upd_buf_def u_def) (rule arg_cong [where f = crit], rule kstate.equality, simp_all)
  moreover have u: "cpu_ok u" "lock_free BcacheLock u" using q by (simp_all add: u_def)
  moreover have t: "upd_buf b (\<lambda>x. x\<lparr>b_refcnt := b_refcnt x - 1\<rparr>) u = t"
    unfolding upd_buf_def u_def t_def by (rule kstate.equality) simp_all
  moreover have "upd_buf b (\<lambda>x. x\<lparr>b_refcnt := b_refcnt x - 1\<rparr>) (locked_in BcacheLock u) = locked_in BcacheLock t"
    unfolding t [symmetric] by (simp add: upd_buf_def)
  moreover have "b_refcnt (bufs t b) = 0 \<longleftrightarrow> b_refcnt (bufs s b) = 1" by (simp add: t_def)
  moreover have "cpu_ok t" "lock_free BcacheLock t" using q by (simp_all add: t_def)
  ultimately show ?thesis
    using q b holdingsleep_eq [of s p "BufLock b"] by (simp add: brelse_def Let_def)
qed

lemma brelse_ring:
  assumes "cache_ok p h s" and "h n = Some b" and "buf_ring s xs"
  shows "\<exists>s'. brelse b s = ret () s' \<and> buf_ring s' (if refs s n = 1 then b # remove1 b xs else xs)"
proof -
  have ok: "bufs_ok (p_pid (procs s p)) h (disk s) (bufs s)"
    using assms(1) unfolding cache_ok_def by blast
  note b = bufs_okD(5) [OF ok assms(2)] and held = bufs_ok_held [OF ok assms(2)]
  let ?x = "(bufs s b)\<lparr>b_lock := (b_lock (bufs s b))\<lparr>sl_locked := 0, sl_pid := 0\<rparr>, b_refcnt := b_refcnt (bufs s b) - 1\<rparr>"
  define t where "t = s\<lparr>bufs := (bufs s)(b := ?x), procs := awaken 0 NPROC (Some (ChanBufLock b)) (Some p) (procs s)\<rparr>"
  have r: "refs s n = 1 \<longleftrightarrow> b_refcnt (bufs s b) = 1" using held(3) by (simp add: refs_def word_unat_eq_iff)
  have rt: "buf_ring t xs" using buf_ring_upd [OF assms(3), of ?x b] by (simp add: t_def buf_ring_def nexts_def prevs_def)
  obtain ys zs where xs: "xs = ys @ b # zs" using b rt by (metis buf_ring_def lessThan_iff split_list)
  have "b \<notin> set ys" using rt by (auto simp: buf_ring_def xs)
  then have "b # remove1 b xs = b # ys @ zs" by (simp add: xs remove1_append)
  then have "buf_ring (brelse_move b t) (b # remove1 b xs)" using brelse_move_ring [of t ys b zs] rt by (simp add: xs)
  then show ?thesis using brelse_eq [OF assms(1,2)] rt r by (auto simp: t_def)
qed

lemma relinkedD:
  assumes "relinked s t"
  obtains nx pv where "t = s\<lparr>bufs := (\<lambda>b. (bufs s b)\<lparr>b_prev := pv b, b_next := nx b\<rparr>)\<rparr>"
  using assms unfolding relinked_def by blast

lemma brelse_ok:
  assumes "cache_ok p h s" and "h n = Some b" and "refs s n = 1 \<Longrightarrow> store s n = disk s (unat n)"
  shows "\<exists>s'. brelse b s = ret () s' \<and> cache_ok p (h(n := None)) s' \<and> bframe s s' \<and> store s' = store s \<and>
    refs s' = (refs s)(n := refs s n - 1) \<and> disk s' = disk s \<and> dtrace s' = dtrace s"
proof -
  obtain xs where xs: "buf_ring s xs" and ok: "bufs_ok (p_pid (procs s p)) h (disk s) (bufs s)"
    and q: "cpu_ok s" "cpu_proc (mycpu s) = Some p" "\<And>lk. lock_free lk s"
    using cache_okD [OF assms(1)] by blast
  note b = bufs_okD(5) [OF ok assms(2)] and held = bufs_ok_held [OF ok assms(2)]
  let ?x = "(bufs s b)\<lparr>b_lock := (b_lock (bufs s b))\<lparr>sl_locked := 0, sl_pid := 0\<rparr>, b_refcnt := b_refcnt (bufs s b) - 1\<rparr>"
  let ?ps = "awaken 0 NPROC (Some (ChanBufLock b)) (Some p) (procs s)" and ?B = "(bufs s)(b := ?x)"
  define t where "t = s\<lparr>bufs := ?B, procs := ?ps\<rparr>"
  define u where "u = (if b_refcnt (bufs s b) = 1 then brelse_move b t else t)"
  have e: "brelse b s = ret () (crit u)" using brelse_eq [OF assms(1,2)] by (simp add: t_def u_def)
  obtain xs' where ru: "buf_ring u xs'" using brelse_ring [OF assms(1,2) xs] e by auto
  have "relinked t u" using brelse_move_relinked relinked_refl by (simp add: u_def)
  then obtain nx pv where u: "u = t\<lparr>bufs := (\<lambda>c. (bufs t c)\<lparr>b_prev := pv c, b_next := nx c\<rparr>)\<rparr>"
    by (rule relinkedD)
  define B where "B = (\<lambda>c. (?B c)\<lparr>b_prev := pv c, b_next := nx c\<rparr>)"
  have u': "crit u = crit (s\<lparr>bufs := B, procs := ?ps, disk := disk s, dtrace := dtrace s\<rparr>)"
    unfolding u t_def B_def by (rule arg_cong [where f = crit], rule kstate.equality) simp_all
  have r: "unat (b_refcnt (bufs s b) - 1) = refs s n - 1" using b held(3) by (simp add: refs_def unat_minus_one)
  have "bufs_ok (p_pid (procs s p)) (h(n := None)) (disk s) ?B"
  proof (rule bufs_ok_put [OF ok assms(2)])
    assume "b_refcnt ?x = 0"
    then have "refs s n = 1" using r b held(3) by (simp add: refs_def)
    then show "b_data ?x = disk s (unat n)" using assms(3) held(2) by (simp add: store_def)
  qed (use b bufs_okD(3) [OF ok] in simp_all)
  then have "bufs_ok (p_pid (?ps p)) (h(n := None)) (disk s) B"
    using bufs_ok_relink(1) [where B = ?B and pv = pv and nx = nx, folded B_def] by (simp add: awaken_def)
  moreover have "buf_ring (s\<lparr>bufs := B\<rparr>) xs'"
    using ru unfolding u t_def B_def by (simp add: buf_ring_def nexts_def prevs_def)
  ultimately have "cache_ok p (h(n := None)) (crit u)" by (intro cache_okI [OF q u'])
  moreover have "bframe s (crit u)" by (rule bframeI [OF u' q(1)]) (rule awaken_cases)
  moreover have "b_dev ?x = ROOTDEV" "b_blockno ?x = n" using b by simp_all
  note v = views_upd [OF ok held(1) this]
  have "store (crit u) = store s" "refs (crit u) = (refs s)(n := refs s n - 1)"
    "disk (crit u) = disk s" "dtrace (crit u) = dtrace s"
    using v r held bufs_ok_relink(2,3) [where B = ?B and pv = pv and nx = nx, folded B_def]
    unfolding u' by (simp_all add: store_def refs_def fun_upd_idem)
  ultimately show ?thesis using e by blast
qed

lemma set_refcnt_ok:
  assumes "cache_ok p h s" and "h n = Some b" and "r \<noteq> 0"
  defines "t \<equiv> crit (s\<lparr>bufs := (bufs s)(b := (bufs s b)\<lparr>b_refcnt := r\<rparr>)\<rparr>)"
  shows "cache_ok p h t \<and> bframe s t \<and> store t = store s \<and> refs t = (refs s)(n := unat r) \<and>
    disk t = disk s \<and> dtrace t = dtrace s"
proof -
  obtain xs where xs: "buf_ring s xs" and ok: "bufs_ok (p_pid (procs s p)) h (disk s) (bufs s)"
    and q: "cpu_ok s" "cpu_proc (mycpu s) = Some p" "\<And>lk. lock_free lk s"
    using cache_okD [OF assms(1)] by blast
  note b = bufs_okD(5) [OF ok assms(2)] and held = bufs_ok_held [OF ok assms(2)]
  let ?x = "(bufs s b)\<lparr>b_refcnt := r\<rparr>"
  have t': "t = crit (s\<lparr>bufs := (bufs s)(b := ?x), procs := procs s, disk := disk s, dtrace := dtrace s\<rparr>)"
    unfolding t_def by (rule arg_cong [where f = crit]) (rule same_buf_upd)
  have "bufs_ok (p_pid (procs s p)) h (disk s) ((bufs s)(b := ?x))"
    by (rule bufs_ok_upd [OF ok assms(2)]) (use b bufs_okD(3) [OF ok] assms(3) in simp_all)
  then have "cache_ok p h t" by (intro cache_okI [OF q t' buf_ring_upd [OF xs]]) simp_all
  moreover have "bframe s t" by (rule bframeI [OF t' q(1)]) simp
  moreover have "b_dev ?x = ROOTDEV" "b_blockno ?x = n" using b by simp_all
  note v = views_upd [OF ok held(1) this]
  have "store t = store s" "refs t = (refs s)(n := unat r)" "disk t = disk s" "dtrace t = dtrace s"
    using v held by (simp_all add: t_def store_def refs_def fun_upd_idem)
  ultimately show ?thesis by blast
qed

lemma held_refs:
  assumes "cache_ok p h s" and "h n = Some b"
  shows "refs s n = unat (b_refcnt (bufs s b))" and "b_refcnt (bufs s b) \<noteq> 0"
    and "cpu_ok s" and "lock_free lk s"
proof -
  obtain xs where ok: "bufs_ok (p_pid (procs s p)) h (disk s) (bufs s)"
    and q: "cpu_ok s" "\<And>lk. lock_free lk s"
    using cache_okD [OF assms(1)] by blast
  show "refs s n = unat (b_refcnt (bufs s b))" "b_refcnt (bufs s b) \<noteq> 0"
    using bufs_okD(5) [OF ok assms(2)] bufs_ok_held [OF ok assms(2)] by (simp_all add: refs_def)
  show "cpu_ok s" "lock_free lk s" by (fact q)+
qed

lemma bpin_ok:
  assumes "cache_ok p h s" and "h n = Some b" and "refs s n < 2 ^ 32 - 1"
  shows "\<exists>s'. bpin b s = ret () s' \<and> cache_ok p h s' \<and> bframe s s' \<and> store s' = store s \<and>
    refs s' = (refs s)(n := Suc (refs s n)) \<and> disk s' = disk s \<and> dtrace s' = dtrace s"
proof -
  note r = held_refs [OF assms(1,2)]
  let ?t = "crit (s\<lparr>bufs := (bufs s)(b := (bufs s b)\<lparr>b_refcnt := b_refcnt (bufs s b) + 1\<rparr>)\<rparr>)"
  have n: "unat (b_refcnt (bufs s b) + 1) = Suc (refs s n)" using assms(3) r(1) by (simp add: unat_word_ariths)
  then have "b_refcnt (bufs s b) + 1 \<noteq> 0" by auto
  from set_refcnt_ok [OF assms(1,2) this] n
  have "cache_ok p h ?t \<and> bframe s ?t \<and> store ?t = store s \<and> refs ?t = (refs s)(n := Suc (refs s n)) \<and>
    disk ?t = disk s \<and> dtrace ?t = dtrace s" by simp
  moreover have "bpin b s = ret () ?t" using r by (simp add: bpin_def upd_buf_def)
  ultimately show ?thesis by blast
qed

lemma bunpin_ok:
  assumes "cache_ok p h s" and "h n = Some b" and "refs s n > 1"
  shows "\<exists>s'. bunpin b s = ret () s' \<and> cache_ok p h s' \<and> bframe s s' \<and> store s' = store s \<and>
    refs s' = (refs s)(n := refs s n - 1) \<and> disk s' = disk s \<and> dtrace s' = dtrace s"
proof -
  note r = held_refs [OF assms(1,2)]
  let ?t = "crit (s\<lparr>bufs := (bufs s)(b := (bufs s b)\<lparr>b_refcnt := b_refcnt (bufs s b) - 1\<rparr>)\<rparr>)"
  have n: "unat (b_refcnt (bufs s b) - 1) = refs s n - 1" using r by (simp add: unat_minus_one)
  then have "b_refcnt (bufs s b) - 1 \<noteq> 0" using assms(3) by (metis unsigned_0 zero_less_diff less_irrefl)
  from set_refcnt_ok [OF assms(1,2) this] n
  have "cache_ok p h ?t \<and> bframe s ?t \<and> store ?t = store s \<and> refs ?t = (refs s)(n := refs s n - 1) \<and>
    disk ?t = disk s \<and> dtrace ?t = dtrace s" by simp
  moreover have "bunpin b s = ret () ?t" using r by (simp add: bunpin_def upd_buf_def)
  ultimately show ?thesis by blast
qed

section \<open>The contract\<close>

lemma clean_ok:
  assumes "cache_ok p h s" and "refs s n = 0"
  shows "store s n = disk s (unat n)"
proof (cases "slot (bufs s) n")
  case None
  then show ?thesis by (simp add: store_def bstore_def)
next
  case (Some b)
  obtain xs where ok: "bufs_ok (p_pid (procs s p)) h (disk s) (bufs s)" using cache_okD [OF assms(1)] by blast
  have "b < NBUF" "b_dev (bufs s b) = ROOTDEV" "b_blockno (bufs s b) = n" using slot_Some_iff [OF ok] Some by blast+
  moreover have "b_refcnt (bufs s b) = 0" using Some assms(2) by (simp add: refs_def brefs_def unat_eq_zero)
  ultimately show ?thesis using bufs_okD(4) [OF ok, of b] Some by (simp add: store_def bstore_def)
qed

text \<open>
  The interface of the cache as its clients see it. \<open>ok p h s\<close>: process \<open>p\<close> holds the blocks of
  \<open>h\<close>, each in its buffer. A block can be read when it is referenced already or a buffer is left.
\<close>

locale block_cache =
  fixes ok :: "nat \<Rightarrow> (uint \<rightharpoonup> nat) \<Rightarrow> kstate \<Rightarrow> bool"
    and content :: "kstate \<Rightarrow> uint \<Rightarrow> block"
    and rc :: "kstate \<Rightarrow> uint \<Rightarrow> nat"
  assumes fetch: "ok p h s \<Longrightarrow> h n = None \<Longrightarrow> rc s n > 0 \<or> card {m. rc s m > 0} < NBUF \<Longrightarrow> rc s n < 2 ^ 32 - 1 \<Longrightarrow>
      \<exists>b s'. bread ROOTDEV n s = ret b s' \<and> ok p (h(n \<mapsto> b)) s' \<and> bframe s s' \<and> content s' = content s \<and>
        rc s' = (rc s)(n := Suc (rc s n)) \<and> disk s' = disk s \<and> dtrace s' = dtrace s"
    and data: "ok p h s \<Longrightarrow> h n = Some b \<Longrightarrow> b_data (bufs s b) = content s n"
    and assign: "ok p h s \<Longrightarrow> h n = Some b \<Longrightarrow> ok p h (set_data b d s) \<and> bframe s (set_data b d s) \<and>
        content (set_data b d s) = (content s)(n := d) \<and> rc (set_data b d s) = rc s \<and>
        disk (set_data b d s) = disk s \<and> dtrace (set_data b d s) = dtrace s"
    and write_out: "ok p h s \<Longrightarrow> h n = Some b \<Longrightarrow>
      \<exists>s'. bwrite b s = ret () s' \<and> ok p h s' \<and> bframe s s' \<and> content s' = content s \<and> rc s' = rc s \<and>
        disk s' = (disk s)(unat n := content s n) \<and> dtrace s' = dtrace s @ [(unat n, content s n)]"
    and unpin: "ok p h s \<Longrightarrow> h n = Some b \<Longrightarrow> rc s n > 1 \<Longrightarrow>
      \<exists>s'. bunpin b s = ret () s' \<and> ok p h s' \<and> bframe s s' \<and> content s' = content s \<and>
        rc s' = (rc s)(n := rc s n - 1) \<and> disk s' = disk s \<and> dtrace s' = dtrace s"
    and let_go: "ok p h s \<Longrightarrow> h n = Some b \<Longrightarrow> (rc s n = 1 \<Longrightarrow> content s n = disk s (unat n)) \<Longrightarrow>
      \<exists>s'. brelse b s = ret () s' \<and> ok p (h(n := None)) s' \<and> bframe s s' \<and> content s' = content s \<and>
        rc s' = (rc s)(n := rc s n - 1) \<and> disk s' = disk s \<and> dtrace s' = dtrace s"
    and clean: "ok p h s \<Longrightarrow> rc s n = 0 \<Longrightarrow> content s n = disk s (unat n)"
    and log_free: "ok p h (upd_log f s) = ok p h s" "content (upd_log f s) = content s" "rc (upd_log f s) = rc s"

lemma upd_log_simps [simp]:
  "disk (upd_log f s) = disk s" "dtrace (upd_log f s) = dtrace s" "bufs (upd_log f s) = bufs s"
  "klog (upd_log f s) = f (klog s)" "procs (upd_log f s) = procs s" "sblk (upd_log f s) = sblk s"
  "cpu_ok (upd_log f s) = cpu_ok s" "lock_free lk (upd_log f s) = lock_free lk s"
  by (simp_all add: upd_log_def)

lemma cache_log [simp]:
  "cache_ok p h (upd_log f s) = cache_ok p h s" "store (upd_log f s) = store s" "refs (upd_log f s) = refs s"
  by (simp_all add: cache_ok_def store_def refs_def quiet_def buf_ring_def nexts_def prevs_def upd_log_def)

interpretation bc: block_cache cache_ok store refs
proof unfold_locales
  fix p h s n b d
  assume "cache_ok p h s" "h n = Some b"
  from set_data_ok [OF this, of d]
  show "cache_ok p h (set_data b d s) \<and> bframe s (set_data b d s) \<and> store (set_data b d s) = (store s)(n := d) \<and>
    refs (set_data b d s) = refs s \<and> disk (set_data b d s) = disk s \<and> dtrace (set_data b d s) = dtrace s"
    by simp
qed (fact bread_ok held_data bwrite_ok bunpin_ok brelse_ok clean_ok cache_log)+

context block_cache
begin

text \<open>Reading a block, and replacing it through the cache, by a process that holds \<open>h\<close>.\<close>

lemma peek:
  assumes "ok p h s" and "h n = None" and "rc s n = 0" and "card {m. rc s m > 0} < NBUF"
  shows "\<exists>b s1. bread ROOTDEV n s = ret b s1 \<and> b_data (bufs s1 b) = content s n \<and> bframe s s1 \<and>
    (\<forall>f. \<exists>s'. brelse b (upd_log f s1) = ret () s' \<and> ok p h s' \<and> content s' = content s \<and> rc s' = rc s \<and>
      disk s' = disk s \<and> dtrace s' = dtrace s \<and> bframe (upd_log f s1) s')"
proof -
  obtain b s1 where r: "bread ROOTDEV n s = ret b s1" "ok p (h(n \<mapsto> b)) s1" "bframe s s1" "content s1 = content s"
    "rc s1 = (rc s)(n := 1)" "disk s1 = disk s" "dtrace s1 = dtrace s"
    using fetch [OF assms(1,2)] assms(3,4) by fastforce
  have "\<exists>s'. brelse b (upd_log f s1) = ret () s' \<and> ok p h s' \<and> content s' = content s \<and> rc s' = rc s \<and>
      disk s' = disk s \<and> dtrace s' = dtrace s \<and> bframe (upd_log f s1) s'" for f
  proof -
    have "ok p (h(n \<mapsto> b)) (upd_log f s1)" using r(2) by (simp add: log_free)
    moreover have "content (upd_log f s1) n = disk (upd_log f s1) (unat n)"
      using clean [OF assms(1,3)] r(4,6) by (simp add: log_free)
    ultimately show ?thesis
      using let_go [of p "h(n \<mapsto> b)" "upd_log f s1" n b] r(4-7) assms(2,3)
      by (auto simp: log_free fun_upd_idem)
  qed
  then show ?thesis using r(1,3,4) data [OF r(2), of n b] by auto
qed

lemma overwrite:
  assumes "ok p h s" and "h n = None" and "rc s n > 0 \<or> card {m. rc s m > 0} < NBUF" and "rc s n < 2 ^ 32 - 1"
  shows "\<exists>s'. bindE (bread ROOTDEV n s) (\<lambda>b s. bindE (bwrite b (set_data b (f (klog s) (b_data (bufs s b))) s)) (\<lambda>_ s.
      brelse b s)) = ret () s' \<and> ok p h s' \<and> bframe s s' \<and> rc s' = rc s \<and>
    content s' = (content s)(n := f (klog s) (content s n)) \<and>
    disk s' = (disk s)(unat n := f (klog s) (content s n)) \<and>
    dtrace s' = dtrace s @ [(unat n, f (klog s) (content s n))]"
proof -
  obtain b s1 where r: "bread ROOTDEV n s = ret b s1" "ok p (h(n \<mapsto> b)) s1" "bframe s s1" "content s1 = content s"
    "rc s1 = (rc s)(n := Suc (rc s n))" "disk s1 = disk s" "dtrace s1 = dtrace s"
    using fetch [OF assms] by blast
  have kl: "klog s1 = klog s" using bframeD(1) [OF r(3)] .
  define d where "d = f (klog s) (content s n)"
  have d: "f (klog s1) (b_data (bufs s1 b)) = d" using data [OF r(2), of n b] r(4) kl by (simp add: d_def)
  note a = assign [OF r(2), of n b d, simplified]
  obtain s2 where w: "bwrite b (set_data b d s1) = ret () s2" "ok p (h(n \<mapsto> b)) s2" "bframe (set_data b d s1) s2"
    "content s2 = (content s)(n := d)" "rc s2 = (rc s)(n := Suc (rc s n))" "disk s2 = (disk s)(unat n := d)"
    "dtrace s2 = dtrace s @ [(unat n, d)]"
    using write_out [of p "h(n \<mapsto> b)" "set_data b d s1" n b] a r(4-7) by auto
  obtain s3 where l: "brelse b s2 = ret () s3" "ok p h s3" "bframe s2 s3" "content s3 = (content s)(n := d)"
    "rc s3 = rc s" "disk s3 = (disk s)(unat n := d)" "dtrace s3 = dtrace s @ [(unat n, d)]"
    using let_go [OF w(2), of n b] w(4-7) assms(2) by (auto simp: fun_upd_idem)
  have "bframe s s3" using r(3) a w(3) l(3) bframe_trans by blast
  then show ?thesis using r(1) w(1) l by (auto simp: d [symmetric] simp flip: d_def)
qed

end

section \<open>The cache at boot\<close>

definition fresh_buf :: "buf \<Rightarrow> bool" where
  "fresh_buf x \<longleftrightarrow> b_dev x \<noteq> ROOTDEV \<and> b_refcnt x = 0 \<and> sl_locked (b_lock x) = 0"

text \<open>Buffers without a block, in a state with no lock held; only buffers and locks differ from \<open>s\<close>.\<close>

definition unused_cache :: "nat \<Rightarrow> kstate \<Rightarrow> kstate \<Rightarrow> bool" where
  "unused_cache p s t \<longleftrightarrow> quiet p t \<and> (\<forall>b. fresh_buf (bufs t b)) \<and> disk t = disk s \<and> dtrace t = dtrace s \<and>
    klog t = klog s \<and> sblk t = sblk s \<and> procs t = procs s"

lemma unused_cache_upd:
  "unused_cache p s t \<Longrightarrow> (\<And>x. fresh_buf x \<Longrightarrow> fresh_buf (f x)) \<Longrightarrow> unused_cache p s (upd_buf b f t)"
  by (auto simp: unused_cache_def quiet_def upd_buf_def)

lemma unused_cache_initlock: "unused_cache p s t \<Longrightarrow> unused_cache p s (initlock lk nm t)"
  by (auto simp: unused_cache_def quiet_def initlock_def lock_free_def machine_defs cpu_ok_def)

lemma unused_cache_links:
  "unused_cache p s t \<Longrightarrow> unused_cache p s (set_next b n t)" "unused_cache p s t \<Longrightarrow> unused_cache p s (set_prev b n t)"
  "unused_cache p s t \<Longrightarrow> unused_cache p s (initsleeplock (BufLock b) nm t)"
  unfolding initsleeplock_def sl_upd.simps sl_spin.simps
  by (intro unused_cache_upd unused_cache_initlock; simp add: fresh_buf_def)+

lemma unused_cache_binit: "unused_cache p s t \<Longrightarrow> unused_cache p s (binit t)"
proof -
  have link: "unused_cache p s (binit_link b t)" if "unused_cache p s t" for b t
    unfolding binit_link_def Let_def by (intro unused_cache_links that)
  have steps: "unused_cache p s (binit_from n b t)" if "unused_cache p s t" for n b t
    using that by (induction n arbitrary: b t) (simp_all add: link)
  show "unused_cache p s t \<Longrightarrow> unused_cache p s (binit t)"
    unfolding binit_def Let_def by (intro steps unused_cache_links unused_cache_initlock)
qed

lemma binit_ok:
  assumes "quiet p s" and "\<And>b. fresh_buf (bufs s b)"
  shows "cache_ok p Map.empty (binit s)" and "store (binit s) n = disk s (unat n)" and "refs (binit s) n = 0"
    and "disk (binit s) = disk s" and "klog (binit s) = klog s" and "sblk (binit s) = sblk s"
proof -
  have "unused_cache p s s" using assms by (simp add: unused_cache_def)
  from unused_cache_binit [OF this]
  have u: "quiet p (binit s)" "\<And>b. fresh_buf (bufs (binit s) b)" "disk (binit s) = disk s"
    and f: "klog (binit s) = klog s" "sblk (binit s) = sblk s"
    unfolding unused_cache_def by blast+
  have "slot (bufs (binit s)) n = None" for n using u(2) by (auto simp: slot_None_iff fresh_buf_def)
  then show "store (binit s) n = disk s (unat n)" "refs (binit s) n = 0"
    using u(3) by (simp_all add: store_def bstore_def refs_def brefs_def)
  show "disk (binit s) = disk s" "klog (binit s) = klog s" "sblk (binit s) = sblk s" by (fact u(3) f)+
  have "bufs_ok pid Map.empty D (bufs (binit s))" for pid D
    using u(2) by (auto simp: bufs_ok_def fresh_buf_def)
  then show "cache_ok p Map.empty (binit s)" using u(1) binit_ring by (auto simp: cache_ok_def)
qed

section \<open>Properties\<close>


text \<open>
  C14: A miss in the cache recycles the least recently used buffer: when no buffer has the block, \<^verbatim>\<open>bget\<close>
  takes the last buffer of the recency list that nobody references, locks it for the caller under
  the new block number, marks its content invalid and changes no other buffer; it panics exactly when
  every buffer is referenced. Its scans of the list always end.
\<close>

theorem bget_recycles_lru:
  assumes "cache_ok p h s" and "buf_ring s xs" and "slot (bufs s) n = None"
  shows "case find (\<lambda>b. b_refcnt (bufs s b) = 0) (rev xs) of
      None \<Rightarrow> bget ROOTDEV n s = panic ''bget: no buffers''
    | Some b \<Rightarrow> \<exists>s'. bget ROOTDEV n s = ret b s' \<and> b_dev (bufs s' b) = ROOTDEV \<and> b_blockno (bufs s' b) = n \<and>
        \<not> b_valid (bufs s' b) \<and> b_refcnt (bufs s' b) = 1 \<and> sl_locked (b_lock (bufs s' b)) = 1 \<and>
        sl_pid (b_lock (bufs s' b)) = p_pid (procs s p) \<and> (\<forall>c. c \<noteq> b \<longrightarrow> bufs s' c = bufs s c)"
  using bget_miss_eq [OF assms] by (auto simp: upd_buf_def split: option.split)

text \<open>
  C5: The cache writes through to the disk and hides nothing. With a buffer left, the sequence every
  file system operation uses, \<^verbatim>\<open>bread\<close>, an assignment to the data, \<^verbatim>\<open>bwrite\<close>, \<^verbatim>\<open>brelse\<close>, returns; the
  block then has the new content for every later reader and on the disk, every other block keeps its
  content whichever buffer was recycled, exactly one write reached the disk, and the cache holds no
  lock or reference it did not hold before.
\<close>

theorem cache_refines_blocks:
  assumes "cache_ok p h s" and "h n = None" and "refs s n > 0 \<or> card {m. refs s m > 0} < NBUF" and "refs s n < 2 ^ 32 - 1"
  shows "\<exists>s'. bindE (bread ROOTDEV n s) (\<lambda>b s. bindE (bwrite b (set_data b (f (b_data (bufs s b))) s)) (\<lambda>_ s. brelse b s)) = ret () s' \<and>
    cache_ok p h s' \<and> store s' = (store s)(n := f (store s n)) \<and> refs s' = refs s \<and>
    disk s' = (disk s)(unat n := f (store s n)) \<and> dtrace s' = dtrace s @ [(unat n, f (store s n))]"
  using bc.overwrite [OF assms, of "\<lambda>_. f"] by blast

section \<open>Witnesses\<close>

definition sample_cache :: kstate where
  "sample_cache = binit sample_procs"

lemma sample_cache_ok:
  "cache_ok 3 Map.empty sample_cache" "refs sample_cache n = 0" "store sample_cache n = replicate BSIZE 0"
  "slot (bufs sample_cache) n = None" "fresh_buf (bufs sample_cache b)"
proof -
  have q: "quiet 3 sample_procs" by (simp add: quiet_def)
  have f: "fresh_buf (bufs sample_procs b)" for b
    by (simp add: sample_procs_def kstate0_def fresh_buf_def zero_buf_def zero_sleeplock_def ROOTDEV_def)
  show ok: "cache_ok 3 Map.empty sample_cache" "refs sample_cache n = 0" "store sample_cache n = replicate BSIZE 0"
    unfolding sample_cache_def using binit_ok [OF q f] by (simp_all add: sample_procs_def kstate0_def)
  have "unused_cache 3 sample_procs sample_procs" using q f by (simp add: unused_cache_def)
  from unused_cache_binit [OF this] have fr: "fresh_buf (bufs sample_cache b)" for b
    by (simp add: sample_cache_def unused_cache_def)
  then show "slot (bufs sample_cache) n = None" by (auto simp: slot_None_iff fresh_buf_def)
  show "fresh_buf (bufs sample_cache b)" by (rule fr)
qed


theorem bget_recycles_lru_witness:
  "\<exists>s'. bget ROOTDEV 7 sample_cache = ret 0 s' \<and> b_blockno (bufs s' 0) = 7 \<and> \<not> b_valid (bufs s' 0)"
proof -
  have r: "buf_ring sample_cache (rev [0..<NBUF])" unfolding sample_cache_def by (rule binit_ring)
  have "b_refcnt (bufs sample_cache b) = 0" for b using sample_cache_ok(5) by (simp add: fresh_buf_def)
  then have "find (\<lambda>b. b_refcnt (bufs sample_cache b) = 0) (rev (rev [0..<NBUF])) = Some 0"
    by (simp add: NBUF_def MAXOPBLOCKS_def upt_rec)
  with bget_recycles_lru [OF sample_cache_ok(1) r sample_cache_ok(4), of 7] show ?thesis by auto
qed

theorem cache_refines_blocks_witness:
  "\<exists>s'. bindE (bread ROOTDEV 9 sample_cache) (\<lambda>b s. bindE (bwrite b (set_data b (rev (b_data (bufs s b))) s)) (\<lambda>_ s. brelse b s)) =
    ret () s' \<and> dtrace s' = dtrace sample_cache @ [(9, rev (replicate BSIZE 0))]"
  using cache_refines_blocks [OF sample_cache_ok(1), of 9 rev]
  by (auto simp: sample_cache_ok NBUF_def MAXOPBLOCKS_def)

end
