(* ===== verification/Commit.thy ===== *)
theory Commit
  imports Log Bcache
begin

text \<open>
  Crash safety of the redo log of \<open>Log\<close>, over the contract of the buffer cache. \<^verbatim>\<open>commit\<close> is run to the
  end and the writes it sends to the disk are read off \<open>dtrace\<close>; a crash leaves the disk with a
  prefix of these writes, from which \<^verbatim>\<open>initlog\<close> of the next boot recovers.
\<close>

section \<open>Lists of writes\<close>

definition upds :: "('a \<times> 'b) list \<Rightarrow> ('a \<Rightarrow> 'b) \<Rightarrow> 'a \<Rightarrow> 'b" where
  "upds ws f = fold (\<lambda>(a, d) f. f(a := d)) ws f"

lemma upds_simps [simp]: "upds [] f = f" "upds ((a, d) # ws) f = upds ws (f(a := d))"
  by (simp_all add: upds_def)

lemma upds_append [simp]: "upds (ws @ vs) f = upds vs (upds ws f)"
  by (simp add: upds_def)

lemma upds_other: "a \<notin> fst ` set ws \<Longrightarrow> upds ws f a = f a"
  by (induction ws arbitrary: f) auto

lemma upds_same_outside:
  assumes "b \<notin> fst ` set ws \<Longrightarrow> f b = g b"
  shows "upds ws f b = upds ws g b"
  using assms
proof (induction ws arbitrary: f g)
  case (Cons w ws)
  obtain a d where w: "w = (a, d)" by (cases w)
  show ?case unfolding w upds_simps by (rule Cons.IH) (use Cons.prems in \<open>auto simp: w\<close>)
qed simp

lemma upds_map:
  assumes "inj_on k (set xs)" and "x \<in> set xs"
  shows "upds (map (\<lambda>x. (k x, v x)) xs) f (k x) = v x"
  using assms
proof (induction xs arbitrary: f)
  case (Cons y xs)
  show ?case
  proof (cases "x \<in> set xs")
    case False
    then have "k x \<notin> fst ` set (map (\<lambda>x. (k x, v x)) xs)" using Cons.prems by (auto simp: inj_on_def)
    then show ?thesis using Cons.prems(2) False by (simp add: upds_other)
  qed (use Cons in auto)
qed simp

section \<open>The header block\<close>

lemma length_put32 [simp]: "4 * i + 4 \<le> length d \<Longrightarrow> length (put32 d i w) = length d"
  by (simp add: put32_def)

lemma get32_put32: "4 * i + 4 \<le> length d \<Longrightarrow> get32 (put32 d i w) i = w"
  by (simp add: get32_def put32_def)

lemma get32_put32_other:
  assumes "i \<noteq> j" and "4 * i + 4 \<le> length d"
  shows "get32 (put32 d i w) j = get32 d j"
proof -
  have "take 4 (drop (4 * j) (put32 d i w)) = take 4 (drop (4 * j) d)"
  proof (cases "j < i")
    case True
    then have "take 4 (drop (4 * j) (take (4 * i) d)) = take 4 (drop (4 * j) d)" by (simp add: drop_take min_def)
    then show ?thesis using True assms(2) by (simp add: put32_def)
  next
    case False
    then have "4 * i + 4 \<le> 4 * j" using assms(1) by simp
    then show ?thesis using assms(2) by (simp add: put32_def drop_append)
  qed
  then show ?thesis by (simp add: get32_def)
qed

lemma put_blocks_get:
  assumes "4 * (i + n) + 4 \<le> length d"
  shows "length (put_blocks n i f d) = length d"
    and "j < Suc i \<Longrightarrow> get32 (put_blocks n i f d) j = get32 d j"
    and "i \<le> j \<Longrightarrow> j < i + n \<Longrightarrow> get32 (put_blocks n i f d) (Suc j) = f j"
  using assms
proof (induction n arbitrary: i d j)
  case (Suc n)
  {
    case 1
    then show ?case using Suc.IH(1) [where i = "Suc i" and d = "put32 d (Suc i) (f i)"] by simp
  next
    case 2
    then show ?case using Suc.IH(2) [where i = "Suc i" and j = j and d = "put32 d (Suc i) (f i)"] by (simp add: get32_put32_other)
  next
    case 3
    show ?case
    proof (cases "j = i")
      case True
      then show ?thesis using 3 Suc.IH(2) [where i = "Suc i" and j = "Suc i" and d = "put32 d (Suc i) (f i)"] by (simp add: get32_put32)
    next
      case False
      then show ?thesis using 3 Suc.IH(3) [where i = "Suc i" and j = j and d = "put32 d (Suc i) (f i)"] by simp
    qed
  }
qed simp_all

definition header :: "klog \<Rightarrow> block \<Rightarrow> block" where
  "header l d = put_blocks (nat (lg_n l)) 0 (lg_block l) (put32 d 0 (word_of_int (lg_n l)))"

lemma header_get:
  assumes "4 * nat (lg_n l) + 4 \<le> length d"
  shows "get32 (header l d) 0 = word_of_int (lg_n l)" and "length (header l d) = length d"
    and "i < nat (lg_n l) \<Longrightarrow> get32 (header l d) (Suc i) = lg_block l i"
  using assms put_blocks_get [of 0 "nat (lg_n l)" "put32 d 0 (word_of_int (lg_n l))"]
  by (simp_all add: header_def get32_put32)

section \<open>The steps of the log, through the cache\<close>

lemma card_upd_Suc: "card {m. 0 < (f(n := Suc x)) (m :: uint)} \<le> Suc (card {m. 0 < f m})"
proof -
  have "{m. 0 < (f(n := Suc x)) m} \<subseteq> insert n {m. 0 < f m}" by auto
  then have "card {m. 0 < (f(n := Suc x)) m} \<le> card (insert n {m. 0 < f m})" by (intro card_mono) simp_all
  then show ?thesis using card_insert_le_m1 [of "Suc (card {m. 0 < f m})" "{m. 0 < f m}" n] by simp
qed

context block_cache
begin

lemma write_log_step:
  fixes tail s
  defines "t \<equiv> lg_start (klog s) + of_nat tail + 1" and "f \<equiv> lg_block (klog s) tail"
  assumes "ok p h s" and "lg_dev (klog s) = ROOTDEV" and "h t = None" and "h f = None" and "t \<noteq> f"
    and "rc s t = 0" and "0 < rc s f" and "rc s f < 2 ^ 31" and "card {m. rc s m > 0} < NBUF"
  shows "\<exists>s'. write_log_from (Suc n) tail s = write_log_from n (Suc tail) s' \<and> ok p h s' \<and> bframe s s' \<and> rc s' = rc s \<and>
    content s' = (content s)(t := content s f) \<and> disk s' = (disk s)(unat t := content s f) \<and>
    dtrace s' = dtrace s @ [(unat t, content s f)]"
proof -
  define d where "d = content s f"
  obtain a s1 where 1: "bread ROOTDEV t s = ret a s1" "ok p (h(t \<mapsto> a)) s1" "bframe s s1" "content s1 = content s"
    "rc s1 = (rc s)(t := 1)" "disk s1 = disk s" "dtrace s1 = dtrace s"
    using fetch [OF assms(3,5)] assms(8,11) by fastforce
  obtain b s2 where 2: "bread ROOTDEV f s1 = ret b s2" "ok p (h(t \<mapsto> a, f \<mapsto> b)) s2" "bframe s1 s2" "content s2 = content s"
    "rc s2 = (rc s)(t := 1, f := Suc (rc s f))" "disk s2 = disk s" "dtrace s2 = dtrace s"
    using fetch [OF 1(2), of f] assms(6,7,9,10) 1(4-7) by auto
  define g where "g = h(t \<mapsto> a, f \<mapsto> b)"
  have g: "ok p g s2" "g t = Some a" "g f = Some b" "g(f := None) = h(t \<mapsto> a)"
    using 2(2) assms(6,7) by (auto simp: g_def fun_eq_iff)
  have d: "b_data (bufs s2 b) = d" using data [OF g(1,3)] 2(4) by (simp add: d_def)
  note st = assign [OF g(1,2), of d]
  obtain s3 where 3: "bwrite a (set_data a d s2) = ret () s3" "ok p g s3" "bframe (set_data a d s2) s3"
    "content s3 = (content s)(t := d)" "rc s3 = (rc s)(t := 1, f := Suc (rc s f))" "disk s3 = (disk s)(unat t := d)"
    "dtrace s3 = dtrace s @ [(unat t, d)]"
    using write_out [OF conjunct1 [OF st] g(2)] st 2(4-7) by auto
  have rf: "((rc s)(t := 1, f := Suc (rc s f)))(f := rc s f) = (rc s)(t := 1)" using assms(7) by (auto simp: fun_eq_iff)
  obtain s4 where 4: "brelse b s3 = ret () s4" "ok p (h(t \<mapsto> a)) s4" "bframe s3 s4" "content s4 = (content s)(t := d)"
    "rc s4 = (rc s)(t := 1)" "disk s4 = (disk s)(unat t := d)" "dtrace s4 = dtrace s @ [(unat t, d)]"
    using let_go [OF 3(2) g(3)] 3(4-7) assms(9) g(4) rf by auto
  have ht: "(h(t \<mapsto> a))(t := None) = h" "(rc s)(t := 0) = rc s" using assms(5,8) by (auto simp: fun_eq_iff)
  obtain s5 where 5: "brelse a s4 = ret () s5" "ok p h s5" "bframe s4 s5" "content s5 = (content s)(t := d)"
    "rc s5 = rc s" "disk s5 = (disk s)(unat t := d)" "dtrace s5 = dtrace s @ [(unat t, d)]"
    using let_go [OF 4(2), of t a] 4(4-7) ht by auto
  have kl: "klog s1 = klog s" using bframeD(1) [OF 1(3)] .
  have "write_log_from (Suc n) tail s = write_log_from n (Suc tail) s5"
    using 1(1) 2(1) 3(1) 4(1) 5(1) assms(4) kl d by (simp add: t_def f_def)
  moreover have "bframe s s5" using 1(3) 2(3) st 3(3) 4(3) 5(3) by (meson bframe_trans)
  ultimately show ?thesis using 5 by (auto simp: d_def)
qed

lemma install_step:
  fixes tail s
  defines "l \<equiv> lg_start (klog s) + of_nat tail + 1" and "d \<equiv> lg_block (klog s) tail"
  assumes "ok p h s" and "lg_dev (klog s) = ROOTDEV" and "h l = None" and "h d = None" and "l \<noteq> d"
    and "rc s l = 0" and "\<not> recovering \<Longrightarrow> 0 < rc s d" and "rc s d < 2 ^ 31" and "Suc (card {m. rc s m > 0}) < NBUF"
  shows "\<exists>s'. install_trans_from (Suc n) tail recovering s = install_trans_from n (Suc tail) recovering s' \<and>
    ok p h s' \<and> bframe s s' \<and> rc s' = (rc s)(d := if recovering then rc s d else rc s d - 1) \<and>
    content s' = (content s)(d := content s l) \<and> disk s' = (disk s)(unat d := content s l) \<and>
    dtrace s' = dtrace s @ [(unat d, content s l)]"
proof -
  define v where "v = content s l"
  have ul: "unat l \<noteq> unat d" using assms(7) by (metis unsigned_word_eqI)
  have cl: "v = disk s (unat l)" using clean [OF assms(3,8)] by (simp add: v_def)
  obtain a s1 where 1: "bread ROOTDEV l s = ret a s1" "ok p (h(l \<mapsto> a)) s1" "bframe s s1" "content s1 = content s"
    "rc s1 = (rc s)(l := Suc 0)" "disk s1 = disk s" "dtrace s1 = dtrace s"
    using fetch [OF assms(3,5)] assms(8,11) by fastforce
  have "card {m. rc s1 m > 0} < NBUF" using card_upd_Suc [of "rc s" l 0] assms(11) unfolding 1(5) by simp
  then obtain b s2 where 2: "bread ROOTDEV d s1 = ret b s2" "ok p (h(l \<mapsto> a, d \<mapsto> b)) s2" "bframe s1 s2" "content s2 = content s"
    "rc s2 = (rc s)(l := Suc 0, d := Suc (rc s d))" "disk s2 = disk s" "dtrace s2 = dtrace s"
    using fetch [OF 1(2), of d] assms(6,7,10) 1(4-7) by auto
  define g where "g = h(l \<mapsto> a, d \<mapsto> b)"
  have g: "ok p g s2" "g l = Some a" "g d = Some b" "g(l := None) = h(d \<mapsto> b)"
    using 2(2) assms(5,7) by (auto simp: g_def fun_eq_iff)
  have v: "b_data (bufs s2 a) = v" using data [OF g(1,2)] 2(4) by (simp add: v_def)
  note st = assign [OF g(1,3), of v]
  obtain s3 where 3: "bwrite b (set_data b v s2) = ret () s3" "ok p g s3" "bframe (set_data b v s2) s3"
    "content s3 = (content s)(d := v)" "rc s3 = (rc s)(l := Suc 0, d := Suc (rc s d))" "disk s3 = (disk s)(unat d := v)"
    "dtrace s3 = dtrace s @ [(unat d, v)]"
    using write_out [OF conjunct1 [OF st] g(3)] st 2(4-7) by auto
  let ?r = "if recovering then Suc (rc s d) else rc s d"
  have "\<exists>s4. (if \<not> recovering then bunpin b s3 else ret () s3) = ret () s4 \<and> ok p g s4 \<and> (s4 = s3 \<or> bframe s3 s4) \<and>
    content s4 = (content s)(d := v) \<and> rc s4 = (rc s)(l := Suc 0, d := ?r) \<and> disk s4 = (disk s)(unat d := v) \<and>
    dtrace s4 = dtrace s @ [(unat d, v)]"
  proof (cases recovering)
    case True
    then show ?thesis using 3 by simp
  next
    case False
    then show ?thesis using unpin [OF 3(2) g(3)] 3(4-7) assms(9) by auto
  qed
  then obtain s4 where 4: "(if \<not> recovering then bunpin b s3 else ret () s3) = ret () s4" "ok p g s4" "s4 = s3 \<or> bframe s3 s4"
    "content s4 = (content s)(d := v)" "rc s4 = (rc s)(l := Suc 0, d := ?r)" "disk s4 = (disk s)(unat d := v)"
    "dtrace s4 = dtrace s @ [(unat d, v)]" by blast
  have rl: "((rc s)(l := Suc 0, d := ?r))(l := 0) = (rc s)(d := ?r)" using assms(7,8) by (auto simp: fun_eq_iff)
  obtain s5 where 5: "brelse a s4 = ret () s5" "ok p (h(d \<mapsto> b)) s5" "bframe s4 s5" "content s5 = (content s)(d := v)"
    "rc s5 = (rc s)(d := ?r)" "disk s5 = (disk s)(unat d := v)" "dtrace s5 = dtrace s @ [(unat d, v)]"
    using let_go [OF 4(2) g(2)] 4(4-7) assms(7) ul cl g(4) rl by (auto simp: v_def)
  have hd: "(h(d \<mapsto> b))(d := None) = h" using assms(6) by (auto simp: fun_eq_iff)
  obtain s6 where 6: "brelse b s5 = ret () s6" "ok p h s6" "bframe s5 s6" "content s6 = (content s)(d := v)"
    "rc s6 = (rc s)(d := ?r - 1)" "disk s6 = (disk s)(unat d := v)" "dtrace s6 = dtrace s @ [(unat d, v)]"
    using let_go [OF 5(2), of d b] 5(4-7) hd by auto
  have kl: "klog s1 = klog s" using bframeD(1) [OF 1(3)] .
  have "install_trans_from (Suc n) tail recovering s = install_trans_from n (Suc tail) recovering s6"
    using 1(1) 2(1) 3(1) 4(1) 5(1) 6(1) assms(4) kl v by (simp add: l_def d_def)
  moreover have "bframe s s6" using 1(3) 2(3) st 3(3) 4(3) 5(3) 6(3) by (metis bframe_trans)
  moreover have "?r - 1 = (if recovering then rc s d else rc s d - 1)" by simp
  ultimately show ?thesis using 6 by (auto simp: v_def)
qed

end

section \<open>The loops\<close>

lemma bframe_refl [simp]: "bframe s s"
proof -
  have "s = s\<lparr>bufs := bufs s, procs := procs s, disk := disk s, dtrace := dtrace s\<rparr>" by (rule kstate.equality) simp_all
  then show ?thesis unfolding bframe_def by metis
qed

definition logblk :: "klog \<Rightarrow> nat \<Rightarrow> uint" where
  "logblk l i = lg_start l + of_nat i + 1"

text \<open>The log's blocks and the \<open>n\<close> blocks named in it are all different, without wrap-around.\<close>

definition log_layout :: "klog \<Rightarrow> nat \<Rightarrow> bool" where
  "log_layout l n \<longleftrightarrow> lg_dev l = ROOTDEV \<and> unat (lg_start l) + n < 2 ^ 32 \<and> inj_on (lg_block l) {..<n} \<and>
    (\<forall>i < n. \<forall>j \<le> n. unat (lg_block l i) \<noteq> unat (lg_start l) + j)"

lemma unat_logblk: "log_layout l n \<Longrightarrow> i < n \<Longrightarrow> unat (logblk l i) = unat (lg_start l) + Suc i"
  by (simp add: log_layout_def logblk_def unat_word_ariths unat_of_nat)

lemma logblk_block: "log_layout l n \<Longrightarrow> i < n \<Longrightarrow> j < n \<Longrightarrow> logblk l i \<noteq> lg_block l j"
  using unat_logblk [of l n i] by (metis log_layout_def Suc_leI)

lemma logblk_start: "log_layout l n \<Longrightarrow> i < n \<Longrightarrow> logblk l i \<noteq> lg_start l"
  using unat_logblk [of l n i] by (metis add_Suc_right less_add_Suc1 less_irrefl)

lemma block_start: "log_layout l n \<Longrightarrow> i < n \<Longrightarrow> lg_block l i \<noteq> lg_start l"
  by (metis log_layout_def add.right_neutral zero_le)

lemma logblk_inj: "log_layout l n \<Longrightarrow> i < n \<Longrightarrow> j < n \<Longrightarrow> logblk l i = logblk l j \<longleftrightarrow> i = j"
  by (metis unat_logblk Suc_inject add_left_cancel)

text \<open>The blocks to be committed are pinned in the cache, and the log's own blocks are not in use.\<close>

definition pinned :: "klog \<Rightarrow> nat \<Rightarrow> nat \<Rightarrow> (uint \<Rightarrow> nat) \<Rightarrow> bool" where
  "pinned l i n r \<longleftrightarrow> (\<forall>j. i \<le> j \<and> j < n \<longrightarrow> r (logblk l j) = 0 \<and> 0 < r (lg_block l j) \<and> r (lg_block l j) < 2 ^ 31)"

definition installable :: "bool \<Rightarrow> klog \<Rightarrow> nat \<Rightarrow> nat \<Rightarrow> (uint \<Rightarrow> nat) \<Rightarrow> bool" where
  "installable recovering l i n r \<longleftrightarrow>
    (\<forall>j. i \<le> j \<and> j < n \<longrightarrow> r (logblk l j) = 0 \<and> (\<not> recovering \<longrightarrow> 0 < r (lg_block l j)) \<and> r (lg_block l j) < 2 ^ 31)"

lemma pinned_installable: "pinned l i n r \<Longrightarrow> installable False l i n r"
  by (simp add: pinned_def installable_def)

context block_cache
begin

lemma write_log_loop:
  assumes "ok p Map.empty s" and "log_layout (klog s) N" and "tail + n \<le> N" and "pinned (klog s) 0 N (rc s)"
    and "card {m. rc s m > 0} < NBUF"
  shows "\<exists>s'. write_log_from n tail s = ret () s' \<and> ok p Map.empty s' \<and> bframe s s' \<and> rc s' = rc s \<and>
    content s' = upds (map (\<lambda>i. (logblk (klog s) i, content s (lg_block (klog s) i))) [tail..<tail + n]) (content s) \<and>
    disk s' = upds (map (\<lambda>i. (unat (logblk (klog s) i), content s (lg_block (klog s) i))) [tail..<tail + n]) (disk s) \<and>
    dtrace s' = dtrace s @ map (\<lambda>i. (unat (logblk (klog s) i), content s (lg_block (klog s) i))) [tail..<tail + n]"
  using assms
proof (induction n arbitrary: tail s)
  case (Suc n)
  let ?l = "klog s"
  have t: "tail < N" using Suc.prems(3) by simp
  have pin: "rc s (logblk ?l tail) = 0" "0 < rc s (lg_block ?l tail)" "rc s (lg_block ?l tail) < 2 ^ 31"
    using Suc.prems(4) t by (simp_all add: pinned_def)
  have dev: "lg_dev ?l = ROOTDEV" using Suc.prems(2) by (simp add: log_layout_def)
  note step = write_log_step [where n = n, OF Suc.prems(1) dev _ _ _ _ _ _ Suc.prems(5), of tail, folded logblk_def]
  obtain s1 where s1: "write_log_from (Suc n) tail s = write_log_from n (Suc tail) s1" "ok p Map.empty s1" "bframe s s1"
    "rc s1 = rc s" "content s1 = (content s)(logblk ?l tail := content s (lg_block ?l tail))"
    "disk s1 = (disk s)(unat (logblk ?l tail) := content s (lg_block ?l tail))"
    "dtrace s1 = dtrace s @ [(unat (logblk ?l tail), content s (lg_block ?l tail))]"
    using step [OF _ _ logblk_block [OF Suc.prems(2) t t] pin] by blast
  have kl: "klog s1 = ?l" using bframeD(1) [OF s1(3)] .
  have c: "content s1 (lg_block ?l i) = content s (lg_block ?l i)" if "i < N" for i
    using logblk_block [OF Suc.prems(2) t that] s1(5) by auto
  have m: "map (\<lambda>i. (logblk ?l i, content s1 (lg_block ?l i))) [Suc tail..<Suc tail + n] =
        map (\<lambda>i. (logblk ?l i, content s (lg_block ?l i))) [Suc tail..<Suc tail + n]"
      "map (\<lambda>i. (unat (logblk ?l i), content s1 (lg_block ?l i))) [Suc tail..<Suc tail + n] =
        map (\<lambda>i. (unat (logblk ?l i), content s (lg_block ?l i))) [Suc tail..<Suc tail + n]"
    using c Suc.prems(3) by (auto intro!: map_cong simp del: upt_Suc)
  have u: "[tail..<tail + Suc n] = tail # [Suc tail..<Suc tail + n]" by (simp add: upt_conv_Cons)
  obtain s2 where s2: "write_log_from n (Suc tail) s1 = ret () s2" "ok p Map.empty s2" "bframe s1 s2" "rc s2 = rc s1"
    "content s2 = upds (map (\<lambda>i. (logblk ?l i, content s1 (lg_block ?l i))) [Suc tail..<Suc tail + n]) (content s1)"
    "disk s2 = upds (map (\<lambda>i. (unat (logblk ?l i), content s1 (lg_block ?l i))) [Suc tail..<Suc tail + n]) (disk s1)"
    "dtrace s2 = dtrace s1 @ map (\<lambda>i. (unat (logblk ?l i), content s1 (lg_block ?l i))) [Suc tail..<Suc tail + n]"
    using Suc.IH [OF s1(2), of "Suc tail", unfolded kl s1(4), OF Suc.prems(2) _ Suc.prems(4,5)] Suc.prems(3)
    unfolding s1(4) by auto
  have "bframe s s2" using s1(3) s2(3) by (rule bframe_trans)
  then show ?case unfolding u s1(1) list.map upds_simps
    using s1(4-7) s2(1,2,4) s2(5-7) [unfolded m] by (simp del: upt_Suc)
qed simp

lemma install_loop:
  assumes "ok p Map.empty s" and "log_layout (klog s) N" and "tail + n \<le> N"
    and "installable recovering (klog s) tail (tail + n) (rc s)" and "Suc (card {m. rc s m > 0}) < NBUF"
  shows "\<exists>s'. install_trans_from n tail recovering s = ret () s' \<and> ok p Map.empty s' \<and> bframe s s' \<and>
    rc s' = (\<lambda>m. if \<not> recovering \<and> m \<in> lg_block (klog s) ` {tail..<tail + n} then rc s m - 1 else rc s m) \<and>
    content s' = upds (map (\<lambda>i. (lg_block (klog s) i, content s (logblk (klog s) i))) [tail..<tail + n]) (content s) \<and>
    disk s' = upds (map (\<lambda>i. (unat (lg_block (klog s) i), content s (logblk (klog s) i))) [tail..<tail + n]) (disk s) \<and>
    dtrace s' = dtrace s @ map (\<lambda>i. (unat (lg_block (klog s) i), content s (logblk (klog s) i))) [tail..<tail + n]"
  using assms
proof (induction n arbitrary: tail s)
  case (Suc n)
  let ?l = "klog s" and ?b = "lg_block (klog s) tail"
  let ?r = "if recovering then rc s ?b else rc s ?b - 1"
  have t: "tail < N" using Suc.prems(3) by simp
  have pin: "rc s (logblk ?l tail) = 0" "\<not> recovering \<Longrightarrow> 0 < rc s ?b" "rc s ?b < 2 ^ 31"
    using Suc.prems(4) by (simp_all add: installable_def)
  have dev: "lg_dev ?l = ROOTDEV" using Suc.prems(2) by (simp add: log_layout_def)
  note step = install_step [where n = n, OF Suc.prems(1) dev _ _ _ _ _ _ Suc.prems(5), of tail, folded logblk_def]
  obtain s1 where s1: "install_trans_from (Suc n) tail recovering s = install_trans_from n (Suc tail) recovering s1"
    "ok p Map.empty s1" "bframe s s1" "rc s1 = (rc s)(?b := ?r)" "content s1 = (content s)(?b := content s (logblk ?l tail))"
    "disk s1 = (disk s)(unat ?b := content s (logblk ?l tail))"
    "dtrace s1 = dtrace s @ [(unat ?b, content s (logblk ?l tail))]"
    using step [OF _ _ logblk_block [OF Suc.prems(2) t t] pin] by blast
  have kl: "klog s1 = ?l" using bframeD(1) [OF s1(3)] .
  have lb: "lg_block ?l i \<noteq> ?b" if "i < N" "i \<noteq> tail" for i
    using that t Suc.prems(2) by (auto simp: log_layout_def inj_on_def)
  have c: "content s1 (logblk ?l i) = content s (logblk ?l i)" if "i < N" for i
    using logblk_block [OF Suc.prems(2) that t] s1(5) by auto
  have m: "map (\<lambda>i. (lg_block ?l i, content s1 (logblk ?l i))) [Suc tail..<Suc tail + n] =
        map (\<lambda>i. (lg_block ?l i, content s (logblk ?l i))) [Suc tail..<Suc tail + n]"
      "map (\<lambda>i. (unat (lg_block ?l i), content s1 (logblk ?l i))) [Suc tail..<Suc tail + n] =
        map (\<lambda>i. (unat (lg_block ?l i), content s (logblk ?l i))) [Suc tail..<Suc tail + n]"
    using c Suc.prems(3) by (auto intro!: map_cong simp del: upt_Suc)
  have u: "[tail..<tail + Suc n] = tail # [Suc tail..<Suc tail + n]" by (simp add: upt_conv_Cons)
  have inst: "installable recovering ?l (Suc tail) (Suc tail + n) (rc s1)"
    unfolding installable_def
  proof (intro allI impI)
    fix j
    assume j: "Suc tail \<le> j \<and> j < Suc tail + n"
    then have "rc s (logblk ?l j) = 0 \<and> (\<not> recovering \<longrightarrow> 0 < rc s (lg_block ?l j)) \<and> rc s (lg_block ?l j) < 2 ^ 31"
      using Suc.prems(4) by (simp add: installable_def)
    moreover have "j < N" "j \<noteq> tail" using j Suc.prems(3) by simp_all
    ultimately show "rc s1 (logblk ?l j) = 0 \<and> (\<not> recovering \<longrightarrow> 0 < rc s1 (lg_block ?l j)) \<and> rc s1 (lg_block ?l j) < 2 ^ 31"
      using lb [of j] logblk_block [OF Suc.prems(2) _ t, of j] by (simp add: s1(4))
  qed
  have "{m. rc s1 m > 0} \<subseteq> {m. rc s m > 0}" by (auto simp: s1(4) split: if_splits)
  then have "card {m. rc s1 m > 0} \<le> card {m. rc s m > 0}" by (intro card_mono) simp_all
  then have room: "Suc (card {m. rc s1 m > 0}) < NBUF" using Suc.prems(5) by simp
  obtain s2 where s2: "install_trans_from n (Suc tail) recovering s1 = ret () s2" "ok p Map.empty s2" "bframe s1 s2"
    "rc s2 = (\<lambda>m. if \<not> recovering \<and> m \<in> lg_block ?l ` {Suc tail..<Suc tail + n} then rc s1 m - 1 else rc s1 m)"
    "content s2 = upds (map (\<lambda>i. (lg_block ?l i, content s1 (logblk ?l i))) [Suc tail..<Suc tail + n]) (content s1)"
    "disk s2 = upds (map (\<lambda>i. (unat (lg_block ?l i), content s1 (logblk ?l i))) [Suc tail..<Suc tail + n]) (disk s1)"
    "dtrace s2 = dtrace s1 @ map (\<lambda>i. (unat (lg_block ?l i), content s1 (logblk ?l i))) [Suc tail..<Suc tail + n]"
    using Suc.IH [OF s1(2), of "Suc tail", unfolded kl, OF Suc.prems(2) _ inst room] Suc.prems(3) by auto
  have "?b \<notin> lg_block ?l ` {Suc tail..<Suc tail + n}"
  proof
    assume "?b \<in> lg_block ?l ` {Suc tail..<Suc tail + n}"
    then obtain j where "j \<in> {Suc tail..<Suc tail + n}" "?b = lg_block ?l j" by blast
    then show False using lb [of j] Suc.prems(3) by auto
  qed
  moreover have "{tail..<tail + Suc n} = insert tail {Suc tail..<Suc tail + n}" by auto
  ultimately have r: "rc s2 = (\<lambda>m. if \<not> recovering \<and> m \<in> lg_block ?l ` {tail..<tail + Suc n} then rc s m - 1 else rc s m)"
    unfolding s2(4) s1(4) by (auto simp: fun_eq_iff)
  have "bframe s s2" using s1(3) s2(3) by (rule bframe_trans)
  then show ?case unfolding u s1(1) list.map upds_simps
    using r s1(5-7) s2(1,2) s2(5-7) [unfolded m] unfolding u by (intro exI [of _ s2]) (simp del: upt_Suc)
qed simp

lemma write_head_ok:
  assumes "ok p Map.empty s" and "lg_dev (klog s) = ROOTDEV" and "rc s (lg_start (klog s)) = 0" and "card {m. rc s m > 0} < NBUF"
  defines "L \<equiv> lg_start (klog s)"
  shows "\<exists>s'. write_head s = ret () s' \<and> ok p Map.empty s' \<and> bframe s s' \<and> rc s' = rc s \<and>
    content s' = (content s)(L := header (klog s) (content s L)) \<and>
    disk s' = (disk s)(unat L := header (klog s) (content s L)) \<and>
    dtrace s' = dtrace s @ [(unat L, header (klog s) (content s L))]"
proof -
  have "write_head s = bindE (bread ROOTDEV L s) (\<lambda>b s.
      bindE (bwrite b (set_data b (header (klog s) (b_data (bufs s b))) s)) (\<lambda>_ s. brelse b s))"
    using assms(2) by (simp add: write_head_def header_def Let_def L_def)
  then show ?thesis using overwrite [OF assms(1), of L header] assms(3,4) by (simp add: L_def)
qed

lemma read_head_ok:
  assumes "ok p Map.empty s" and "lg_dev (klog s) = ROOTDEV" and "rc s (lg_start (klog s)) = 0" and "card {m. rc s m > 0} < NBUF"
  defines "d \<equiv> content s (lg_start (klog s))"
  shows "\<exists>s'. read_head s = ret () s' \<and> ok p Map.empty s' \<and> rc s' = rc s \<and> content s' = content s \<and>
    disk s' = disk s \<and> dtrace s' = dtrace s \<and> sblk s' = sblk s \<and>
    klog s' = (klog s)\<lparr>lg_n := sint (get32 d 0),
      lg_block := (\<lambda>i. if int i < sint (get32 d 0) then get32 d (i + 1) else lg_block (klog s) i)\<rparr>"
proof -
  let ?f = "\<lambda>l. l\<lparr>lg_n := sint (get32 d 0),
      lg_block := (\<lambda>i. if int i < sint (get32 d 0) then get32 d (i + 1) else lg_block l i)\<rparr>"
  obtain b s1 where r: "bread ROOTDEV (lg_start (klog s)) s = ret b s1" "b_data (bufs s1 b) = d" "bframe s s1"
    and f: "\<exists>s'. brelse b (upd_log ?f s1) = ret () s' \<and> ok p Map.empty s' \<and> content s' = content s \<and> rc s' = rc s \<and>
      disk s' = disk s \<and> dtrace s' = dtrace s \<and> bframe (upd_log ?f s1) s'"
    using peek [OF assms(1) _ assms(3,4)] unfolding d_def by blast
  then obtain s' where s': "brelse b (upd_log ?f s1) = ret () s'" "ok p Map.empty s'" "content s' = content s" "rc s' = rc s"
    "disk s' = disk s" "dtrace s' = dtrace s" "bframe (upd_log ?f s1) s'" by blast
  have "read_head s = ret () s'" using r(1,2) s'(1) assms(2) by (simp add: read_head_def Let_def cong: if_cong)
  moreover have "klog s' = ?f (klog s)" "sblk s' = sblk s" using bframeD(1,2) [OF s'(7)] bframeD(1,2) [OF r(3)]
    by (simp_all cong: if_cong)
  ultimately show ?thesis using s' by blast
qed

text \<open>The writes of a commit: the log's blocks, the header, the home blocks, the empty header.\<close>

lemma commit_ok:
  assumes "ok p Map.empty s" and "N = nat (lg_n (klog s))" and "0 < N" and "log_layout (klog s) N"
    and "pinned (klog s) 0 N (rc s)" and "rc s (lg_start (klog s)) = 0" and "Suc (card {m. rc s m > 0}) < NBUF"
  defines "L \<equiv> lg_start (klog s)" and "v \<equiv> \<lambda>i. content s (lg_block (klog s) i)"
  defines "h \<equiv> header (klog s) (content s L)"
  defines "ws \<equiv> map (\<lambda>i. (unat (logblk (klog s) i), v i)) [0..<N] @ [(unat L, h)] @
    map (\<lambda>i. (unat (lg_block (klog s) i), v i)) [0..<N] @ [(unat L, header ((klog s)\<lparr>lg_n := 0\<rparr>) h)]"
  shows "\<exists>s'. commit s = ret () s' \<and> ok p Map.empty s' \<and> klog s' = (klog s)\<lparr>lg_n := 0\<rparr> \<and>
    dtrace s' = dtrace s @ ws \<and> disk s' = upds ws (disk s) \<and>
    rc s' = (\<lambda>m. if m \<in> lg_block (klog s) ` {0..<N} then rc s m - 1 else rc s m)"
proof -
  let ?l = "klog s"
  have dev: "lg_dev ?l = ROOTDEV" using assms(4) by (simp add: log_layout_def)
  have room: "card {m. rc s m > 0} < NBUF" using assms(7) by simp
  obtain s1 where 1: "write_log_from N 0 s = ret () s1" "ok p Map.empty s1" "bframe s s1" "rc s1 = rc s"
    "content s1 = upds (map (\<lambda>i. (logblk ?l i, v i)) [0..<N]) (content s)"
    "disk s1 = upds (map (\<lambda>i. (unat (logblk ?l i), v i)) [0..<N]) (disk s)"
    "dtrace s1 = dtrace s @ map (\<lambda>i. (unat (logblk ?l i), v i)) [0..<N]"
    using write_log_loop [OF assms(1,4) _ assms(5) room, of 0 N] unfolding v_def by auto
  have l1: "klog s1 = ?l" using bframeD(1) [OF 1(3)] .
  have "L \<notin> fst ` set (map (\<lambda>i. (logblk ?l i, v i)) [0..<N])" using logblk_start [OF assms(4)] by (force simp: L_def)
  then have cL: "content s1 L = content s L" unfolding 1(5) by (rule upds_other)
  have "inj_on (logblk ?l) (set [0..<N])" using logblk_inj [OF assms(4)] by (auto simp: inj_on_def)
  then have c1: "content s1 (logblk ?l i) = v i" if "i < N" for i
    unfolding 1(5) by (rule upds_map) (use that in simp)
  obtain s2 where 2: "write_head s1 = ret () s2" "ok p Map.empty s2" "bframe s1 s2" "rc s2 = rc s"
    "content s2 = (content s1)(L := h)" "disk s2 = (disk s1)(unat L := h)" "dtrace s2 = dtrace s1 @ [(unat L, h)]"
    using write_head_ok [OF 1(2)] l1 1(4) dev assms(6) room cL by (auto simp: L_def h_def)
  have l2: "klog s2 = ?l" using bframeD(1) [OF 2(3)] l1 by simp
  have c2: "content s2 (logblk ?l i) = v i" if "i < N" for i
    using c1 [OF that] logblk_start [OF assms(4) that] by (simp add: 2(5) L_def)
  have "pinned ?l 0 (0 + N) (rc s2)" using assms(5) 2(4) by simp
  note inst = install_loop [OF 2(2), unfolded l2, OF assms(4) _ pinned_installable [OF this], simplified]
  have m: "map (\<lambda>i. (unat (lg_block ?l i), content s2 (logblk ?l i))) [0..<N] = map (\<lambda>i. (unat (lg_block ?l i), v i)) [0..<N]"
    using c2 by (intro map_cong) auto
  obtain s3 where 3: "install_trans_from N 0 False s2 = ret () s3" "ok p Map.empty s3" "bframe s2 s3"
    "rc s3 = (\<lambda>m. if m \<in> lg_block ?l ` {0..<N} then rc s m - 1 else rc s m)"
    "content s3 = upds (map (\<lambda>i. (lg_block ?l i, content s2 (logblk ?l i))) [0..<N]) (content s2)"
    "disk s3 = upds (map (\<lambda>i. (unat (lg_block ?l i), v i)) [0..<N]) (disk s2)"
    "dtrace s3 = dtrace s2 @ map (\<lambda>i. (unat (lg_block ?l i), v i)) [0..<N]"
    using inst assms(7) 2(4) unfolding m by (auto cong: if_cong)
  let ?s4 = "upd_log (\<lambda>l. l\<lparr>lg_n := 0\<rparr>) s3"
  have l3: "klog s3 = ?l" using bframeD(1) [OF 3(3)] l2 by simp
  have "L \<notin> fst ` set (map (\<lambda>i. (lg_block ?l i, content s2 (logblk ?l i))) [0..<N])"
    using block_start [OF assms(4)] by (force simp: L_def)
  then have c3: "content s3 L = h" unfolding 3(5) by (simp add: upds_other 2(5))
  have "{m. rc s3 m > 0} \<subseteq> {m. rc s m > 0}" by (auto simp: 3(4) split: if_splits)
  then have "card {m. rc s3 m > 0} \<le> card {m. rc s m > 0}" by (intro card_mono) simp_all
  then have room3: "card {m. rc ?s4 m > 0} < NBUF" using room by (simp add: log_free)
  have "rc ?s4 (lg_start (klog ?s4)) = 0" using assms(6) by (simp add: log_free l3 3(4))
  moreover have "ok p Map.empty ?s4" "lg_dev (klog ?s4) = ROOTDEV" using 3(2) dev by (simp_all add: log_free l3)
  ultimately obtain s5 where 5: "write_head ?s4 = ret () s5" "ok p Map.empty s5" "bframe ?s4 s5" "rc s5 = rc s3"
    "disk s5 = (disk s3)(unat L := header (?l\<lparr>lg_n := 0\<rparr>) h)"
    "dtrace s5 = dtrace s3 @ [(unat L, header (?l\<lparr>lg_n := 0\<rparr>) h)]"
    using write_head_ok [of p ?s4] room3 c3 by (auto simp: log_free l3 L_def)
  have "commit s = ret () s5"
    using assms(2,3) 1(1) 2(1) 3(1) 5(1) l2 by (simp add: commit_def write_log_def install_trans_def)
  moreover have "klog s5 = ?l\<lparr>lg_n := 0\<rparr>" using bframeD(1) [OF 5(3)] l3 by simp
  moreover have "dtrace s5 = dtrace s @ ws" "disk s5 = upds ws (disk s)"
    using 1(6,7) 2(6,7) 3(6,7) 5(5,6) by (simp_all add: ws_def)
  ultimately show ?thesis using 5(2,4) 3(4) by auto
qed

text \<open>Recovery on a disk whose header has no blocks, and on one with a committed transaction.\<close>

lemma recover_ok:
  assumes "ok p Map.empty s" and "\<forall>m. rc s m = 0" and "lg_dev (klog s) = ROOTDEV"
    and "d = disk s (unat (lg_start (klog s)))" and "sint (get32 d 0) = int N"
    and "B = (\<lambda>i. if i < N then get32 d (i + 1) else lg_block (klog s) i)" and "log_layout ((klog s)\<lparr>lg_block := B\<rparr>) N"
  shows "\<exists>s'. recover_from_log s = ret () s' \<and> ok p Map.empty s' \<and> lg_n (klog s') = 0 \<and>
    disk s' = (upds (map (\<lambda>i. (unat (B i), disk s (unat (logblk (klog s) i)))) [0..<N]) (disk s))
      (unat (lg_start (klog s)) := header ((klog s)\<lparr>lg_block := B, lg_n := 0\<rparr>) d)"
proof -
  let ?l = "(klog s)\<lparr>lg_n := int N, lg_block := B\<rparr>" and ?L = "lg_start (klog s)"
  have room: "{m. rc s m > 0} = {}" using assms(2) by simp
  have cs: "content s m = disk s (unat m)" for m using clean [OF assms(1)] assms(2) by simp
  have Beq: "(\<lambda>i. if int i < int N then get32 d (i + 1) else lg_block (klog s) i) = B" by (simp add: assms(6))
  obtain s1 where 1: "read_head s = ret () s1" "ok p Map.empty s1" "rc s1 = rc s" "content s1 = content s"
    "disk s1 = disk s" "klog s1 = ?l"
    using read_head_ok [OF assms(1,3)] assms(2) room
    unfolding cs [of ?L] assms(4) [symmetric] assms(5) Beq by (auto simp: NBUF_def MAXOPBLOCKS_def)
  have lay: "log_layout ?l N" using assms(7) by (simp add: log_layout_def)
  have lb: "logblk ?l = logblk (klog s)" by (simp add: fun_eq_iff logblk_def)
  have "installable True ?l 0 (0 + N) (rc s1)" using assms(2) 1(3) by (simp add: installable_def)
  note inst = install_loop [OF 1(2), unfolded 1(6), OF lay _ this, simplified]
  have m: "map (\<lambda>i. (unat (B i), content s (logblk ?l i))) [0..<N] = map (\<lambda>i. (unat (B i), disk s (unat (logblk (klog s) i)))) [0..<N]"
    by (simp add: cs lb)
  obtain s2 where 2: "install_trans_from N 0 True s1 = ret () s2" "ok p Map.empty s2" "bframe s1 s2" "rc s2 = rc s"
    "content s2 = upds (map (\<lambda>i. (B i, content s (logblk ?l i))) [0..<N]) (content s)"
    "disk s2 = upds (map (\<lambda>i. (unat (B i), disk s (unat (logblk (klog s) i)))) [0..<N]) (disk s)"
    using inst room 1(3-5) unfolding 1(4) m by (auto simp: NBUF_def MAXOPBLOCKS_def)
  let ?s3 = "upd_log (\<lambda>l. l\<lparr>lg_n := 0\<rparr>) s2"
  have l2: "klog s2 = ?l" using bframeD(1) [OF 2(3)] 1(6) by simp
  have "?L \<notin> fst ` set (map (\<lambda>i. (B i, content s (logblk ?l i))) [0..<N])"
    using block_start [OF lay] by force
  then have c2: "content s2 ?L = d" unfolding 2(5) by (simp add: upds_other cs assms(4))
  have "ok p Map.empty ?s3" "lg_dev (klog ?s3) = ROOTDEV" "rc ?s3 (lg_start (klog ?s3)) = 0" "card {m. rc ?s3 m > 0} < NBUF"
    using 2(2,4) assms(2,3) room by (simp_all add: log_free l2 NBUF_def MAXOPBLOCKS_def)
  from write_head_ok [OF this] obtain s4 where 4: "write_head ?s3 = ret () s4" "ok p Map.empty s4" "bframe ?s3 s4"
    "disk s4 = (disk s2)(unat ?L := header ((klog s)\<lparr>lg_block := B, lg_n := 0\<rparr>) d)"
    using c2 by (auto simp: log_free l2)
  have "recover_from_log s = ret () s4"
    using 1(1,6) 2(1) 4(1) by (simp add: recover_from_log_def install_trans_def)
  moreover have "lg_n (klog s4) = 0" using bframeD(1) [OF 4(3)] l2 by simp
  ultimately show ?thesis using 4(2,4) 2(6) by auto
qed

end

section \<open>A crash and the boot after it\<close>

lemma cache_ok_initlock: "cache_ok p h s \<Longrightarrow> cache_ok p h (initlock lk nm s)"
  by (auto simp: cache_ok_def quiet_def buf_ring_def nexts_def prevs_def initlock_def lock_free_def cpu_ok_def machine_defs)

lemma initlock_simps [simp]:
  "disk (initlock lk nm s) = disk s" "bufs (initlock lk nm s) = bufs s" "sblk (initlock lk nm s) = sblk s"
  "refs (initlock lk nm s) = refs s" "klog (initlock lk nm s) = klog s"
  by (simp_all add: initlock_def machine_defs refs_def)

text \<open>\<^verbatim>\<open>initlog\<close> at boot, on a disk whose header names \<open>N\<close> blocks.\<close>

lemma boot_recovers:
  assumes "quiet p r" and "\<And>b. fresh_buf (bufs r b)" and "sb_logstart (sblk r) = L"
    and "d = disk r (unat L)" and "sint (get32 d 0) = int N" and "length d = BSIZE"
    and "l = \<lparr>lg_start = L, lg_size = 0, lg_outstanding = 0, lg_committing = False, lg_dev = ROOTDEV, lg_n = int N,
      lg_block = (\<lambda>i. get32 d (Suc i))\<rparr>" and "log_layout l N"
  shows "\<exists>r'. initlog ROOTDEV (binit r) = ret () r' \<and> get32 (disk r' (unat L)) 0 = 0 \<and>
    (\<forall>b. b \<noteq> unat L \<longrightarrow>
      disk r' b = upds (map (\<lambda>i. (unat (get32 d (Suc i)), disk r (unat (logblk l i)))) [0..<N]) (disk r) b)"
proof -
  note bo = binit_ok [OF assms(1,2)]
  define u where "u = upd_log (\<lambda>l. l\<lparr>lg_start := L, lg_size := sint (sb_nlog (sblk r)), lg_dev := ROOTDEV\<rparr>)
      (initlock LogLock ''log'' (binit r))"
  define B where "B = (\<lambda>i. if i < N then get32 d (i + 1) else lg_block (klog u) i)"
  have e: "initlog ROOTDEV (binit r) = recover_from_log u"
    using assms(3) bo(6) by (simp add: initlog_def u_def BSIZE_def LOGSIZE_def MAXOPBLOCKS_def)
  have u: "cache_ok p Map.empty u" "\<forall>m. refs u m = 0" "lg_dev (klog u) = ROOTDEV" "lg_start (klog u) = L" "disk u = disk r"
    using cache_ok_initlock [OF bo(1)] bo(3,4) by (simp_all add: u_def)
  have lb: "logblk (klog u) i = logblk l i" for i by (simp add: logblk_def u(4) assms(7))
  have "log_layout ((klog u)\<lparr>lg_block := B\<rparr>) N"
    using assms(8) u(3,4) by (simp add: log_layout_def B_def assms(7) inj_on_def)
  with u assms(4,5) obtain r' where r': "recover_from_log u = ret () r'"
    "disk r' = (upds (map (\<lambda>i. (unat (B i), disk r (unat (logblk l i)))) [0..<N]) (disk r))
      (unat L := header ((klog u)\<lparr>lg_block := B, lg_n := 0\<rparr>) d)"
    using bc.recover_ok [OF u(1-3), of d N B] by (auto simp: B_def lb)
  have m: "map (\<lambda>i. (unat (B i), disk r (unat (logblk l i)))) [0..<N] =
      map (\<lambda>i. (unat (get32 d (Suc i)), disk r (unat (logblk l i)))) [0..<N]"
    by (intro map_cong) (auto simp: B_def)
  have "get32 (header ((klog u)\<lparr>lg_block := B, lg_n := 0\<rparr>) d) 0 = 0"
    using header_get(1) [of "(klog u)\<lparr>lg_block := B, lg_n := 0\<rparr>" d] assms(6) by (simp add: BSIZE_def)
  then show ?thesis using e r'(1) r'(2) [unfolded m] by simp
qed

text \<open>
  The disks a crash can leave: before the header is written, the home blocks are untouched and the
  header names nothing; from then on the log holds the new blocks until the header is cleared.
\<close>

lemma crash_before_header:
  assumes "log_layout l N" and "k \<le> N" and "D = upds (take k (map (\<lambda>i. (unat (logblk l i), v i)) [0..<N])) D0"
  shows "b < unat (lg_start l) \<or> unat (lg_start l) + N < b \<or> b = unat (lg_start l) \<Longrightarrow> D b = D0 b"
proof -
  assume b: "b < unat (lg_start l) \<or> unat (lg_start l) + N < b \<or> b = unat (lg_start l)"
  have "b \<notin> fst ` set (take k (map (\<lambda>i. (unat (logblk l i), v i)) [0..<N]))"
  proof
    assume "b \<in> fst ` set (take k (map (\<lambda>i. (unat (logblk l i), v i)) [0..<N]))"
    then obtain i where "i < N" "b = unat (logblk l i)" by (auto simp: take_map dest: in_set_takeD)
    then show False using b unat_logblk [OF assms(1)] by auto
  qed
  then show "D b = D0 b" unfolding assms(3) by (rule upds_other)
qed

lemma crash_after_header:
  assumes "log_layout l N" and "j \<le> N"
    and "D = upds (take j (map (\<lambda>i. (unat (lg_block l i), v i)) [0..<N]))
      ((upds (map (\<lambda>i. (unat (logblk l i), v i)) [0..<N]) D0)(unat (lg_start l) := h))"
  shows "D (unat (lg_start l)) = h" and "i < N \<Longrightarrow> D (unat (logblk l i)) = v i"
    and "b < unat (lg_start l) \<or> unat (lg_start l) + N < b \<Longrightarrow> (\<forall>i < N. b \<noteq> unat (lg_block l i)) \<Longrightarrow> D b = D0 b"
proof -
  let ?ws = "map (\<lambda>i. (unat (lg_block l i), v i)) [0..<N]" and ?L = "unat (lg_start l)"
  let ?E = "upds (map (\<lambda>i. (unat (logblk l i), v i)) [0..<N]) D0"
  have other: "D b = (?E(?L := h)) b" if "\<forall>i < N. b \<noteq> unat (lg_block l i)" for b
  proof -
    have "fst ` set (take j ?ws) \<subseteq> (\<lambda>i. unat (lg_block l i)) ` {..<N}" using set_take_subset [of j ?ws] by force
    then have "b \<notin> fst ` set (take j ?ws)" using that by auto
    then show ?thesis unfolding assms(3) by (rule upds_other)
  qed
  have bl: "unat (lg_block l i) \<noteq> ?L + m" if "i < N" "m \<le> N" for i m
    using assms(1) that by (simp add: log_layout_def)
  have "\<forall>i < N. ?L \<noteq> unat (lg_block l i)" using bl [of _ 0] by (metis add.right_neutral zero_le)
  from other [OF this] show "D ?L = h" by simp
  have "inj_on (\<lambda>i. unat (logblk l i)) (set [0..<N])"
    using unat_logblk [OF assms(1)] by (auto simp: inj_on_def)
  then have E: "?E (unat (logblk l i)) = v i" if "i < N" for i
    using upds_map [of "\<lambda>i. unat (logblk l i)" "[0..<N]" i v D0] that by simp
  show "D (unat (logblk l i)) = v i" if i: "i < N"
  proof -
    note u = unat_logblk [OF assms(1) i]
    have "\<forall>m < N. unat (logblk l i) \<noteq> unat (lg_block l m)" using bl [of _ "Suc i"] u i by (metis Suc_leI)
    from other [OF this] show ?thesis using E [OF i] u by simp
  qed
  assume b: "b < ?L \<or> ?L + N < b" "\<forall>i < N. b \<noteq> unat (lg_block l i)"
  have "b \<notin> fst ` set (map (\<lambda>i. (unat (logblk l i), v i)) [0..<N])"
    using b(1) unat_logblk [OF assms(1)] by auto
  then have "?E b = D0 b" by (rule upds_other)
  then show "D b = D0 b" using other [OF b(2)] b(1) by auto
qed

text \<open>What the boot after a crash makes of the three kinds of disk.\<close>

lemma boot_header_empty:
  assumes "quiet p r" and "\<And>b. fresh_buf (bufs r b)" and "sb_logstart (sblk r) = L"
    and "get32 (disk r (unat L)) 0 = 0" and "length (disk r (unat L)) = BSIZE"
  shows "\<exists>r'. initlog ROOTDEV (binit r) = ret () r' \<and> get32 (disk r' (unat L)) 0 = 0 \<and>
    (\<forall>b. b \<noteq> unat L \<longrightarrow> disk r' b = disk r b)"
proof -
  define l where "l = \<lparr>lg_start = L, lg_size = 0, lg_outstanding = 0, lg_committing = False, lg_dev = ROOTDEV, lg_n = int 0,
      lg_block = (\<lambda>i. get32 (disk r (unat L)) (Suc i))\<rparr>"
  have "log_layout l 0" using unsigned_less [of L, where ?'a = nat] by (simp add: log_layout_def l_def)
  from boot_recovers [OF assms(1-3) refl _ assms(5) l_def this] assms(4) show ?thesis by simp
qed

lemma boot_header_full:
  assumes "quiet p r" and "\<And>b. fresh_buf (bufs r b)" and "sb_logstart (sblk r) = lg_start l"
    and "log_layout l N" and "lg_n l = int N" and "N \<le> LOGSIZE" and "length d = BSIZE"
    and "disk r (unat (lg_start l)) = header l d" and "\<And>i. i < N \<Longrightarrow> disk r (unat (logblk l i)) = v i"
  shows "\<exists>r'. initlog ROOTDEV (binit r) = ret () r' \<and> get32 (disk r' (unat (lg_start l))) 0 = 0 \<and>
    (\<forall>b. b \<noteq> unat (lg_start l) \<longrightarrow> disk r' b = upds (map (\<lambda>i. (unat (lg_block l i), v i)) [0..<N]) (disk r) b)"
proof -
  let ?h = "header l d"
  define l' where "l' = \<lparr>lg_start = lg_start l, lg_size = 0, lg_outstanding = 0, lg_committing = False, lg_dev = ROOTDEV, lg_n = int N,
      lg_block = (\<lambda>i. get32 ?h (Suc i))\<rparr>"
  have sz: "4 * nat (lg_n l) + 4 \<le> length d" using assms(5-7) by (simp add: BSIZE_def LOGSIZE_def MAXOPBLOCKS_def)
  note h = header_get [OF sz]
  have n: "N \<le> 30" using assms(6) by (simp add: LOGSIZE_def MAXOPBLOCKS_def)
  have "sint (word_of_int (lg_n l) :: uint) = int N"
    using n unfolding assms(5) signed_of_int by (simp add: signed_take_bit_int_eq_self)
  then have g: "sint (get32 ?h 0) = int N" by (simp add: h(1))
  have B: "get32 ?h (Suc i) = lg_block l i" if "i < N" for i using h(3) that assms(5) by simp
  have lb: "logblk l' i = logblk l i" for i by (simp add: logblk_def l'_def)
  have "log_layout l' N" using assms(4) B by (simp add: log_layout_def l'_def inj_on_def)
  note b = boot_recovers [OF assms(1-3) assms(8) [symmetric] g _ l'_def this]
  have m: "map (\<lambda>i. (unat (get32 ?h (Suc i)), disk r (unat (logblk l' i)))) [0..<N] = map (\<lambda>i. (unat (lg_block l i), v i)) [0..<N]"
    using B assms(9) lb by (intro map_cong) auto
  show ?thesis using b [unfolded m] h(2) assms(7) by simp
qed

lemma cache_quiet: "cache_ok p h s \<Longrightarrow> quiet p s"
  by (simp add: cache_ok_def)

section \<open>Properties\<close>

text \<open>
  C2: A transaction is atomic across crashes. With up to 30 distinct blocks logged and pinned, none of
  them in the log area, and two buffers to spare, \<^verbatim>\<open>commit\<close> returns; and for every prefix of the
  writes it sends to the disk, if the machine stops after that prefix, \<^verbatim>\<open>binit\<close> and \<^verbatim>\<open>initlog\<close> of the
  next boot return and leave the data blocks either all with their old content (a crash before the
  header is written) or all with the new content of the logged blocks (from the header write on), with
  an empty log in both cases.
\<close>

theorem log_crash_atomic:
  fixes s
  defines "l \<equiv> klog s" and "N \<equiv> nat (lg_n (klog s))"
  assumes "cache_ok p Map.empty s" and "0 < lg_n l" and "N \<le> LOGSIZE" and "log_layout l N" and "pinned l 0 N (refs s)"
    and "refs s (lg_start l) = 0" and "Suc (card {m. refs s m > 0}) < NBUF"
    and "length (disk s (unat (lg_start l))) = BSIZE" and "get32 (disk s (unat (lg_start l))) 0 = 0"
  shows "\<exists>s' ws. commit s = ret () s' \<and> lg_n (klog s') = 0 \<and> dtrace s' = dtrace s @ ws \<and> disk s' = upds ws (disk s) \<and>
    (\<forall>k r q. quiet q r \<and> (\<forall>b. fresh_buf (bufs r b)) \<and> sb_logstart (sblk r) = lg_start l \<and>
        disk r = upds (take k ws) (disk s) \<longrightarrow>
      (\<exists>r'. initlog ROOTDEV (binit r) = ret () r' \<and> get32 (disk r' (unat (lg_start l))) 0 = 0 \<and>
        (\<forall>b. b < unat (lg_start l) \<or> unat (lg_start l) + N < b \<longrightarrow>
          disk r' b = (if k \<le> N then disk s b
            else upds (map (\<lambda>i. (unat (lg_block l i), store s (lg_block l i))) [0..<N]) (disk s) b))))"
proof -
  define L v h where "L = lg_start l" and "v = (\<lambda>i. store s (lg_block l i))" and "h = header l (disk s (unat L))"
  define A H h0 where "A = map (\<lambda>i. (unat (logblk l i), v i)) [0..<N]" and "H = map (\<lambda>i. (unat (lg_block l i), v i)) [0..<N]"
    and "h0 = header (l\<lparr>lg_n := 0\<rparr>) h"
  define ws where "ws = A @ [(unat L, h)] @ H @ [(unat L, h0)]"
  have n: "0 < N" "lg_n l = int N" using assms(4) by (simp_all add: N_def l_def)
  have sL: "store s L = disk s (unat L)" using clean_ok [OF assms(3)] assms(8) by (simp add: L_def)
  have len: "length A = N" "length H = N" by (simp_all add: A_def H_def)
  obtain s' where s': "commit s = ret () s'" "lg_n (klog s') = 0" "dtrace s' = dtrace s @ ws" "disk s' = upds ws (disk s)"
    using bc.commit_ok [OF assms(3) refl] n(1) assms(6-9) sL
    by (auto simp: ws_def A_def H_def h_def h0_def v_def L_def l_def N_def)
  have sz: "4 * nat (lg_n l) + 4 \<le> length (disk s (unat L))"
    using n assms(5,10) by (simp add: BSIZE_def LOGSIZE_def MAXOPBLOCKS_def L_def)
  have h: "length h = BSIZE" using header_get(2) [OF sz] assms(10) by (simp add: h_def L_def)
  then have h0: "get32 h0 0 = 0" "length h0 = BSIZE"
    using header_get(1,2) [of "l\<lparr>lg_n := 0\<rparr>" h] by (simp_all add: h0_def BSIZE_def)
  have crash: "\<exists>r'. initlog ROOTDEV (binit r) = ret () r' \<and> get32 (disk r' (unat L)) 0 = 0 \<and>
      (\<forall>b. b < unat L \<or> unat L + N < b \<longrightarrow> disk r' b = (if k \<le> N then disk s b else upds H (disk s) b))"
    if r: "quiet q r" "\<And>b. fresh_buf (bufs r b)" "sb_logstart (sblk r) = lg_start l" "disk r = upds (take k ws) (disk s)" for k r q
  proof -
    note lay = assms(6)
    consider "k \<le> N" | "N < k" "k - N - 1 \<le> N" | "2 * N + 2 \<le> k" by linarith
    then show ?thesis
    proof cases
      case 1
      then have D: "disk r = upds (take k A) (disk s)" using r(4) len by (simp add: ws_def)
      note same = crash_before_header [OF lay 1 D [unfolded A_def], folded L_def]
      have "get32 (disk r (unat L)) 0 = 0" "length (disk r (unat L)) = BSIZE"
        using same [of "unat L"] assms(10,11) by (simp_all add: L_def)
      from boot_header_empty [OF r(1,2) r(3) [folded L_def] this] show ?thesis using 1 same by auto
    next
      case 2
      define j where "j = k - N - 1"
      have k: "k = N + Suc j" "j \<le> N" using 2 by (simp_all add: j_def)
      have D: "disk r = upds (take j H) ((upds A (disk s))(unat L := h))" using r(4) len k by (simp add: ws_def)
      note af = crash_after_header [OF lay k(2) D [unfolded A_def H_def L_def], folded L_def]
      have "\<exists>r'. initlog ROOTDEV (binit r) = ret () r' \<and> get32 (disk r' (unat L)) 0 = 0 \<and>
          (\<forall>b. b \<noteq> unat L \<longrightarrow> disk r' b = upds H (disk r) b)"
        unfolding L_def H_def
        by (rule boot_header_full [OF r(1-3) lay n(2) assms(5) assms(10)]) (use af in \<open>simp_all add: h_def L_def\<close>)
      moreover have "upds H (disk r) b = upds H (disk s) b" if "b < unat L \<or> unat L + N < b" for b
      proof (rule upds_same_outside)
        assume "b \<notin> fst ` set H"
        then have "\<forall>i<N. b \<noteq> unat (lg_block l i)" by (force simp: H_def image_iff)
        then show "disk r b = disk s b" using af(3) that by blast
      qed
      ultimately show ?thesis using 2(1) by auto
    next
      case 3
      then have D: "disk r = (upds H ((upds A (disk s))(unat L := h)))(unat L := h0)" using r(4) len by (simp add: ws_def)
      have "disk r b = upds H (disk s) b" if b: "b < unat L \<or> unat L + N < b" for b
      proof -
        have "upds H ((upds A (disk s))(unat L := h)) b = upds H (disk s) b"
        proof (rule upds_same_outside)
          assume "b \<notin> fst ` set H"
          have "b \<notin> fst ` set A" using b unat_logblk [OF lay] by (auto simp: A_def L_def)
          then show "((upds A (disk s))(unat L := h)) b = disk s b" using b by (auto simp: upds_other)
        qed
        then show ?thesis using b by (auto simp: D)
      qed
      moreover have "get32 (disk r (unat L)) 0 = 0" "length (disk r (unat L)) = BSIZE" using h0 by (simp_all add: D)
      from boot_header_empty [OF r(1,2) r(3) [folded L_def] this] show ?thesis using 3 calculation by auto
    qed
  qed
  show ?thesis using s' crash unfolding L_def H_def v_def by blast
qed



section \<open>Witnesses\<close>

text \<open>A transaction that has logged block 40, with the log area at block 2.\<close>

definition sample_log :: klog where
  "sample_log = \<lparr>lg_start = 2, lg_size = 31, lg_outstanding = 1, lg_committing = False, lg_dev = ROOTDEV, lg_n = 0, lg_block = (\<lambda>_. 0)\<rparr>"

theorem log_crash_atomic_witness:
  "\<exists>s s' ws. store s 40 = replicate BSIZE 1 \<and> disk s 40 = replicate BSIZE 0 \<and> commit s = ret () s' \<and> dtrace s' = dtrace s @ ws \<and>
    (\<exists>r'. initlog ROOTDEV (binit (sample_cache\<lparr>sblk := (sblk sample_cache)\<lparr>sb_logstart := 2\<rparr>, disk := upds (take 2 ws) (disk s)\<rparr>)) = ret () r' \<and>
      disk r' 40 = replicate BSIZE 1)"
proof -
  let ?t = "upd_log (\<lambda>_. sample_log) sample_cache"
  obtain b t where t: "bread ROOTDEV 40 ?t = ret b t" "cache_ok 3 [40 \<mapsto> b] t" "store t = store sample_cache"
    "refs t = (refs sample_cache)(40 := 1)" "disk t = disk sample_cache"
    using bread_ok [of 3 Map.empty ?t 40] sample_cache_ok by (auto simp: NBUF_def MAXOPBLOCKS_def)
  define u where "u = upd_log (\<lambda>_. sample_log\<lparr>lg_n := 1, lg_block := (\<lambda>_. 40)\<rparr>) (set_data b (replicate BSIZE 1) t)"
  have u: "cache_ok 3 [40 \<mapsto> b] u" "store u = (store t)(40 := replicate BSIZE 1)" "refs u = refs t" "disk u = disk t"
    using bc.assign [OF t(2), of 40 b "replicate BSIZE 1"] by (simp_all add: u_def)
  obtain v where v: "bpin b u = ret () v" "cache_ok 3 [40 \<mapsto> b] v" "bframe u v" "store v = store u" "refs v = (refs u)(40 := Suc (Suc 0))" "disk v = disk u"
    using bpin_ok [OF u(1), of 40 b] u(3) t(4) by auto
  obtain s where s: "cache_ok 3 Map.empty s" "bframe v s" "store s = store u" "refs s = (refs u)(40 := 1)" "disk s = disk u"
    using brelse_ok [OF v(2), of 40 b] v(4-6) by auto
  have k: "klog s = sample_log\<lparr>lg_n := 1, lg_block := (\<lambda>_. 40)\<rparr>" using bframeD(1) [OF s(2)] bframeD(1) [OF v(3)] by (simp add: u_def)
  have r: "refs s = (\<lambda>n. if n = 40 then 1 else 0)" using s(4) u(3) t(4) sample_cache_ok(2) by auto
  then have c: "{m. 0 < refs s m} = {40}" by auto
  have d: "disk s (unat n) = replicate BSIZE 0" for n :: uint
    using clean_ok [OF sample_cache_ok(1,2), of n] sample_cache_ok(3) s(5) u(4) t(5) by simp
  have q: "quiet 3 (sample_cache\<lparr>sblk := (sblk sample_cache)\<lparr>sb_logstart := 2\<rparr>, disk := D\<rparr>)" for D
    using cache_quiet [OF sample_cache_ok(1)] by (simp add: quiet_def)
  have st: "store s 40 = replicate BSIZE 1" using s(3) u(2) by simp
  have kl: "nat (lg_n (klog s)) = 1" "lg_start (klog s) = 2" "lg_block (klog s) = (\<lambda>_. 40)" by (simp_all add: k sample_log_def)
  have lay: "log_layout (klog s) 1" "pinned (klog s) 0 1 (refs s)"
    by (simp_all add: k r sample_log_def log_layout_def pinned_def logblk_def inj_on_def)
  have "get32 (replicate BSIZE 0) 0 = 0" by (simp add: get32_def BSIZE_def eval_nat_numeral)
  then have "\<exists>s' ws. commit s = ret () s' \<and> lg_n (klog s') = 0 \<and> dtrace s' = dtrace s @ ws \<and> disk s' = upds ws (disk s) \<and>
    (\<forall>k r q. quiet q r \<and> (\<forall>b. fresh_buf (bufs r b)) \<and> sb_logstart (sblk r) = 2 \<and> disk r = upds (take k ws) (disk s) \<longrightarrow>
      (\<exists>r'. initlog ROOTDEV (binit r) = ret () r' \<and> get32 (disk r' (unat (2 :: uint))) 0 = 0 \<and>
        (\<forall>b. b < unat (2 :: uint) \<or> unat (2 :: uint) + 1 < b \<longrightarrow> disk r' b = (if k \<le> 1 then disk s b
            else upds (map (\<lambda>i. (unat (40 :: uint), store s 40)) [0..<1]) (disk s) b))))"
    using d [of 2] c r lay
    by (intro log_crash_atomic [OF s(1), unfolded kl]) (simp_all add: LOGSIZE_def NBUF_def MAXOPBLOCKS_def k sample_log_def)
  then obtain s' ws where w: "commit s = ret () s'" "dtrace s' = dtrace s @ ws" and
    a: "\<And>k r q. quiet q r \<and> (\<forall>b. fresh_buf (bufs r b)) \<and> sb_logstart (sblk r) = 2 \<and> disk r = upds (take k ws) (disk s) \<Longrightarrow>
      (\<exists>r'. initlog ROOTDEV (binit r) = ret () r' \<and> get32 (disk r' (unat (2 :: uint))) 0 = 0 \<and>
        (\<forall>b. b < unat (2 :: uint) \<or> unat (2 :: uint) + 1 < b \<longrightarrow> disk r' b = (if k \<le> 1 then disk s b
            else upds (map (\<lambda>i. (unat (40 :: uint), store s 40)) [0..<1]) (disk s) b)))" by blast
  have "\<exists>r'. initlog ROOTDEV (binit (sample_cache\<lparr>sblk := (sblk sample_cache)\<lparr>sb_logstart := 2\<rparr>, disk := upds (take 2 ws) (disk s)\<rparr>)) = ret () r' \<and>
      disk r' 40 = replicate BSIZE 1"
    using a [of 3 _ 2, OF conjI [OF q]] sample_cache_ok(5) st by fastforce
  then show ?thesis using w d [of 40] st by (intro exI [of _ s] exI [of _ s'] exI [of _ ws]) simp
qed

end
