(* ===== verification/Txn.thy ===== *)
theory Txn
  imports Fs Commit
begin

text \<open>
  The inside of a transaction: what \<^verbatim>\<open>bread\<close>, \<^verbatim>\<open>log_write\<close> and \<^verbatim>\<open>brelse\<close> do between \<^verbatim>\<open>begin_op\<close> and \<^verbatim>\<open>end_op\<close>,
  as an interface for the file system above, and the block allocator of \<^verbatim>\<open>kernel/fs.c\<close> over it.
\<close>

section \<open>What a transaction leaves alone\<close>

definition tframe :: "kstate \<Rightarrow> kstate \<Rightarrow> bool" where
  "tframe s t \<longleftrightarrow> (\<exists>l. bframe (upd_log (\<lambda>_. l) s) t)"

lemma upd_log_twice [simp]: "upd_log (\<lambda>_. l) (upd_log f s) = upd_log (\<lambda>_. l) s" "upd_log (\<lambda>_. klog s) s = s"
  by (simp_all add: upd_log_def)

lemma bframe_upd_log: "bframe s t \<Longrightarrow> bframe (upd_log (\<lambda>_. l) s) (upd_log (\<lambda>_. l) t)"
proof -
  assume "bframe s t"
  then obtain B ps d w where t: "crit t = crit (s\<lparr>bufs := B, procs := ps, disk := d, dtrace := w\<rparr>)"
    and ps: "\<forall>i. ps i = procs s i \<or> ps i = (procs s i)\<lparr>p_state := RUNNABLE\<rparr>"
    unfolding bframe_def by blast
  have "crit (t\<lparr>klog := l\<rparr>) = crit (s\<lparr>klog := l, bufs := B, procs := ps, disk := d, dtrace := w\<rparr>)"
    unfolding arg_cong [OF t, of "\<lambda>s. s\<lparr>klog := l\<rparr>", unfolded crit_update]
    by (rule arg_cong [where f = crit], rule kstate.equality) simp_all
  with ps show ?thesis unfolding bframe_def upd_log_def by (intro exI) auto
qed

lemma tframe_trans [trans]: "tframe s t \<Longrightarrow> tframe t u \<Longrightarrow> tframe s u"
proof -
  assume "tframe s t" "tframe t u"
  then obtain l l' where f: "bframe (upd_log (\<lambda>_. l) s) t" "bframe (upd_log (\<lambda>_. l') t) u" by (auto simp: tframe_def)
  from bframe_trans [OF bframe_upd_log [OF f(1), of l'] f(2)] show ?thesis by (auto simp: tframe_def)
qed

lemma bframe_tframe: "bframe s t \<Longrightarrow> tframe s t"
  unfolding tframe_def by (metis upd_log_twice(2))

lemma tframe_refl [simp]: "tframe s s"
  by (rule bframe_tframe) (rule bframe_refl)

lemma tframeD:
  assumes "tframe s t"
  shows "sblk t = sblk s" "inodes t = inodes s" "mem t = mem s" "files t = files s" "freelist t = freelist s" "tframes t = tframes s"
    "locks t = locks s" "harts t = harts s" "tp t = tp s" "panicked t = panicked s" "kernel_pagetable t = kernel_pagetable s"
    "cpu_proc (mycpu t) = cpu_proc (mycpu s)" "p_pid (procs t i) = p_pid (procs s i)" "p_pagetable (procs t i) = p_pagetable (procs s i)"
    "p_kstack (procs t i) = p_kstack (procs s i)" "p_sz (procs t i) = p_sz (procs s i)"
    "pr_locking t = pr_locking s" "syms t = syms s" "devsw t = devsw s" "pipes t = pipes s" "initproc t = initproc s"
proof -
  obtain l where "bframe (upd_log (\<lambda>_. l) s) t" using assms unfolding tframe_def by blast
  then obtain B ps d w where t: "crit t = crit ((s\<lparr>klog := l\<rparr>)\<lparr>bufs := B, procs := ps, disk := d, dtrace := w\<rparr>)"
    and ps: "\<forall>i. ps i = procs s i \<or> ps i = (procs s i)\<lparr>p_state := RUNNABLE\<rparr>"
    unfolding bframe_def upd_log_def by auto
  show "sblk t = sblk s" "inodes t = inodes s" "mem t = mem s" "files t = files s" "freelist t = freelist s" "tframes t = tframes s"
    "locks t = locks s" "harts t = harts s" "tp t = tp s" "panicked t = panicked s" "kernel_pagetable t = kernel_pagetable s"
    "cpu_proc (mycpu t) = cpu_proc (mycpu s)" "pr_locking t = pr_locking s" "syms t = syms s" "devsw t = devsw s" "pipes t = pipes s"
    "initproc t = initproc s"
    using arg_cong [OF t, of pr_locking] arg_cong [OF t, of syms] arg_cong [OF t, of devsw] arg_cong [OF t, of pipes]
      arg_cong [OF t, of initproc] arg_cong [OF t, of sblk] arg_cong [OF t, of inodes] arg_cong [OF t, of mem] arg_cong [OF t, of files]
      arg_cong [OF t, of freelist] arg_cong [OF t, of tframes] arg_cong [OF t, of locks] arg_cong [OF t, of harts]
      arg_cong [OF t, of tp] arg_cong [OF t, of panicked] arg_cong [OF t, of kernel_pagetable]
      arg_cong [OF t, of "\<lambda>s. cpu_proc (mycpu s)"] by simp_all
  have "procs t i = ps i" using arg_cong [OF t, of procs] by simp
  then show "p_pid (procs t i) = p_pid (procs s i)" "p_pagetable (procs t i) = p_pagetable (procs s i)"
    "p_kstack (procs t i) = p_kstack (procs s i)" "p_sz (procs t i) = p_sz (procs s i)"
    using ps [rule_format, of i] by auto
qed

section \<open>Logging a block\<close>

definition entries :: "klog \<Rightarrow> uint list" where
  "entries l = map (lg_block l) [0..<nat (lg_n l)]"

lemma log_find_absent: "x \<notin> f ` {i..<i + n} \<Longrightarrow> log_find n i f x = i + n"
  by (induction n arbitrary: i) (force simp: image_iff)+

lemma log_find_present: "x \<in> f ` {i..<i + n} \<Longrightarrow> log_find n i f x < i + n \<and> f (log_find n i f x) = x"
proof (induction n arbitrary: i)
  case (Suc n)
  show ?case
  proof (cases "f i = x")
    case False
    then have "x \<in> f ` {Suc i..<Suc i + n}" using Suc.prems by (auto simp: image_iff) (metis Suc_leI atLeastLessThan_iff le_neq_implies_less)
    from Suc.IH [OF this] False show ?thesis by simp
  qed simp
qed simp

lemma bpin_eq:
  assumes "cpu_ok s" and "lock_free BcacheLock s"
  shows "bpin b s = ret () (crit (s\<lparr>bufs := (bufs s)(b := (bufs s b)\<lparr>b_refcnt := b_refcnt (bufs s b) + 1\<rparr>)\<rparr>))"
  using assms by (simp add: bpin_def upd_buf_def)

lemma log_write_eq:
  assumes "quiet p s" and "0 \<le> lg_n (klog s)" and "lg_n (klog s) < int LOGSIZE" and "lg_n (klog s) < lg_size (klog s) - 1"
    and "1 \<le> lg_outstanding (klog s)" and "x = b_blockno (bufs s b)"
  shows "log_write b s =
    (if x \<in> set (entries (klog s)) then ret () (crit s)
     else bindE (bpin b s) (\<lambda>_ s. ret () (upd_log (\<lambda>l. l\<lparr>lg_block := (lg_block l)(nat (lg_n l) := x), lg_n := lg_n l + 1\<rparr>) s)))"
proof -
  have q: "cpu_ok s" "lock_free LogLock s" "lock_free BcacheLock s" using assms(1) by (simp_all add: quiet_def)
  have g: "\<not> (int LOGSIZE \<le> lg_n (klog s) \<or> lg_size (klog s) - 1 \<le> lg_n (klog s))" "\<not> lg_outstanding (klog s) < 1"
    using assms by auto
  define i where "i = log_find (nat (lg_n (klog s))) 0 (lg_block (klog s)) x"
  have w: "log_write b s = (let s = upd_log (\<lambda>l. l\<lparr>lg_block := (lg_block l)(i := x)\<rparr>) (locked_in LogLock s)
      in if int i = lg_n (klog s)
         then bindE (bpin b s) (\<lambda>_ s. release LogLock (upd_log (\<lambda>l. l\<lparr>lg_n := lg_n l + 1\<rparr>) s))
         else release LogLock s)"
    using q g by (simp add: log_write_def i_def assms(6) Let_def)
  show ?thesis
  proof (cases "x \<in> set (entries (klog s))")
    case True
    then have "x \<in> lg_block (klog s) ` {0..<0 + nat (lg_n (klog s))}" by (auto simp: entries_def)
    note f = log_find_present [OF this, folded i_def]
    then have "(lg_block (klog s))(i := x) = lg_block (klog s)" "int i \<noteq> lg_n (klog s)" by (auto simp: fun_upd_idem)
    then have "log_write b s = release LogLock (locked_in LogLock s)" unfolding w by (simp add: upd_log_def Let_def)
    then show ?thesis using q True by simp
  next
    case False
    then have "x \<notin> lg_block (klog s) ` {0..<0 + nat (lg_n (klog s))}" by (auto simp: entries_def)
    note i = log_find_absent [OF this, folded i_def, unfolded add_0]
    have "log_write b s = bindE (bpin b (upd_log (\<lambda>l. l\<lparr>lg_block := (lg_block l)(nat (lg_n l) := x)\<rparr>) (locked_in LogLock s)))
        (\<lambda>_ s. release LogLock (upd_log (\<lambda>l. l\<lparr>lg_n := lg_n l + 1\<rparr>) s))"
      unfolding w i using assms(2) by (simp add: upd_log_def Let_def)
    also have "\<dots> = bindE (bpin b s) (\<lambda>_ s. ret () (upd_log (\<lambda>l. l\<lparr>lg_block := (lg_block l)(nat (lg_n l) := x), lg_n := lg_n l + 1\<rparr>) s))"
      using q by (simp add: upd_log_def bpin_eq)
    finally show ?thesis using False by simp
  qed
qed

lemma entries_add: "0 \<le> lg_n l \<Longrightarrow> entries (l\<lparr>lg_block := (lg_block l)(nat (lg_n l) := x), lg_n := lg_n l + 1\<rparr>) = entries l @ [x]"
  by (simp add: entries_def nat_add_distrib)

lemma cache_crit: "cache_ok p h s \<Longrightarrow> cache_ok p h (crit s) \<and> store (crit s) = store s \<and> refs (crit s) = refs s \<and> bframe s (crit s)"
  by (auto simp: cache_ok_def quiet_def store_def refs_def buf_ring_def nexts_def prevs_def intro!: bframeI [where B = "bufs s" and ps = "procs s" and d = "disk s" and w = "dtrace s"])

lemma held_blockno: "cache_ok p h s \<Longrightarrow> h n = Some b \<Longrightarrow> b_blockno (bufs s b) = n"
  by (auto simp: cache_ok_def bufs_ok_def)

text \<open>Logging a block in hand: the first time it is added to the log and pinned, later nothing changes.\<close>

lemma log_write_ok:
  assumes "cache_ok p h s" and "h n = Some b" and "0 \<le> lg_n (klog s)" and "lg_n (klog s) < int LOGSIZE"
    and "lg_n (klog s) < lg_size (klog s) - 1" and "1 \<le> lg_outstanding (klog s)" and "refs s n < 2 ^ 32 - 1"
  shows "\<exists>s'. log_write b s = ret () s' \<and> cache_ok p h s' \<and> tframe s s' \<and> store s' = store s \<and> disk s' = disk s \<and> dtrace s' = dtrace s \<and>
    lg_outstanding (klog s') = lg_outstanding (klog s) \<and> lg_size (klog s') = lg_size (klog s) \<and>
    lg_n (klog s') = lg_n (klog s) + of_bool (n \<notin> set (entries (klog s))) \<and>
    entries (klog s') = entries (klog s) @ (if n \<in> set (entries (klog s)) then [] else [n]) \<and>
    refs s' = (refs s)(n := refs s n + of_bool (n \<notin> set (entries (klog s))))"
proof -
  note eq = log_write_eq [OF cache_quiet [OF assms(1)] assms(3-6) held_blockno [OF assms(1,2), symmetric]]
  show ?thesis
  proof (cases "n \<in> set (entries (klog s))")
    case True
    then show ?thesis using eq cache_crit [OF assms(1)] bframe_tframe [of s "crit s"] by simp
  next
    case False
    obtain t where t: "bpin b s = ret () t" "cache_ok p h t" "bframe s t" "store t = store s"
      "refs t = (refs s)(n := Suc (refs s n))" "disk t = disk s" "dtrace t = dtrace s"
      using bpin_ok [OF assms(1,2,7)] by blast
    have "tframe s (upd_log f t)" for f
      using bframe_upd_log [OF t(3)] unfolding tframe_def by (metis upd_log_def)
    then show ?thesis using t eq False bframeD(1) [OF t(3)] assms(3) by (simp add: entries_add)
  qed
qed


section \<open>The state inside a transaction\<close>

text \<open>
  With \<open>h\<close> the blocks in the hands of the process: the log lists no block twice, the references are one
  for each logged block and one for each held block, and a block that is not logged has its content
  on the disk. \<open>room k\<close>: \<open>k\<close> more blocks can be logged, with two buffers left for reading.
\<close>

definition in_tx :: "nat \<Rightarrow> (uint \<rightharpoonup> nat) \<Rightarrow> kstate \<Rightarrow> bool" where
  "in_tx p h s \<longleftrightarrow> cache_ok p h s \<and> 0 \<le> lg_n (klog s) \<and> 1 \<le> lg_outstanding (klog s) \<and> distinct (entries (klog s)) \<and>
    refs s = (\<lambda>n. of_bool (n \<in> set (entries (klog s))) + of_bool (h n \<noteq> None)) \<and>
    (\<forall>n. n \<notin> set (entries (klog s)) \<longrightarrow> store s n = disk s (unat n))"

definition room :: "nat \<Rightarrow> kstate \<Rightarrow> bool" where
  "room k s \<longleftrightarrow> lg_n (klog s) + int k \<le> int LOGSIZE \<and> lg_n (klog s) + int k < lg_size (klog s) \<and> lg_n (klog s) + int k + 2 \<le> int NBUF"

lemma in_txD:
  assumes "in_tx p h s"
  shows "cache_ok p h s" "0 \<le> lg_n (klog s)" "1 \<le> lg_outstanding (klog s)" "distinct (entries (klog s))"
    "refs s n = of_bool (n \<in> set (entries (klog s))) + of_bool (h n \<noteq> None)"
    "n \<notin> set (entries (klog s)) \<Longrightarrow> store s n = disk s (unat n)"
  using assms by (simp_all add: in_tx_def)

lemma length_entries: "0 \<le> lg_n l \<Longrightarrow> int (length (entries l)) = lg_n l"
  by (simp add: entries_def)

lemma tx_data: "in_tx p h s \<Longrightarrow> h n = Some b \<Longrightarrow> b_data (bufs s b) = store s n"
  by (rule held_data [OF in_txD(1)])

lemma tx_get:
  assumes "in_tx p h s" and "h n = None" and "dom h \<subseteq> {m}" and "room 0 s"
  shows "\<exists>b t. bread ROOTDEV n s = ret b t \<and> in_tx p (h(n \<mapsto> b)) t \<and> store t = store s \<and> klog t = klog s \<and> disk t = disk s \<and>
    dtrace t = dtrace s \<and> tframe s t"
proof -
  note tx = in_txD [OF assms(1)]
  let ?E = "set (entries (klog s))"
  have "{m. refs s m > 0} = ?E \<union> dom h" by (auto simp: tx(5))
  moreover have "card (?E \<union> dom h) \<le> card ?E + card (dom h)" by (rule card_Un_le)
  moreover have "int (card ?E) \<le> lg_n (klog s)" using card_length [of "entries (klog s)"] length_entries [OF tx(2)] by simp
  moreover have "card (dom h) \<le> 1" using card_mono [OF _ assms(3)] by simp
  ultimately have "card {m. refs s m > 0} < NBUF" using assms(4) by (simp add: room_def)
  moreover have "refs s n < 2 ^ 32 - 1" using assms(2) by (simp add: tx(5))
  ultimately obtain b t where t: "bread ROOTDEV n s = ret b t" "cache_ok p (h(n \<mapsto> b)) t" "bframe s t" "store t = store s"
    "refs t = (refs s)(n := Suc (refs s n))" "disk t = disk s" "dtrace t = dtrace s"
    using bread_ok [OF tx(1) assms(2)] by blast
  have "in_tx p (h(n \<mapsto> b)) t"
    unfolding in_tx_def bframeD(1) [OF t(3)] using t tx(2-4,6) assms(2) by (auto simp: tx(5) fun_eq_iff)
  then show ?thesis using t bframeD(1) [OF t(3)] bframe_tframe by blast
qed

lemma tx_put:
  assumes "in_tx p h s" and "h n = Some b"
  shows "\<exists>t. brelse b s = ret () t \<and> in_tx p (h(n := None)) t \<and> store t = store s \<and> klog t = klog s \<and> disk t = disk s \<and>
    dtrace t = dtrace s \<and> tframe s t"
proof -
  note tx = in_txD [OF assms(1)]
  have "refs s n = 1 \<Longrightarrow> store s n = disk s (unat n)" using assms(2) tx(6) by (simp add: tx(5))
  then obtain t where t: "brelse b s = ret () t" "cache_ok p (h(n := None)) t" "bframe s t" "store t = store s"
    "refs t = (refs s)(n := refs s n - 1)" "disk t = disk s" "dtrace t = dtrace s"
    using brelse_ok [OF tx(1) assms(2)] by blast
  have "in_tx p (h(n := None)) t"
    unfolding in_tx_def bframeD(1) [OF t(3)] using t tx(2-4,6) assms(2) by (auto simp: tx(5) fun_eq_iff)
  then show ?thesis using t bframeD(1) [OF t(3)] bframe_tframe by blast
qed

lemma tx_log:
  assumes "in_tx p h s" and "h n = Some b" and "room (Suc k) s"
  shows "\<exists>t. log_write b (set_data b d s) = ret () t \<and> in_tx p h t \<and> store t = (store s)(n := d) \<and> room k t \<and> disk t = disk s \<and>
    dtrace t = dtrace s \<and> entries (klog t) = entries (klog s) @ (if n \<in> set (entries (klog s)) then [] else [n]) \<and> tframe s t"
proof -
  note tx = in_txD [OF assms(1)]
  let ?E = "set (entries (klog s))"
  define u where "u = set_data b d s"
  have u: "cache_ok p h u" "bframe s u" "store u = (store s)(n := d)" "refs u = refs s" "disk u = disk s" "dtrace u = dtrace s"
    using bc.assign [OF tx(1) assms(2), of d] by (simp_all add: u_def)
  have k: "klog u = klog s" using bframeD(1) [OF u(2)] .
  have r: "refs u n < 2 ^ 32 - 1" using assms(2) u(4) by (simp add: tx(5))
  obtain t where t: "log_write b u = ret () t" "cache_ok p h t" "tframe u t" "store t = store u" "disk t = disk u" "dtrace t = dtrace u"
    "lg_outstanding (klog t) = lg_outstanding (klog s)" "lg_size (klog t) = lg_size (klog s)"
    "lg_n (klog t) = lg_n (klog s) + of_bool (n \<notin> ?E)" "entries (klog t) = entries (klog s) @ (if n \<in> ?E then [] else [n])"
    "refs t = (refs u)(n := refs u n + of_bool (n \<notin> ?E))"
    using log_write_ok [OF u(1) assms(2) _ _ _ _ r] tx(2,3) assms(3) unfolding k by (auto simp: room_def)
  have "in_tx p h t"
    unfolding in_tx_def using t u(3-5) tx(2-4,6) assms(2) by (auto simp: tx(5) fun_eq_iff)
  moreover have "room k t" using assms(3) t(8,9) by (auto simp: room_def)
  ultimately show ?thesis using t u tframe_trans [OF bframe_tframe [OF u(2)] t(3)] by (simp add: u_def)
qed

text \<open>Changes that do not concern the transaction: to inodes, memory, the console's output and saved flags.\<close>

definition aside :: "kstate \<Rightarrow> kstate \<Rightarrow> bool" where
  "aside s t \<longleftrightarrow> crit t = crit (s\<lparr>inodes := inodes t, mem := mem t, uart_out := uart_out t, uart_lsr := uart_lsr t\<rparr>)"

lemma cache_ok_crit: "cache_ok p h (crit s) = cache_ok p h s" "store (crit s) = store s" "refs (crit s) = refs s"
  by (simp_all add: cache_ok_def quiet_def store_def refs_def buf_ring_def nexts_def prevs_def)

lemma cache_ok_aside:
  "cache_ok p h (s\<lparr>inodes := i, mem := m, uart_out := ou, uart_lsr := ls\<rparr>) = cache_ok p h s"
  "store (s\<lparr>inodes := i, mem := m, uart_out := ou, uart_lsr := ls\<rparr>) = store s"
  "refs (s\<lparr>inodes := i, mem := m, uart_out := ou, uart_lsr := ls\<rparr>) = refs s"
  by (simp_all add: cache_ok_def quiet_def store_def refs_def buf_ring_def nexts_def prevs_def)

lemma aside_same:
  assumes "aside s t"
  shows "cache_ok p h t = cache_ok p h s" "store t = store s" "refs t = refs s" "klog t = klog s" "disk t = disk s"
proof -
  note c = assms [unfolded aside_def]
  show "cache_ok p h t = cache_ok p h s" by (metis cache_ok_aside(1) cache_ok_crit(1) c)
  show "store t = store s" by (metis cache_ok_aside(2) cache_ok_crit(2) c)
  show "refs t = refs s" by (metis cache_ok_aside(3) cache_ok_crit(3) c)
  show "klog t = klog s" "disk t = disk s" using arg_cong [OF c, of klog] arg_cong [OF c, of disk] by simp_all
qed

lemma in_tx_aside: "aside s t \<Longrightarrow> in_tx p h t = in_tx p h s \<and> store t = store s \<and> room k t = room k s"
  by (simp add: in_tx_def room_def aside_same)

text \<open>
  The interface the file system uses: get a block, log a new content of it, put it back, all in memory.
\<close>

locale logged_blocks =
  fixes tx :: "nat \<Rightarrow> (uint \<rightharpoonup> nat) \<Rightarrow> kstate \<Rightarrow> bool"
    and content :: "kstate \<Rightarrow> uint \<Rightarrow> block"
    and left :: "nat \<Rightarrow> kstate \<Rightarrow> bool"
  assumes get: "tx p h s \<Longrightarrow> h n = None \<Longrightarrow> dom h \<subseteq> {m} \<Longrightarrow> left k s \<Longrightarrow>
      \<exists>b t. bread ROOTDEV n s = ret b t \<and> tx p (h(n \<mapsto> b)) t \<and> content t = content s \<and> left k t \<and> tframe s t"
    and look: "tx p h s \<Longrightarrow> h n = Some b \<Longrightarrow> b_data (bufs s b) = content s n"
    and log: "tx p h s \<Longrightarrow> h n = Some b \<Longrightarrow> left (Suc k) s \<Longrightarrow>
      \<exists>t. log_write b (set_data b d s) = ret () t \<and> tx p h t \<and> content t = (content s)(n := d) \<and> left k t \<and> tframe s t"
    and put: "tx p h s \<Longrightarrow> h n = Some b \<Longrightarrow> left k s \<Longrightarrow>
      \<exists>t. brelse b s = ret () t \<and> tx p (h(n := None)) t \<and> content t = content s \<and> left k t \<and> tframe s t"
    and other: "aside s t \<Longrightarrow> tx p h t = tx p h s \<and> content t = content s \<and> left k t = left k s"
    and idle: "tx p h s \<Longrightarrow> quiet p s"

lemma room_log: "klog t = klog s \<Longrightarrow> room k t = room k s"
  by (simp add: room_def)

lemma room_less: "room k s \<Longrightarrow> room 0 s"
  by (simp add: room_def)

lemma in_tx_get:
  assumes "in_tx p h s" "h n = None" "dom h \<subseteq> {m}" "room k s"
  shows "\<exists>b t. bread ROOTDEV n s = ret b t \<and> in_tx p (h(n \<mapsto> b)) t \<and> store t = store s \<and> room k t \<and> tframe s t"
proof -
  obtain b t where "bread ROOTDEV n s = ret b t" "in_tx p (h(n \<mapsto> b)) t" "store t = store s" "klog t = klog s" "tframe s t"
    using tx_get [OF assms(1-3) room_less [OF assms(4)]] by blast
  then show ?thesis using assms(4) by (intro exI [of _ b] exI [of _ t]) (simp add: room_log [of t s k])
qed

lemma in_tx_log:
  assumes "in_tx p h s" "h n = Some b" "room (Suc k) s"
  shows "\<exists>t. log_write b (set_data b d s) = ret () t \<and> in_tx p h t \<and> store t = (store s)(n := d) \<and> room k t \<and> tframe s t"
  using tx_log [OF assms, of d] by blast

lemma in_tx_put:
  assumes "in_tx p h s" "h n = Some b" "room k s"
  shows "\<exists>t. brelse b s = ret () t \<and> in_tx p (h(n := None)) t \<and> store t = store s \<and> room k t \<and> tframe s t"
proof -
  obtain t where "brelse b s = ret () t" "in_tx p (h(n := None)) t" "store t = store s" "klog t = klog s" "tframe s t"
    using tx_put [OF assms(1,2)] by blast
  then show ?thesis using assms(3) by (intro exI [of _ t]) (simp add: room_log [of t s k])
qed

interpretation tb: logged_blocks in_tx store room
  by unfold_locales (fact in_tx_get in_tx_log in_tx_put tx_data in_tx_aside cache_quiet [OF in_txD(1)])+


context logged_blocks
begin

text \<open>Getting one block, and putting it back unchanged or with a new content.\<close>

lemma access:
  assumes "tx p h s" and "h n = None" and "dom h \<subseteq> {m}" and "left (Suc k) s"
  shows "\<exists>b t. bread ROOTDEV n s = ret b t \<and> b_data (bufs t b) = content s n \<and> tframe s t \<and>
    (\<exists>u. brelse b t = ret () u \<and> tx p h u \<and> content u = content s \<and> left (Suc k) u \<and> tframe s u) \<and>
    (\<forall>d. \<exists>v u. log_write b (set_data b d t) = ret () v \<and> brelse b v = ret () u \<and> tx p h u \<and> content u = (content s)(n := d) \<and>
      left k u \<and> tframe s u)"
proof -
  obtain b t where t: "bread ROOTDEV n s = ret b t" "tx p (h(n \<mapsto> b)) t" "content t = content s" "left (Suc k) t" "tframe s t"
    using get [OF assms] by blast
  have h: "h(n \<mapsto> b, n := None) = h" "(h(n \<mapsto> b)) n = Some b" using assms(2) by auto
  have "\<exists>v u. log_write b (set_data b d t) = ret () v \<and> brelse b v = ret () u \<and> tx p h u \<and> content u = (content s)(n := d) \<and>
      left k u \<and> tframe s u" for d
  proof -
    obtain v where v: "log_write b (set_data b d t) = ret () v" "tx p (h(n \<mapsto> b)) v" "content v = (content s)(n := d)" "left k v" "tframe t v"
      using log [OF t(2) h(2) t(4), of d] unfolding t(3) by blast
    obtain u where u: "brelse b v = ret () u" "tx p h u" "content u = content v" "left k u" "tframe v u"
      using put [OF v(2) h(2) v(4)] unfolding h(1) by blast
    from u v(1,3) tframe_trans [OF tframe_trans [OF t(5) v(5)] u(5)] show ?thesis by auto
  qed
  moreover obtain u where u: "brelse b t = ret () u" "tx p h u" "content u = content s" "left (Suc k) u" "tframe t u"
    using put [OF t(2) h(2) t(4)] unfolding h(1) t(3) by blast
  ultimately show ?thesis using t(1,3,5) look [OF t(2) h(2)] tframe_trans [OF t(5) u(5)]
    by (intro exI [of _ b] exI [of _ t]) auto
qed

end

section \<open>Properties\<close>

text \<open>
  C6: Inside a transaction, changing a block by \<^verbatim>\<open>bread\<close>, a modification of its data, \<^verbatim>\<open>log_write\<close> and
  \<^verbatim>\<open>brelse\<close> changes what the file system reads there and nothing on the disk; the block is in the log
  afterwards, once, however often it is changed, and pinned in the cache exactly as long as it is
  logged; every block that is not logged has its content on the disk.
\<close>

theorem logged_update:
  assumes "in_tx p h s" and "h n = None" and "dom h \<subseteq> {m}" and "room (Suc k) s"
  shows "\<exists>s'. bindE (bread ROOTDEV n s) (\<lambda>b s. bindE (log_write b (set_data b (f (b_data (bufs s b))) s)) (\<lambda>_ s. brelse b s)) = ret () s' \<and>
    in_tx p h s' \<and> room k s' \<and> store s' = (store s)(n := f (store s n)) \<and> disk s' = disk s \<and> dtrace s' = dtrace s \<and>
    entries (klog s') = entries (klog s) @ (if n \<in> set (entries (klog s)) then [] else [n])"
proof -
  obtain b t where t: "bread ROOTDEV n s = ret b t" "in_tx p (h(n \<mapsto> b)) t" "store t = store s" "klog t = klog s" "disk t = disk s" "dtrace t = dtrace s"
    using tx_get [OF assms(1-3) room_less [OF assms(4)]] by blast
  have h: "(h(n \<mapsto> b)) n = Some b" "h(n \<mapsto> b, n := None) = h" using assms(2) by auto
  have r: "room (Suc k) t" using assms(4) t(4) by (simp add: room_def)
  obtain v where v: "log_write b (set_data b (f (b_data (bufs t b))) t) = ret () v" "in_tx p (h(n \<mapsto> b)) v"
    "store v = (store t)(n := f (b_data (bufs t b)))" "room k v" "disk v = disk t" "dtrace v = dtrace t"
    "entries (klog v) = entries (klog t) @ (if n \<in> set (entries (klog t)) then [] else [n])"
    using tx_log [OF t(2) h(1) r] by blast
  obtain u where u: "brelse b v = ret () u" "in_tx p h u" "store u = store v" "klog u = klog v" "disk u = disk v" "dtrace u = dtrace v"
    using tx_put [OF v(2) h(1)] unfolding h(2) by blast
  have "room k u" using v(4) u(4) by (simp add: room_def)
  then show ?thesis using t v u tx_data [OF t(2) h(1)] by (intro exI [of _ u]) simp
qed

section \<open>Witnesses\<close>

lemma sample_tx: "in_tx 3 Map.empty (upd_log (\<lambda>_. sample_log) sample_cache)" "room 20 (upd_log (\<lambda>_. sample_log) sample_cache)"
  using clean_ok [OF sample_cache_ok(1,2)]
  by (auto simp: in_tx_def room_def sample_cache_ok sample_log_def entries_def LOGSIZE_def NBUF_def MAXOPBLOCKS_def)

theorem logged_update_witness:
  "\<exists>s'. bindE (bread ROOTDEV 40 (upd_log (\<lambda>_. sample_log) sample_cache)) (\<lambda>b s.
      bindE (log_write b (set_data b (map (\<lambda>x. x + 1) (b_data (bufs s b))) s)) (\<lambda>_ s. brelse b s)) = ret () s' \<and>
    in_tx 3 Map.empty s' \<and> store s' 40 = replicate BSIZE 1 \<and> disk s' 40 = replicate BSIZE 0 \<and> entries (klog s') = [40]"
proof -
  have "room (Suc 19) (upd_log (\<lambda>_. sample_log) sample_cache)" using sample_tx(2) by simp
  from logged_update [where n = 40 and f = "map (\<lambda>x. x + 1)", OF sample_tx(1) _ _ this] clean_ok [OF sample_cache_ok(1,2), of 40] show ?thesis
    by (auto simp: sample_cache_ok sample_log_def entries_def)
qed

end
