(* ===== verification/Blocks.thy ===== *)
theory Blocks
  imports Txn
begin

text \<open>
  The block allocator of \<^verbatim>\<open>kernel/fs.c\<close> inside a transaction: \<^verbatim>\<open>balloc\<close> and \<^verbatim>\<open>bfree\<close> refine the set of blocks in
  use, which the bitmap blocks of the disk encode.
\<close>

section \<open>Bitmap blocks\<close>

definition used :: "block \<Rightarrow> nat \<Rightarrow> bool" where
  "used d i \<longleftrightarrow> bit (d ! (i div 8)) (i mod 8)"

lemma bit_bmask: "bit (bmask i) k \<longleftrightarrow> k = i mod 8"
  by (auto simp: bmask_def bit_simps)

lemma bmask_test: "x AND bmask i = 0 \<longleftrightarrow> \<not> bit x (i mod 8)"
  by (simp add: bmask_def push_bit_of_1 and_exp_eq_0_iff_not_bit)

lemma bit_index_eq: "i div 8 = j div 8 \<Longrightarrow> i mod 8 = j mod 8 \<longleftrightarrow> i = j" for i j :: nat
  by (metis div_mult_mod_eq)

lemma used_set:
  assumes "i < 8 * length d"
  shows "used (d[i div 8 := d ! (i div 8) OR bmask i]) j \<longleftrightarrow> j = i \<or> used d j"
    and "used (d[i div 8 := d ! (i div 8) AND NOT (bmask i)]) j \<longleftrightarrow> j \<noteq> i \<and> used d j"
proof -
  have l: "i div 8 < length d" using assms by simp
  have m: "j mod 8 < 8" by simp
  show "used (d[i div 8 := d ! (i div 8) OR bmask i]) j \<longleftrightarrow> j = i \<or> used d j"
    "used (d[i div 8 := d ! (i div 8) AND NOT (bmask i)]) j \<longleftrightarrow> j \<noteq> i \<and> used d j"
    by (cases "j div 8 = i div 8"; use l m bit_index_eq [of j i] in \<open>auto simp: used_def bit_or_iff bit_and_iff bit_not_iff bit_bmask\<close>)+
qed

lemma balloc_scan_eq:
  "balloc_scan n bi b sz d = find (\<lambda>i. \<not> used d i) [bi..<min (bi + n) (sz - b)]"
proof (induction n arbitrary: bi)
  case (Suc n)
  show ?case
  proof (cases "b + bi < sz")
    case True
    then have "[bi..<min (bi + Suc n) (sz - b)] = bi # [bi + 1..<min (bi + 1 + n) (sz - b)]"
      by (subst upt_conv_Cons) auto
    with True Suc show ?thesis by (simp add: bmask_test used_def)
  next
    case False
    then have "[bi..<min (bi + Suc n) (sz - b)] = []" by auto
    with False show ?thesis by simp
  qed
qed simp

text \<open>The block numbers in use, by the contents of the blocks.\<close>

definition in_use :: "superblock \<Rightarrow> (uint \<Rightarrow> block) \<Rightarrow> nat \<Rightarrow> bool" where
  "in_use sb c x \<longleftrightarrow> used (c (BBLOCK (of_nat x) sb)) (x mod BPB)"

lemma BBLOCK_same:
  assumes "b mod BPB = 0" and "i < BPB" and "b + i < 2 ^ 32"
  shows "BBLOCK (of_nat (b + i)) sb = BBLOCK (of_nat b) sb" and "(b + i) mod BPB = i"
proof -
  have "of_nat (b + i) div (of_nat BPB :: uint) = of_nat ((b + i) div BPB)" "of_nat b div (of_nat BPB :: uint) = of_nat (b div BPB)"
    using assms(3) by (simp_all add: word_arith_nat_div unat_of_nat take_bit_nat_eq_self BPB_def BSIZE_def del: of_nat_add)
  moreover have "(b + i) div BPB = b div BPB" using assms(1,2) by auto
  ultimately show "BBLOCK (of_nat (b + i)) sb = BBLOCK (of_nat b) sb" by (simp add: BBLOCK_def)
  show "(b + i) mod BPB = i" using assms(1,2) by (simp add: mod_add_left_eq [symmetric])
qed


section \<open>The allocator over logged blocks\<close>

lemma find_app: "find P (xs @ ys) = (case find P xs of None \<Rightarrow> find P ys | Some x \<Rightarrow> Some x)"
  by (induction xs) auto

lemma find_mapped: "find P (map f xs) = map_option f (find (\<lambda>x. P (f x)) xs)"
  by (induction xs) auto

lemma find_congr: "(\<And>x. x \<in> set xs \<Longrightarrow> P x = Q x) \<Longrightarrow> find P xs = find Q xs"
  by (induction xs) auto

lemma upt_split: "[b..<min sz (b + (k + l))] = map ((+) b) [0..<min k (sz - b)] @ [b + k..<min sz (b + k + l)]" for b :: nat
proof -
  have "map ((+) b) [0..<min k (sz - b)] = [b..<b + min k (sz - b)]"
    by (rule nth_equalityI) auto
  moreover have "[b..<min sz (b + (k + l))] = [b..<b + min k (sz - b)] @ [b + k..<min sz (b + k + l)]"
  proof (cases "b + k \<le> sz")
    case True
    then show ?thesis using upt_add_eq_append [of b "b + k" "min sz (b + k + l) - (b + k)"] by (simp add: min_def ac_simps)
  qed (cases "b \<le> sz"; simp add: min_def)
  ultimately show ?thesis by simp
qed

text \<open>The contents after block \<open>x\<close> is taken: its bit set and the block zeroed.\<close>

definition taken :: "superblock \<Rightarrow> nat \<Rightarrow> (uint \<Rightarrow> block) \<Rightarrow> uint \<Rightarrow> block" where
  "taken sb x c = (let B = BBLOCK (of_nat x) sb; i = x mod BPB
     in c(B := (c B)[i div 8 := c B ! (i div 8) OR bmask i], of_nat x := replicate BSIZE 0))"

lemma printf_balloc:
  assumes "quiet p s" and "\<not> panicked s" and "pr_locking s"
  shows "\<exists>bs. printf (''balloc: out of blocks'' @ [CHR 0x0A]) [] s = ret 0 (crit (emits bs s))"
proof -
  have q: "cpu_ok s" "lock_free PrLock s" using assms(1) by (simp_all add: quiet_def)
  have ch: "consputc c u = ret () (emits [word_of_int c] u)" if "calm u" "0 \<le> c" "c < 256" for c u
    using consputc_calm [OF that(1), of c] that by simp
  have "printf_loop (length (''balloc: out of blocks'' @ [CHR 0x0A])) (''balloc: out of blocks'' @ [CHR 0x0A]) [] (locked_in PrLock s) =
      ret () (emits (map of_char (''balloc: out of blocks'' @ [CHR 0x0A])) (locked_in PrLock s))"
    using q assms(2) by (simp add: numeral_eq_Suc fmt_at_def Let_def ch)
  then have "printf (''balloc: out of blocks'' @ [CHR 0x0A]) [] s = ret 0 (crit (emits (map of_char (''balloc: out of blocks'' @ [CHR 0x0A])) s))"
    using q assms(3) by (simp add: printf_def del: printf_loop.simps)
  then show ?thesis by blast
qed


context logged_blocks
begin

lemma bzero_ok:
  assumes "tx p h s" and "h n = None" and "dom h \<subseteq> {m}" and "left (Suc k) s"
  shows "\<exists>u. bzero ROOTDEV n s = ret () u \<and> tx p h u \<and> content u = (content s)(n := replicate BSIZE 0) \<and> left k u \<and> tframe s u"
proof -
  obtain b t where t: "bread ROOTDEV n s = ret b t" and
    "\<And>d. \<exists>v u. log_write b (set_data b d t) = ret () v \<and> brelse b v = ret () u \<and> tx p h u \<and> content u = (content s)(n := d) \<and>
      left k u \<and> tframe s u"
    using access [OF assms] by blast
  from this(2) [of "replicate BSIZE 0"] t show ?thesis by (auto simp: bzero_def)
qed

lemma bfree_ok:
  fixes s and b :: uint
  defines "B \<equiv> BBLOCK b (sblk s)" and "i \<equiv> unat b mod BPB"
  assumes "tx p h s" and "h B = None" and "dom h \<subseteq> {m}" and "left (Suc k) s"
  shows "if used (content s B) i
    then \<exists>u. bfree ROOTDEV b s = ret () u \<and> tx p h u \<and> left k u \<and> tframe s u \<and>
      content u = (content s)(B := (content s B)[i div 8 := content s B ! (i div 8) AND NOT (bmask i)])
    else bfree ROOTDEV b s = panic ''freeing free block''"
proof -
  obtain c t where t: "bread ROOTDEV B s = ret c t" "b_data (bufs t c) = content s B" and
    "\<And>d. \<exists>v u. log_write c (set_data c d t) = ret () v \<and> brelse c v = ret () u \<and> tx p h u \<and> content u = (content s)(B := d) \<and>
      left k u \<and> tframe s u"
    using access [OF assms(3-6)] by blast
  from this(3) [of "(content s B)[i div 8 := content s B ! (i div 8) AND NOT (bmask i)]"] t(1,2) show ?thesis
    by (auto simp: bfree_def B_def [symmetric] i_def [symmetric] bmask_test used_def Let_def)
qed

text \<open>One bitmap block and the ones after it.\<close>

lemma balloc_from_ok:
  fixes s
  defines "c \<equiv> content s" and "sb \<equiv> sblk s" and "sz \<equiv> unat (sb_size (sblk s))"
  assumes "tx p h s" and "dom h \<subseteq> {m}" and "left (Suc (Suc k)) s" and "b mod BPB = 0"
    and "\<And>x. h (BBLOCK x sb) = None" and "\<And>x. x < sz \<Longrightarrow> \<not> in_use sb c x \<Longrightarrow> h (of_nat x) = None"
    and "\<not> panicked s" and "pr_locking s"
  shows "case find (\<lambda>x. \<not> in_use sb c x) [b..<min sz (b + n * BPB)] of
      Some x \<Rightarrow> \<exists>u. balloc_from n b ROOTDEV s = ret (of_nat x) u \<and> tx p h u \<and> left k u \<and> content u = taken sb x c \<and> tframe s u
    | None \<Rightarrow> \<exists>t bs. balloc_from n b ROOTDEV s = ret 0 (crit (emits bs t)) \<and> tx p h t \<and> content t = c \<and> left (Suc (Suc k)) t \<and> tframe s t"
  using assms(4-)
  unfolding c_def sb_def sz_def
proof (induction n arbitrary: b s)
  case 0
  obtain bs where "printf (''balloc: out of blocks'' @ [CHR 0x0A]) [] s = ret 0 (crit (emits bs s))"
    using printf_balloc [OF idle [OF 0(1)] 0(7,8)] by blast
  then show ?case using 0(1,3) by (simp split: option.splits) (metis tframe_refl)
next
  case (Suc n)
  let ?sb = "sblk s" and ?c = "content s"
  let ?sz = "unat (sb_size ?sb)" and ?B = "BBLOCK (of_nat b) ?sb"
  let ?r = "find (\<lambda>i. \<not> used (?c ?B) i) [0..<min BPB (?sz - b)]"
  obtain bp t where t: "bread ROOTDEV ?B s = ret bp t" "b_data (bufs t bp) = ?c ?B" "tframe s t"
    and rel: "\<exists>u. brelse bp t = ret () u \<and> tx p h u \<and> content u = ?c \<and> left (Suc (Suc k)) u \<and> tframe s u"
    and wr: "\<And>d. \<exists>v u. log_write bp (set_data bp d t) = ret () v \<and> brelse bp v = ret () u \<and> tx p h u \<and> content u = ?c(?B := d) \<and>
      left (Suc k) u \<and> tframe s u"
    using access [OF Suc.prems(1) Suc.prems(5) Suc.prems(2,3)] by blast
  have scan: "balloc_scan BPB 0 b (unat (sb_size (sblk t))) (b_data (bufs t bp)) = ?r"
    by (simp add: balloc_scan_eq t(2) tframeD(1) [OF t(3)])
  have here: "in_use ?sb ?c (b + i) = used (?c ?B) i" "BBLOCK (of_nat (b + i)) ?sb = ?B" "(b + i) mod BPB = i" "b + i < ?sz"
    if "i < min BPB (?sz - b)" for i
  proof -
    have "b + i < 2 ^ 32" using that unsigned_less [of "sb_size ?sb", where ?'a = nat] by auto
    from BBLOCK_same [OF Suc.prems(4) _ this] that
    show "in_use ?sb ?c (b + i) = used (?c ?B) i" "BBLOCK (of_nat (b + i)) ?sb = ?B" "(b + i) mod BPB = i" "b + i < ?sz"
      by (auto simp: in_use_def)
  qed
  have "find (\<lambda>i. \<not> in_use ?sb ?c (b + i)) [0..<min BPB (?sz - b)] = ?r" by (rule find_congr) (simp add: here(1))
  then have split: "find (\<lambda>x. \<not> in_use ?sb ?c x) [b..<min ?sz (b + Suc n * BPB)] =
      (case ?r of None \<Rightarrow> find (\<lambda>x. \<not> in_use ?sb ?c x) [b + BPB..<min ?sz (b + BPB + n * BPB)] | Some i \<Rightarrow> Some (b + i))"
    using upt_split [of b ?sz BPB "n * BPB"] by (simp add: find_app find_mapped option.case_eq_if)
  show ?case
  proof (cases ?r)
    case None
    obtain u where u: "brelse bp t = ret () u" "tx p h u" "content u = ?c" "left (Suc (Suc k)) u" "tframe s u" using rel by blast
    have eq: "balloc_from (Suc n) b ROOTDEV s = balloc_from n (b + BPB) ROOTDEV u" using t(1) scan None u(1) by simp
    have m: "(b + BPB) mod BPB = 0" using Suc.prems(4) by simp
    note f = tframeD(1,10,17) [OF u(5)]
    from Suc.IH [OF u(2) Suc.prems(2) u(4) m] Suc.prems(5-8) show ?thesis
      unfolding split None eq f u(3) using tframe_trans [OF u(5)] by (fastforce split: option.splits)
  next
    case (Some i)
    then have i: "i < min BPB (?sz - b)" "\<not> used (?c ?B) i" by (auto simp: find_Some_iff)
    let ?d = "(?c ?B)[i div 8 := ?c ?B ! (i div 8) OR bmask i]"
    obtain v u where u: "log_write bp (set_data bp ?d t) = ret () v" "brelse bp v = ret () u" "tx p h u" "content u = ?c(?B := ?d)"
      "left (Suc k) u" "tframe s u" using wr by blast
    have "h (of_nat (b + i)) = None" using Suc.prems(6) here(1,4) [OF i(1)] i(2) by blast
    from bzero_ok [OF u(3) this Suc.prems(2) u(5)]
    obtain w where w: "bzero ROOTDEV (of_nat (b + i)) u = ret () w" "tx p h w" "content w = (content u)(of_nat (b + i) := replicate BSIZE 0)"
      "left k w" "tframe u w" by blast
    have "balloc_from (Suc n) b ROOTDEV s = ret (of_nat (b + i)) w"
      using t(1,2) scan Some u(1,2) w(1) by (simp add: Let_def del: of_nat_add)
    moreover have "content w = taken ?sb (b + i) ?c" using w(3) u(4) here(2,3) [OF i(1)] by (simp add: taken_def Let_def)
    ultimately show ?thesis unfolding split Some using w tframe_trans [OF u(6) w(5)] by simp
  qed
qed

end

section \<open>The set of blocks in use\<close>

definition bitmap_ok :: "superblock \<Rightarrow> (uint \<Rightarrow> block) \<Rightarrow> bool" where
  "bitmap_ok sb c \<longleftrightarrow> (\<forall>x. length (c (BBLOCK x sb)) = BSIZE) \<and>
    (\<forall>x < unat (sb_size sb). \<not> in_use sb c x \<longrightarrow> (\<forall>y. of_nat x \<noteq> BBLOCK y sb))"

lemma BBLOCK_inj:
  assumes "x < 2 ^ 32" and "y < 2 ^ 32"
  shows "BBLOCK (of_nat x) sb = BBLOCK (of_nat y) sb \<and> x mod BPB = y mod BPB \<longleftrightarrow> x = y"
proof -
  have d: "of_nat z div (of_nat BPB :: uint) = of_nat (z div BPB)" if "z < 2 ^ 32" for z
    using that by (simp add: word_arith_nat_div unat_of_nat take_bit_nat_eq_self BPB_def BSIZE_def)
  have "x div BPB < 2 ^ 32" "y div BPB < 2 ^ 32" using assms by (meson div_le_dividend le_less_trans)+
  then have "(of_nat (x div BPB) :: uint) = of_nat (y div BPB) \<longleftrightarrow> x div BPB = y div BPB"
    by (simp add: word_of_nat_eq_iff take_bit_nat_eq_self)
  moreover have "x div BPB = y div BPB \<and> x mod BPB = y mod BPB \<longleftrightarrow> x = y" by (metis div_mult_mod_eq)
  ultimately show ?thesis using d [OF assms(1)] d [OF assms(2)] by (simp add: BBLOCK_def)
qed

lemma in_use_change:
  assumes "length (c (BBLOCK (of_nat x) sb)) = BSIZE" and "x < unat (sb_size sb)" and "y < unat (sb_size sb)"
  defines "B \<equiv> BBLOCK (of_nat x) sb" and "i \<equiv> x mod BPB"
  shows "in_use sb (c(B := (c B)[i div 8 := c B ! (i div 8) OR bmask i])) y \<longleftrightarrow> in_use sb c y \<or> y = x"
    and "in_use sb (c(B := (c B)[i div 8 := c B ! (i div 8) AND NOT (bmask i)])) y \<longleftrightarrow> in_use sb c y \<and> y \<noteq> x"
proof -
  have l: "i < 8 * length (c B)" using assms(1) by (simp add: B_def i_def BPB_def BSIZE_def)
  have "x < 2 ^ 32" "y < 2 ^ 32" using assms(2,3) unsigned_less [of "sb_size sb", where ?'a = nat] by simp_all
  note inj = BBLOCK_inj [OF this, of sb]
  show "in_use sb (c(B := (c B)[i div 8 := c B ! (i div 8) OR bmask i])) y \<longleftrightarrow> in_use sb c y \<or> y = x"
    "in_use sb (c(B := (c B)[i div 8 := c B ! (i div 8) AND NOT (bmask i)])) y \<longleftrightarrow> in_use sb c y \<and> y \<noteq> x"
    using used_set [OF l, of "y mod BPB"] inj by (auto simp: in_use_def B_def i_def)
qed

section \<open>Properties\<close>


text \<open>
  C33: \<^verbatim>\<open>bfree\<close> inside a transaction removes exactly the given block from the set of blocks in use and changes no
  data; freeing a block that is not in use is a panic.
\<close>

theorem bfree_refines:
  fixes s and x :: nat
  defines "sb \<equiv> sblk s" and "c \<equiv> store s" and "sz \<equiv> unat (sb_size (sblk s))"
  assumes "in_tx p Map.empty s" and "room (Suc k) s" and "\<And>y. length (c (BBLOCK y sb)) = BSIZE" and "x < sz"
  shows "if in_use sb c x
    then \<exists>u. bfree ROOTDEV (of_nat x) s = ret () u \<and> in_tx p Map.empty u \<and> room k u \<and>
      (\<forall>y < sz. in_use sb (store u) y \<longleftrightarrow> in_use sb c y \<and> y \<noteq> x) \<and> (\<forall>n. n \<noteq> BBLOCK (of_nat x) sb \<longrightarrow> store u n = c n) \<and> tframe s u
    else bfree ROOTDEV (of_nat x) s = panic ''freeing free block''"
proof -
  let ?B = "BBLOCK (of_nat x) sb"
  have u: "unat (of_nat x :: uint) = x"
    using assms(7) unsigned_less [of "sb_size sb", where ?'a = nat] by (simp add: unat_of_nat take_bit_nat_eq_self sz_def sb_def)
  note f = tb.bfree_ok [where h = Map.empty and b = "of_nat x", OF assms(4) _ _ assms(5), folded sb_def c_def, unfolded u]
  show ?thesis
  proof (cases "in_use sb c x")
    case True
    then obtain u where u: "bfree ROOTDEV (of_nat x) s = ret () u" "in_tx p Map.empty u" "room k u" "tframe s u"
      "store u = c(?B := (c ?B)[x mod BPB div 8 := c ?B ! (x mod BPB div 8) AND NOT (bmask (x mod BPB))])"
      using f by (auto simp: in_use_def)
    moreover have "in_use sb (store u) y \<longleftrightarrow> in_use sb c y \<and> y \<noteq> x" if "y < sz" for y
      using in_use_change(2) [where c = c and sb = sb and x = x and y = y] assms(6,7) that u(5) by (simp add: sz_def sb_def)
    ultimately show ?thesis using True by auto
  next
    case False
    then show ?thesis using f by (simp add: in_use_def)
  qed
qed

section \<open>Witnesses\<close>

text \<open>A transaction on a disk of 40 blocks whose bitmap, at block 45, has the blocks 0, 1 and 2 in use.\<close>

definition sample_disk :: "nat \<Rightarrow> block" where
  "sample_disk n = (if n = 45 then 7 # replicate 1023 0 else replicate 1024 0)"

definition sample_sb :: superblock where
  "sample_sb = \<lparr>sb_magic = FSMAGIC, sb_size = 40, sb_nblocks = 30, sb_ninodes = 16, sb_nlog = 31, sb_logstart = 2, sb_inodestart = 60, sb_bmapstart = 45\<rparr>"

definition sample_fs :: kstate where
  "sample_fs = (binit (sample_procs\<lparr>disk := sample_disk, klog := sample_log, sblk := sample_sb\<rparr>))\<lparr>pr_locking := True, panicked := False\<rparr>"

lemma sample_fs_ok:
  "in_tx 3 Map.empty sample_fs" "room 20 sample_fs" "sblk sample_fs = sample_sb" "store sample_fs n = sample_disk (unat n)"
  "\<not> panicked sample_fs" "pr_locking sample_fs"
proof -
  let ?r = "sample_procs\<lparr>disk := sample_disk, klog := sample_log, sblk := sample_sb\<rparr>"
  have q: "quiet 3 ?r" by (simp add: quiet_def)
  have f: "fresh_buf (bufs ?r b)" for b
    by (simp add: sample_procs_def kstate0_def fresh_buf_def zero_buf_def zero_sleeplock_def ROOTDEV_def)
  note b = binit_ok [OF q f]
  have s: "cache_ok 3 Map.empty sample_fs" "store sample_fs n = sample_disk (unat n)" "refs sample_fs n = 0" "klog sample_fs = sample_log"
    "disk sample_fs = sample_disk" for n
    using b by (simp_all add: sample_fs_def cache_ok_def quiet_def store_def refs_def buf_ring_def nexts_def prevs_def)
  then show "in_tx 3 Map.empty sample_fs" by (auto simp: in_tx_def sample_log_def entries_def)
  show "room 20 sample_fs" using s(4) by (simp add: room_def sample_log_def LOGSIZE_def NBUF_def MAXOPBLOCKS_def)
  show "store sample_fs n = sample_disk (unat n)" by (fact s(2))
  show "sblk sample_fs = sample_sb" "\<not> panicked sample_fs" "pr_locking sample_fs" using b(6) by (simp_all add: sample_fs_def)
qed

lemma sample_bitmap:
  "x < 40 \<Longrightarrow> in_use sample_sb (store sample_fs) x \<longleftrightarrow> x < 3" "bitmap_ok sample_sb (store sample_fs)"
proof -
  have B: "unat (BBLOCK y sample_sb) = unat y div 8192 + 45" for y
    using unsigned_less [of y, where ?'a = nat]
    by (simp add: BBLOCK_def sample_sb_def BPB_def BSIZE_def unat_word_ariths word_arith_nat_div unat_of_nat)
  have use: "in_use sample_sb (store sample_fs) x \<longleftrightarrow> x < 3" if "x < 40" for x
  proof -
    have "BBLOCK (of_nat x) sample_sb = 45" using B [of "of_nat x"] that by (simp add: word_unat_eq_iff unat_of_nat take_bit_nat_eq_self)
    then have "in_use sample_sb (store sample_fs) x \<longleftrightarrow> bit ((7 # replicate 1023 0) ! (x div 8) :: uchar) (x mod 8)"
      using that by (simp add: in_use_def used_def sample_fs_ok(4) sample_disk_def BPB_def BSIZE_def)
    also have "\<dots> \<longleftrightarrow> x < 3"
    proof (cases "x < 8")
      case True
      then show ?thesis using bit_mask_iff [where ?'a = "8 word", of 3 x] by (simp add: mask_eq_exp_minus_1)
    next
      case False
      then have "0 < x div 8" "x div 8 - 1 < 1023" using that by auto
      then show ?thesis using False by (simp add: nth_Cons')
    qed
    finally show ?thesis .
  qed
  then show "x < 40 \<Longrightarrow> in_use sample_sb (store sample_fs) x \<longleftrightarrow> x < 3" .
  have "of_nat x \<noteq> BBLOCK y sample_sb" if "x < 40" for x y
    using B [of y] that by (auto simp: word_unat_eq_iff unat_of_nat take_bit_nat_eq_self)
  moreover have "length (store sample_fs n) = BSIZE" for n by (simp add: sample_fs_ok(4) sample_disk_def BSIZE_def)
  ultimately show "bitmap_ok sample_sb (store sample_fs)" by (simp add: bitmap_ok_def sample_sb_def)
qed


theorem bfree_refines_witness:
  "\<exists>u. bfree ROOTDEV 2 sample_fs = ret () u \<and> \<not> in_use sample_sb (store u) 2"
proof -
  have r: "room (Suc 19) sample_fs" using sample_fs_ok(2) by simp
  show ?thesis
    using bfree_refines [where x = 2, OF sample_fs_ok(1) r] sample_bitmap by (auto simp: sample_fs_ok(3) sample_sb_def bitmap_ok_def)
qed

end
