(* ===== verification/Inodes.thy ===== *)
theory Inodes
  imports Blocks
begin

text \<open>
  Inodes on the disk: the layout of \<^verbatim>\<open>struct dinode\<close> in its block, and \<^verbatim>\<open>iupdate\<close> and \<^verbatim>\<open>ilock\<close> of \<^verbatim>\<open>kernel/fs.c\<close>,
  which write an inode to its block and load it back.
\<close>

section \<open>Structures in a block\<close>

lemma splice_inside:
  assumes "i \<le> j" and "j + n \<le> i + length bs" and "i + length bs \<le> length d"
  shows "take n (drop j (splice d i bs)) = take n (drop (j - i) bs)"
  using assms by (simp add: splice_def)

lemma splice_before: "j + n \<le> i \<Longrightarrow> i \<le> length d \<Longrightarrow> take n (drop j (splice d i bs)) = take n (drop j d)"
  by (rule nth_equalityI) (auto simp: splice_def nth_append)

lemma splice_after:
  assumes "i + length bs \<le> j" and "i + length bs \<le> length d"
  shows "take n (drop j (splice d i bs)) = take n (drop j d)"
  using assms by (simp add: splice_def)

lemma length_splice [simp]: "i + length bs \<le> length d \<Longrightarrow> length (splice d i bs) = length d"
  by (simp add: splice_def)

lemma drop_concat_words:
  "i < length xs \<Longrightarrow> take 4 (drop (4 * i) (concat (map (bytes_of_word 4) xs))) = bytes_of_word 4 (xs ! i)"
proof (induction xs arbitrary: i)
  case (Cons x xs)
  then show ?case by (cases i) simp_all
qed simp

lemma length_concat_words [simp]: "length (concat (map (bytes_of_word n) xs)) = n * length xs"
  by (induction xs) simp_all

definition dinode_ok :: "dinode \<Rightarrow> bool" where
  "dinode_ok x \<longleftrightarrow> length (d_addrs x) = NDIRECT + 1"

lemma length_dinode_bytes: "dinode_ok x \<Longrightarrow> length (dinode_bytes x) = DINODE"
  by (simp add: dinode_bytes_def dinode_ok_def NDIRECT_def DINODE_def)

lemma dinode_fields:
  fixes x :: dinode
  assumes "dinode_ok x"
  shows "take 2 (dinode_bytes x) = bytes_of_word 2 (d_type x)" "take 2 (drop 2 (dinode_bytes x)) = bytes_of_word 2 (d_major x)"
    "take 2 (drop 4 (dinode_bytes x)) = bytes_of_word 2 (d_minor x)" "take 2 (drop 6 (dinode_bytes x)) = bytes_of_word 2 (d_nlink x)"
    "take 4 (drop 8 (dinode_bytes x)) = bytes_of_word 4 (d_size x)"
    "i < NDIRECT + 1 \<Longrightarrow> take 4 (drop (12 + 4 * i) (dinode_bytes x)) = bytes_of_word 4 (d_addrs x ! i)"
proof -
  show "take 2 (dinode_bytes x) = bytes_of_word 2 (d_type x)" "take 2 (drop 2 (dinode_bytes x)) = bytes_of_word 2 (d_major x)"
    "take 2 (drop 4 (dinode_bytes x)) = bytes_of_word 2 (d_minor x)" "take 2 (drop 6 (dinode_bytes x)) = bytes_of_word 2 (d_nlink x)"
    "take 4 (drop 8 (dinode_bytes x)) = bytes_of_word 4 (d_size x)"
    by (simp_all add: dinode_bytes_def)
  assume "i < NDIRECT + 1"
  moreover have "drop (12 + 4 * i) (dinode_bytes x) = drop (4 * i) (concat (map (bytes_of_word 4) (d_addrs x)))"
    by (simp add: dinode_bytes_def)
  ultimately show "take 4 (drop (12 + 4 * i) (dinode_bytes x)) = bytes_of_word 4 (d_addrs x ! i)"
    using drop_concat_words [of i "d_addrs x"] assms by (simp add: dinode_ok_def)
qed

lemma field_put:
  assumes "dinode_ok x" and "length d = BSIZE" and "k < IPB" and "a + n \<le> DINODE"
  shows "field (put_dinode d k x) (k * DINODE + a) n = word_of_bytes (take n (drop a (dinode_bytes x)))"
proof -
  have "k * DINODE + DINODE \<le> BSIZE" using assms(3) by (simp add: IPB_def BSIZE_def DINODE_def)
  then show ?thesis using assms length_dinode_bytes [OF assms(1)]
    by (simp add: field_def put_dinode_def splice_inside)
qed

lemma field_put_other:
  assumes "dinode_ok x" and "length d = BSIZE" and "k < IPB" and "j < IPB" and "j \<noteq> k" and "a + n \<le> DINODE"
  shows "field (put_dinode d k x) (j * DINODE + a) n = field d (j * DINODE + a) n"
proof -
  have len: "k * DINODE + DINODE \<le> BSIZE" using assms(3) by (simp add: IPB_def BSIZE_def DINODE_def)
  consider "j * DINODE + DINODE \<le> k * DINODE" | "k * DINODE + DINODE \<le> j * DINODE"
    using assms(5) by (cases "j < k") (simp_all add: DINODE_def)
  then show ?thesis
    using assms len length_dinode_bytes [OF assms(1)]
    by cases (simp_all add: field_def put_dinode_def splice_before splice_after)
qed

lemma get_put_dinode:
  assumes "dinode_ok x" and "length d = BSIZE" and "k < IPB"
  shows "get_dinode (put_dinode d k x) k = x"
    and "j < IPB \<Longrightarrow> j \<noteq> k \<Longrightarrow> get_dinode (put_dinode d k x) j = get_dinode d j"
    and "length (put_dinode d k x) = BSIZE"
proof -
  note f = field_put [where ?'a = 32, OF assms] and g = field_put [where ?'a = 16, OF assms]
  have "map (\<lambda>i. field (put_dinode d k x) (k * DINODE + 12 + 4 * i) 4) [0..<NDIRECT + 1] = d_addrs x"
  proof (rule nth_equalityI)
    fix i
    assume "i < length (map (\<lambda>i. field (put_dinode d k x) (k * DINODE + 12 + 4 * i) 4 :: uint) [0..<NDIRECT + 1])"
    then have i: "i < NDIRECT + 1" by (simp del: upt_Suc)
    then have "12 + 4 * i + 4 \<le> DINODE" by (simp add: NDIRECT_def DINODE_def)
    from f [OF this] i show "map (\<lambda>i. field (put_dinode d k x) (k * DINODE + 12 + 4 * i) 4) [0..<NDIRECT + 1] ! i = d_addrs x ! i"
      by (simp add: dinode_fields(6) [OF assms(1)] add.assoc del: upt_Suc)
  qed (use assms(1) in \<open>simp add: dinode_ok_def del: upt_Suc\<close>)
  then show "get_dinode (put_dinode d k x) k = x"
    using g [of 0 2] g [of 2 2] g [of 4 2] g [of 6 2] f [of 8 4] dinode_fields(1-5) [OF assms(1)]
    by (simp add: get_dinode_def Let_def DINODE_def del: upt_Suc)
  have "k * DINODE + DINODE \<le> BSIZE" using assms(3) by (simp add: IPB_def BSIZE_def DINODE_def)
  then show "length (put_dinode d k x) = BSIZE" using assms length_dinode_bytes [OF assms(1)] by (simp add: put_dinode_def)
  assume j: "j < IPB" "j \<noteq> k"
  note o = field_put_other [where ?'a = 32, OF assms j] and o16 = field_put_other [where ?'a = 16, OF assms j]
  have "map (\<lambda>i. field (put_dinode d k x) (j * DINODE + 12 + 4 * i) 4 :: uint) [0..<NDIRECT + 1] =
      map (\<lambda>i. field d (j * DINODE + 12 + 4 * i) 4) [0..<NDIRECT + 1]"
  proof (rule map_cong [OF refl])
    fix i
    assume "i \<in> set [0..<NDIRECT + 1]"
    then have "12 + 4 * i + 4 \<le> DINODE" by (simp add: NDIRECT_def DINODE_def del: upt_Suc)
    from o [OF this] show "field (put_dinode d k x) (j * DINODE + 12 + 4 * i) 4 = (field d (j * DINODE + 12 + 4 * i) 4 :: uint)"
      by (simp add: add.assoc)
  qed
  then show "get_dinode (put_dinode d k x) j = get_dinode d j"
    using o16 [of 0 2] o16 [of 2 2] o16 [of 4 2] o16 [of 6 2] o [of 8 4]
    by (simp add: get_dinode_def Let_def DINODE_def del: upt_Suc)
qed


section \<open>Writing an inode and loading it\<close>

definition dinode_of :: "inode \<Rightarrow> dinode" where
  "dinode_of x = \<lparr>d_type = i_type x, d_major = i_major x, d_minor = i_minor x, d_nlink = i_nlink x, d_size = i_size x, d_addrs = i_addrs x\<rparr>"

definition load_inode :: "dinode \<Rightarrow> inode \<Rightarrow> inode" where
  "load_inode di x = x\<lparr>i_type := d_type di, i_major := d_major di, i_minor := d_minor di, i_nlink := d_nlink di, i_size := d_size di,
     i_addrs := d_addrs di\<rparr>"

lemma aside_upd_inode: "aside s (upd_inode i f s)"
  unfolding aside_def upd_inode_def by (rule arg_cong [where f = crit], rule kstate.equality) simp_all

lemma aside_crit: "cpu_ok s \<Longrightarrow> aside s t \<Longrightarrow> aside s (crit t)"
  by (simp add: aside_def)

context logged_blocks
begin

lemma iupdate_ok:
  fixes s ip
  defines "x \<equiv> inodes s ip"
  defines "B \<equiv> IBLOCK (i_inum x) (sblk s)" and "kk \<equiv> unat (i_inum x) mod IPB"
  assumes "tx p h s" and "h B = None" and "dom h \<subseteq> {m}" and "left (Suc k) s" and "i_dev x = ROOTDEV"
  shows "\<exists>u. iupdate ip s = ret () u \<and> tx p h u \<and> content u = (content s)(B := put_dinode (content s B) kk (dinode_of x)) \<and>
    left k u \<and> tframe s u"
proof -
  obtain b t where t: "bread ROOTDEV B s = ret b t" "b_data (bufs t b) = content s B" "tframe s t" and
    "\<And>d. \<exists>v u. log_write b (set_data b d t) = ret () v \<and> brelse b v = ret () u \<and> tx p h u \<and> content u = (content s)(B := d) \<and>
      left k u \<and> tframe s u"
    using access [OF assms(4-7)] by blast
  from this(4) [of "put_dinode (content s B) kk (dinode_of x)"] t(1,2) tframeD(2) [OF t(3)] assms(8) show ?thesis
    by (auto simp: iupdate_def x_def B_def kk_def dinode_of_def Let_def)
qed

lemma ilock_ok:
  fixes s ip
  defines "x \<equiv> inodes s ip"
  defines "di \<equiv> get_dinode (content s (IBLOCK (i_inum x) (sblk s))) (unat (i_inum x) mod IPB)"
  assumes "tx p h s" and "h (IBLOCK (i_inum x) (sblk s)) = None" and "dom h \<subseteq> {m}" and "left k s" and "i_dev x = ROOTDEV"
    and "i_ref x \<ge> 1" and "sl_locked (i_lock x) = 0" and "\<not> i_valid x" and "d_type di \<noteq> 0"
  shows "\<exists>w. ilock (Some ip) s = ret () w \<and> tx p h w \<and> content w = content s \<and> left k w \<and>
    inodes w = (inodes s)(ip := (load_inode di (x\<lparr>i_lock := (i_lock x)\<lparr>sl_locked := 1, sl_pid := p_pid (procs s p)\<rparr>\<rparr>))\<lparr>i_valid := True\<rparr>)"
proof -
  have q: "cpu_ok s" "cpu_proc (mycpu s) = Some p" "lock_free lk s" for lk using idle [OF assms(3)] by (simp_all add: quiet_def)
  let ?f = "\<lambda>x. x\<lparr>i_lock := (i_lock x)\<lparr>sl_locked := 1, sl_pid := p_pid (procs s p)\<rparr>\<rparr>"
  let ?B = "IBLOCK (i_inum x) (sblk s)"
  define t where "t = crit (upd_inode ip ?f s)"
  have a: "acquiresleep (InodeLock ip) s = ret () t"
    using acquiresleep_free [OF q(1,2), of "InodeLock ip"] q(3) assms(9) by (simp add: t_def x_def)
  have "aside s t" unfolding t_def by (intro aside_crit q aside_upd_inode)
  then have t: "tx p h t" "content t = content s" "left k t" using other [of s t] assms(3,6) by blast+
  have ti: "inodes t = (inodes s)(ip := ?f x)" "sblk t = sblk s" by (simp_all add: t_def upd_inode_def x_def)
  obtain b u where u: "bread ROOTDEV ?B t = ret b u" "tx p (h(?B \<mapsto> b)) u" "content u = content s" "left k u" "tframe t u"
    using get [OF t(1) assms(4,5) t(3)] unfolding t(2) by blast
  have ui: "inodes u = inodes t" "b_data (bufs u b) = content s ?B" "sblk u = sblk s"
    using tframeD(1,2) [OF u(5)] look [OF u(2), of ?B b] u(3) ti(2) by simp_all
  let ?v = "upd_inode ip (load_inode di) u"
  have v: "tx p (h(?B \<mapsto> b)) ?v" "content ?v = content s" "left k ?v"
    using other [OF aside_upd_inode [of u ip "load_inode di"], of p "h(?B \<mapsto> b)" k] u(2-4) by simp_all
  have h: "(h(?B \<mapsto> b)) ?B = Some b" "h(?B \<mapsto> b, ?B := None) = h" using assms(4) by auto
  obtain w where w: "brelse b ?v = ret () w" "tx p h w" "content w = content s" "left k w" "tframe ?v w"
    using put [OF v(1) h(1) v(3)] unfolding h(2) v(2) by blast
  have wi: "inodes w = (inodes s)(ip := load_inode di (?f x))"
    using tframeD(2) [OF w(5)] ui(1) ti(1) by (simp add: upd_inode_def)
  let ?w = "upd_inode ip (\<lambda>x. x\<lparr>i_valid := True\<rparr>) w"
  have "ilock (Some ip) s = ret () ?w"
    using a u(1) ui ti w(1) wi assms(7,8,10,11)
    by (simp add: ilock_def x_def di_def upd_inode_def load_inode_def [abs_def] Let_def)
  moreover have "tx p h ?w" "content ?w = content s" "left k ?w"
    using other [OF aside_upd_inode [of w ip "\<lambda>x. x\<lparr>i_valid := True\<rparr>"], of p h k] w(2-4) by simp_all
  ultimately show ?thesis using wi by (intro exI [of _ ?w]) (simp add: upd_inode_def load_inode_def)
qed

end

section \<open>Properties\<close>


section \<open>Witnesses\<close>

text \<open>Inode 5 in entry 0 of the table, with a file of 700 bytes in block 9, and entry 1 just taken for it.\<close>

definition sample_inode :: inode where
  "sample_inode = \<lparr>i_dev = ROOTDEV, i_inum = 5, i_ref = 1, i_lock = zero_sleeplock, i_valid = True, i_type = T_FILE, i_major = 0,
     i_minor = 0, i_nlink = 1, i_size = 700, i_addrs = 9 # replicate 12 0\<rparr>"

definition sample_itable :: kstate where
  "sample_itable = sample_fs\<lparr>inodes := (inodes sample_fs)(0 := sample_inode, 1 := sample_inode\<lparr>i_valid := False, i_type := 0, i_size := 0\<rparr>)\<rparr>"

lemma sample_itable_ok: "in_tx 3 Map.empty sample_itable" "room 20 sample_itable" "store sample_itable n = sample_disk (unat n)"
  "sblk sample_itable = sample_sb"
proof -
  have "aside sample_fs sample_itable" unfolding aside_def sample_itable_def
    by (rule arg_cong [where f = crit], rule kstate.equality) simp_all
  from in_tx_aside [OF this] sample_fs_ok
  show "in_tx 3 Map.empty sample_itable" "room 20 sample_itable" "store sample_itable n = sample_disk (unat n)" by simp_all
  show "sblk sample_itable = sample_sb" using sample_fs_ok(3) by (simp add: sample_itable_def)
qed


end
