(* ===== verification/Ecall.thy ===== *)
theory Ecall
  imports Boot
begin

text \<open>
  Traps from user space, end to end: from \<^verbatim>\<open>usertrap\<close> of \<^verbatim>\<open>kernel/trap.c\<close> through the dispatcher and a
  system call back to \<^verbatim>\<open>usertrapret\<close>, and the timer interrupt taken in the kernel.
\<close>

section \<open>Updates of the hart and of the trap frame\<close>

lemma upd_tframe_simps [simp]:
  "cpu_ok (upd_tframe a f s) = cpu_ok s" "mycpu (upd_tframe a f s) = mycpu s" "lock_free lk (upd_tframe a f s) = lock_free lk s"
  "crit (upd_tframe a f s) = upd_tframe a f (crit s)" "procs (upd_tframe a f s) = procs s" "harts (upd_tframe a f s) = harts s"
  "tp (upd_tframe a f s) = tp s" "tframes (upd_tframe a f s) = (tframes s)(a := f (tframes s a))" "syms (upd_tframe a f s) = syms s"
  "mem (upd_tframe a f s) = mem s" "uart_out (upd_tframe a f s) = uart_out s" "intr_get (upd_tframe a f s) = intr_get s"
  by (simp_all add: upd_tframe_def intr_get_def)

lemma upd_hart_simps [simp]:
  "mycpu (upd_hart f s) = mycpu s" "lock_free lk (upd_hart f s) = lock_free lk s" "procs (upd_hart f s) = procs s"
  "harts (upd_hart f s) = (harts s)(tp s := f (harts s (tp s)))" "tp (upd_hart f s) = tp s" "tframes (upd_hart f s) = tframes s"
  "syms (upd_hart f s) = syms s" "mem (upd_hart f s) = mem s" "ticks (upd_hart f s) = ticks s" "uart_out (upd_hart f s) = uart_out s"
  by (simp_all add: machine_defs lock_free_def)

lemma upd_hart_keeps_intr:
  assumes "\<And>h. h_sstatus (f h) = h_sstatus h"
  shows "intr_get (upd_hart f s) = intr_get s" "cpu_ok (upd_hart f s) = cpu_ok s" "crit (upd_hart f s) = upd_hart f (crit s)"
  using assms by (simp_all add: intr_get_def cpu_ok_def crit_def machine_defs)

lemma intr_on_simps [simp]:
  "intr_get (intr_on s)" "mycpu (intr_on s) = mycpu s" "lock_free lk (intr_on s) = lock_free lk s" "procs (intr_on s) = procs s"
  "tframes (intr_on s) = tframes s" "tp (intr_on s) = tp s" "cpu_noff (mycpu s) = 0 \<Longrightarrow> cpu_ok (intr_on s)"
  by (simp_all add: intr_on_def intr_get_def machine_defs lock_free_def cpu_ok_def)


lemma killed_ok: "cpu_ok s \<Longrightarrow> lock_free (ProcLock p) s \<Longrightarrow> killed p s = ret (p_killed (procs s p)) (crit s)"
  by (simp add: killed_def)

lemma harts_locked_in_off: "\<not> intr_get s \<Longrightarrow> harts (locked_in lk s) = harts s"
  by (simp add: locked_in_def push_off_def machine_defs Let_def SIE_clear_clear)

section \<open>Back to user space\<close>

text \<open>The hart and the trap frame as \<^verbatim>\<open>usertrapret\<close> leaves them for \<^verbatim>\<open>userret\<close>.\<close>

definition user_hart :: "ksyms \<Rightarrow> uint64 \<Rightarrow> uint64 \<Rightarrow> hart \<Rightarrow> hart" where
  "user_hart sy epc pagetable h = h\<lparr>h_stvec := TRAMPOLINE + (sym_uservec sy - sym_trampoline sy),
     h_sstatus := (h_sstatus h AND NOT SSTATUS_SIE) AND NOT SSTATUS_SPP OR SSTATUS_SPIE,
     h_sepc := epc, h_satp := MAKE_SATP pagetable\<rparr>"

definition user_frame :: "ksyms \<Rightarrow> uint64 \<Rightarrow> uint64 \<Rightarrow> nat \<Rightarrow> trapframe \<Rightarrow> trapframe" where
  "user_frame sy satp kstack hartid t = t\<lparr>tf_kernel_satp := satp, tf_kernel_sp := kstack + PGSIZE,
     tf_kernel_trap := sym_usertrap sy, tf_kernel_hartid := of_nat hartid\<rparr>"

lemma usertrapret_eq:
  fixes s
  assumes "cpu_ok s" and "cpu_proc (mycpu s) = Some p"
  defines "q \<equiv> procs s p"
  shows "usertrapret s = Inl (ToUser (upd_hart (user_hart (syms s) (tf_epc (tframes s (p_trapframe q))) (p_pagetable q))
    (upd_tframe (p_trapframe q) (user_frame (syms s) (h_satp (this_hart s)) (p_kstack q) (tp s)) (crit s))))"
  using assms
  by (simp add: usertrapret_def Let_def intr_off_def user_hart_def user_frame_def)
     (simp add: machine_defs upd_tframe_def crit_def user_hart_def user_frame_def)

lemma usertrap_end_eq:
  assumes "cpu_ok s" and "lock_free (ProcLock p) s" and "p_killed (procs s p) = 0"
  shows "usertrap_end p 0 s = usertrapret (crit s)"
  using assms by (simp add: usertrap_end_def killed_ok)

section \<open>System calls\<close>

text \<open>Process \<open>p\<close> has trapped with an \<^verbatim>\<open>ecall\<close> from user mode.\<close>

definition user_ecall :: "nat \<Rightarrow> kstate \<Rightarrow> bool" where
  "user_ecall p s \<longleftrightarrow> cpu_ok s \<and> cpu_noff (mycpu s) = 0 \<and> cpu_proc (mycpu s) = Some p \<and> lock_free (ProcLock p) s \<and>
    p_killed (procs s p) = 0 \<and> h_sstatus (this_hart s) AND SSTATUS_SPP = 0 \<and> h_scause (this_hart s) = 8"

text \<open>The state in which the dispatcher starts.\<close>

definition entered :: "nat \<Rightarrow> kstate \<Rightarrow> kstate" where
  "entered p s = intr_on (upd_tframe (p_trapframe (procs s p)) (\<lambda>t. t\<lparr>tf_epc := h_sepc (this_hart s) + 4\<rparr>)
     (upd_hart (\<lambda>h. h\<lparr>h_stvec := sym_kernelvec (syms s)\<rparr>) (crit s)))"

lemma upd_tframe_twice: "upd_tframe a f (upd_tframe a g s) = upd_tframe a (f \<circ> g) s"
  by (simp add: upd_tframe_def)

lemma usertrap_ecall:
  assumes "user_ecall p s"
  shows "usertrap plic rd s = bindE (syscall (entered p s)) (\<lambda>_ s. usertrap_end p 0 s)"
proof -
  let ?f = "\<lambda>h. h\<lparr>h_stvec := sym_kernelvec (syms s)\<rparr>"
  have s: "cpu_ok (upd_hart ?f s)" "crit (upd_hart ?f s) = upd_hart ?f (crit s)" "cpu_ok (upd_hart ?f (crit s))"
    "crit (upd_hart ?f (crit s)) = upd_hart ?f (crit s)"
    by (simp_all add: upd_hart_keeps_intr assms [unfolded user_ecall_def])
  show ?thesis using assms s
    by (simp add: usertrap_def user_ecall_def Let_def killed_ok upd_tframe_twice entered_def comp_def del: fun_upd_apply)
       (simp add: comp_def)
qed


lemma entered_simps [simp]:
  "panicked (entered p s) = panicked s" "uart_out (entered p s) = uart_out s" "procs (entered p s) = procs s" "mem (entered p s) = mem s" "tp (entered p s) = tp s" "syms (entered p s) = syms s"
  "tframes (entered p s) = (tframes s)(p_trapframe (procs s p) := (tframes s (p_trapframe (procs s p)))\<lparr>tf_epc := h_sepc (this_hart s) + 4\<rparr>)"
  "cpu_proc (mycpu (entered p s)) = cpu_proc (mycpu s)" "lock_free lk (entered p s) = lock_free lk s"
  "cpu_noff (mycpu s) = 0 \<Longrightarrow> cpu_ok (entered p s)"
  "harts (entered p s) = (harts s)(tp s := (this_hart s)\<lparr>h_stvec := sym_kernelvec (syms s), h_sstatus := h_sstatus (this_hart s) OR SSTATUS_SIE\<rparr>)"
  by (simp_all add: entered_def) (simp_all add: intr_on_def machine_defs upd_tframe_def)

lemma clear_set_bit: "(w OR b) AND NOT b = w AND NOT (b :: 'a::len word)"
  by (rule bit_word_eqI) (auto simp: bit_simps)

text \<open>
  A system call that leaves the process, its trap frame and the hart alone but for the value \<open>v\<close> in
  register \<^verbatim>\<open>a0\<close> ends in user space, after the \<^verbatim>\<open>ecall\<close>.
\<close>

lemma ecall_ends:
  fixes s p
  defines "q \<equiv> procs s p" and "epc \<equiv> h_sepc (this_hart s) + 4"
  assumes e: "user_ecall p s" and "syscall (entered p s) = ret () (set_a0 p v u)"
    and u: "cpu_ok u" "cpu_proc (mycpu u) = Some p" "lock_free (ProcLock p) u" "p_killed (procs u p) = 0"
      "p_trapframe (procs u p) = p_trapframe q" "p_pagetable (procs u p) = p_pagetable q" "p_kstack (procs u p) = p_kstack q"
      "harts u = harts (entered p s)" "tp u = tp s" "syms u = syms s" "tframes u = tframes (entered p s)"
  shows "\<exists>t. (usertrap plic rd s :: unit kres) = Inl (ToUser t) \<and> procs t = procs u \<and> mem t = mem u \<and> uart_out t = uart_out u \<and>
    harts t = (harts s)(tp s := user_hart (syms s) epc (p_pagetable q) (this_hart s)) \<and>
    tframes t = (tframes s)(p_trapframe q := user_frame (syms s) (h_satp (this_hart s)) (p_kstack q) (tp s)
      ((tframes s (p_trapframe q))\<lparr>tf_epc := epc, tf_a0 := v\<rparr>))"
proof -
  have "(usertrap plic rd s :: unit kres) = usertrapret (crit (set_a0 p v u))"
    using u assms(4) by (simp add: usertrap_ecall [OF e] usertrap_end_eq set_a0_def)
  also have "\<dots> = Inl (ToUser (upd_hart (user_hart (syms s) epc (p_pagetable q))
      (upd_tframe (p_trapframe q) (user_frame (syms s) (h_satp (this_hart s)) (p_kstack q) (tp s)) (crit (set_a0 p v u)))))"
    using u by (subst usertrapret_eq [of _ p]) (simp_all add: set_a0_def q_def epc_def)
  finally show ?thesis using u by (simp add: set_a0_def q_def epc_def user_hart_def clear_set_bit)
qed

lemma syscall_handler:
  fixes s p and num :: uint
  assumes "cpu_ok s" and "cpu_proc (mycpu s) = Some p" and "num = ucast (tf_a7 (tframes s (p_trapframe (procs s p))))"
    and "0 <s num" and "sint num < int (length syscalls)" and "syscalls ! unat num = Some f" and "f (crit s) = ret v u"
  shows "syscall s = ret () (set_a0 p v u)"
  using assms by (simp add: syscall_def Let_def)

lemma printf_unknown_calm:
  assumes "calm s" and "lock_free PrLock s"
  shows "\<exists>bs. printf (''%d %s: unknown sys call %d'' @ [CHR 0x0A]) [Reg r, Str (Some a), Reg r'] s = ret 0 (emits bs s)"
proof (rule printf_calm [OF assms])
  fix t
  assume t: "calm t"
  obtain bs where bs: "printint (scast (ucast r :: uint)) 10 True t = ret () (emits bs t)"
    using printint_int_calm [OF t] by blast
  let ?m = "bs @ [32] @ takeWhile (\<lambda>b. b \<noteq> 0) a @ map of_char '': unknown sys call ''"
  obtain bs' where bs': "printint (scast (ucast r' :: uint)) 10 True (emits ?m t) = ret () (emits bs' (emits ?m t))"
    using printint_int_calm [OF calm_emits [OF t]] by blast
  have ch: "consputc c u = ret () (emits [word_of_int c] u)" if "calm u" "0 \<le> c" "c < 256" for c u
    using consputc_calm [OF that(1), of c] that by simp
  have "printf_loop (length (''%d %s: unknown sys call %d'' @ [CHR 0x0A])) (''%d %s: unknown sys call %d'' @ [CHR 0x0A])
      [Reg r, Str (Some a), Reg r'] t = ret () (emits (?m @ bs' @ [10]) t)"
    using t bs bs' by (simp add: numeral_eq_Suc fmt_at_def conv_def Let_def ch cons_putb_calm)
  then show "\<exists>bs. printf_loop (length (''%d %s: unknown sys call %d'' @ [CHR 0x0A])) (''%d %s: unknown sys call %d'' @ [CHR 0x0A])
      [Reg r, Str (Some a), Reg r'] t = ret () (emits bs t)" by blast
qed

section \<open>The timer\<close>

abbreviation next_tick :: "hart \<Rightarrow> hart" where
  "next_tick h \<equiv> h\<lparr>h_stimecmp := h_time h + 1000000\<rparr>"

definition ticked :: "kstate \<Rightarrow> kstate" where
  "ticked s = (if tp s = 0 then s\<lparr>ticks := ticks s + 1, procs := awaken 0 NPROC (Some ChanTicks) (cpu_proc (mycpu s)) (procs s)\<rparr> else s)"

lemma ticked_simps [simp]:
  "cpu_ok (ticked s) = cpu_ok s" "lock_free lk (ticked s) = lock_free lk s" "mycpu (ticked s) = mycpu s" "harts (ticked s) = harts s"
  "tp (ticked s) = tp s" "intr_get (ticked s) = intr_get s" "locks (ticked s) = locks s" "mem (ticked s) = mem s"
  by (simp_all add: ticked_def intr_get_def)

lemma clockintr_eq:
  assumes "cpu_ok s" and "proc_locks_free s" and "lock_free TicksLock s"
  shows "\<exists>t. clockintr s = ret () (upd_hart next_tick t) \<and> crit t = crit (ticked s) \<and> cpu_ok t"
proof (cases "tp s = 0")
  case True
  have "proc_locks_free (locked_in TicksLock (s\<lparr>ticks := ticks s + 1\<rparr>))" using assms(2) by (simp add: proc_locks_free_def)
  then show ?thesis using True assms
    by (intro exI [of _ "crit (ticked s)"]) (simp add: clockintr_def cpuid_def wakeup_eq ticked_def)
next
  case False
  then show ?thesis using assms(1) by (intro exI [of _ s]) (simp add: clockintr_def cpuid_def ticked_def)
qed

section \<open>Properties\<close>

text \<open>
  C29: The system call \<^verbatim>\<open>add\<close>, end to end. A user program that executes \<^verbatim>\<open>ecall\<close> with 22 in the low half of
  \<^verbatim>\<open>a7\<close> is back in user mode at the next instruction, in its own address space and with all its other
  registers, memory and process entry unchanged; \<^verbatim>\<open>a0\<close> is the sum of the low halves of \<^verbatim>\<open>a0\<close> and \<^verbatim>\<open>a1\<close> as
  C \<^verbatim>\<open>int\<close>s, wrapped around to 32 bits and sign-extended.
\<close>

theorem add_end_to_end:
  fixes s p
  defines "q \<equiv> procs s p" and "tf \<equiv> tframes s (p_trapframe (procs s p))" and "epc \<equiv> h_sepc (this_hart s) + 4"
  assumes "user_ecall p s" and "ucast (tf_a7 tf) = (22 :: uint)"
  shows "\<exists>t v. (usertrap plic rd s :: unit kres) = Inl (ToUser t) \<and> procs t = procs s \<and> mem t = mem s \<and>
    harts t = (harts s)(tp s := user_hart (syms s) epc (p_pagetable q) (this_hart s)) \<and>
    tframes t = (tframes s)(p_trapframe q := user_frame (syms s) (h_satp (this_hart s)) (p_kstack q) (tp s)
      (tf\<lparr>tf_epc := epc, tf_a0 := v\<rparr>)) \<and>
    sint v = signed_take_bit 31 (sint (ucast (tf_a0 tf) :: uint) + sint (ucast (tf_a1 tf) :: uint))"
proof -
  let ?v = "scast (ucast (tf_a0 tf) + ucast (tf_a1 tf) :: uint) :: uint64"
  have s: "cpu_ok (entered p s)" "cpu_proc (mycpu (entered p s)) = Some p" using assms(4) by (simp_all add: user_ecall_def)
  have "sys_add (crit (entered p s)) = ret ?v (crit (entered p s))"
    using s by (simp add: sys_add_def argint_def argraw_def tf_def)
  from syscall_handler [where f = sys_add and num = 22, OF s _ _ _ _ this] assms(5)
  have "syscall (entered p s) = ret () (set_a0 p ?v (crit (entered p s)))"
    by (simp add: syscalls_def word_sless_alt tf_def)
  from ecall_ends [OF assms(4) this] assms(4)
  obtain t where t: "(usertrap plic rd s :: unit kres) = Inl (ToUser t)" "procs t = procs s" "mem t = mem s"
    "harts t = (harts s)(tp s := user_hart (syms s) epc (p_pagetable q) (this_hart s))"
    "tframes t = (tframes s)(p_trapframe q := user_frame (syms s) (h_satp (this_hart s)) (p_kstack q) (tp s) (tf\<lparr>tf_epc := epc, tf_a0 := ?v\<rparr>))"
    by (auto simp: user_ecall_def tf_def q_def epc_def)
  moreover have "sint ?v = signed_take_bit 31 (sint (ucast (tf_a0 tf) :: uint) + sint (ucast (tf_a1 tf) :: uint))"
    by (simp add: signed_scast_eq sint_word_ariths(1))
  ultimately show ?thesis by blast
qed





section \<open>Witnesses\<close>

text \<open>Process 3 calls number \<open>n\<close> with the arguments 2147483647 and 1 from address 4096.\<close>

definition sample_ecall :: "uint64 \<Rightarrow> kstate" where
  "sample_ecall n = sample_procs\<lparr>harts := (\<lambda>_. zero_hart\<lparr>h_scause := 8, h_sepc := 4096\<rparr>),
     tframes := (\<lambda>_. zero_trapframe\<lparr>tf_a0 := 0x7fffffff, tf_a1 := 1, tf_a7 := n\<rparr>)\<rparr>"

lemma sample_ecall_ok: "user_ecall 3 (sample_ecall n)"
proof -
  have "cpu_ok (sample_ecall n) \<longleftrightarrow> cpu_ok sample_procs"
    by (simp add: sample_ecall_def cpu_ok_def sample_procs_def kstate0_def machine_defs zero_cpu_def)
  then show ?thesis
    by (simp add: user_ecall_def) (simp add: sample_ecall_def zero_hart_def sample_procs_def kstate0_def zero_proc_def lock_free_def
      zero_spinlock_def machine_defs zero_cpu_def)
qed

theorem add_end_to_end_witness:
  "\<exists>t. (usertrap (\<lambda>_. 0) (\<lambda>_. 0) (sample_ecall 22) :: unit kres) = Inl (ToUser t) \<and>
    sint (tf_a0 (tframes t 0)) = - (2 ^ 31) \<and> h_sepc (harts t 0) = 4100"
proof -
  have f: "tframes (sample_ecall 22) a = zero_trapframe\<lparr>tf_a0 := 0x7fffffff, tf_a1 := 1, tf_a7 := 22\<rparr>"
    "p_trapframe (procs (sample_ecall 22) 3) = 0" "h_sepc (harts (sample_ecall 22) 0) = 4096" "tp (sample_ecall 22) = 0" for a
    by (simp_all add: sample_ecall_def sample_procs_def kstate0_def zero_proc_def)
  have "sint (ucast (0x7fffffff :: uint64) :: uint) = 2147483647" "sint (ucast (1 :: uint64) :: uint) = 1" by simp_all
  then have "signed_take_bit 31 (sint (ucast (0x7fffffff :: uint64) :: uint) + sint (ucast (1 :: uint64) :: uint)) = - 2147483648"
    by (simp add: signed_take_bit_def mask_eq_exp_minus_1 not_int_def)
  then show ?thesis
    using add_end_to_end [OF sample_ecall_ok, of 22 "\<lambda>_. 0" "\<lambda>_. 0"] by (auto simp: f user_frame_def user_hart_def)
qed



end
