(* ===== verification/Asm.thy ===== *)
theory Asm
  imports Kstate
begin

text \<open>
  The assembly of the kernel: \<^verbatim>\<open>kernel/swtch.S\<close>, \<^verbatim>\<open>kernel/trampoline.S\<close>, \<^verbatim>\<open>kernel/kernelvec.S\<close> and
  \<^verbatim>\<open>kernel/entry.S\<close>, as lists of instructions of a small RISC-V machine. Memory accesses of supervisor code go
  through the page table in \<^verbatim>\<open>satp\<close>; the hardware's translation is the argument \<open>mmu\<close>. What happens in a C function
  that the code calls or jumps to is outside: the execution stops there.
\<close>

section \<open>The machine\<close>

datatype reg = ZERO | RA | SP | GP | TP | T0 | T1 | T2 | T3 | T4 | T5 | T6 |
  S0 | S1 | S2 | S3 | S4 | S5 | S6 | S7 | S8 | S9 | S10 | S11 | A0 | A1 | A2 | A3 | A4 | A5 | A6 | A7

datatype csr = SATP | SSCRATCH | MHARTID

datatype instr = Sd reg nat reg | Ld reg nat reg | Addi reg reg int | Add reg reg reg | Mul reg reg reg | Li reg uint64 |
  Csrw csr reg | Csrr reg csr | Sfence | Jr reg | Sret | Call string

text \<open>How a piece of straight-line code ends: a jump to an address, \<^verbatim>\<open>sret\<close>, or a call, with the code after it.\<close>

datatype ending = Goto uint64 | To_sepc | Calls string "instr list"

record mach =
  m_regs :: "reg \<Rightarrow> uint64"
  m_csrs :: "csr \<Rightarrow> uint64"
  m_mem :: memory

type_synonym mmu = "uint64 \<Rightarrow> uint64 \<Rightarrow> uint64"

definition rd :: "mach \<Rightarrow> reg \<Rightarrow> uint64" where
  "rd m r = (if r = ZERO then 0 else m_regs m r)"

definition wr :: "reg \<Rightarrow> uint64 \<Rightarrow> mach \<Rightarrow> mach" where
  "wr r v m = m\<lparr>m_regs := (m_regs m)(r := v)\<rparr>"

fun exec :: "mmu \<Rightarrow> instr list \<Rightarrow> mach \<Rightarrow> (ending \<times> mach) option" where
  "exec mmu [] m = None"
| "exec mmu (Sd r i b # is) m = exec mmu is (m\<lparr>m_mem := store64 (m_mem m) (mmu (m_csrs m SATP) (rd m b + of_nat i)) (rd m r)\<rparr>)"
| "exec mmu (Ld r i b # is) m = exec mmu is (wr r (load64 (m_mem m) (mmu (m_csrs m SATP) (rd m b + of_nat i))) m)"
| "exec mmu (Addi r a i # is) m = exec mmu is (wr r (rd m a + word_of_int i) m)"
| "exec mmu (Add r a b # is) m = exec mmu is (wr r (rd m a + rd m b) m)"
| "exec mmu (Mul r a b # is) m = exec mmu is (wr r (rd m a * rd m b) m)"
| "exec mmu (Li r v # is) m = exec mmu is (wr r v m)"
| "exec mmu (Csrw c r # is) m = exec mmu is (m\<lparr>m_csrs := (m_csrs m)(c := rd m r)\<rparr>)"
| "exec mmu (Csrr r c # is) m = exec mmu is (wr r (m_csrs m c) m)"
| "exec mmu (Sfence # is) m = exec mmu is m"
| "exec mmu (Jr r # is) m = Some (Goto (rd m r), m)"
| "exec mmu (Sret # is) m = Some (To_sepc, m)"
| "exec mmu (Call f # is) m = Some (Calls f is, m)"

section \<open>The code\<close>

definition swtch :: "instr list" where
  "swtch =
    [Sd RA 0 A0, Sd SP 8 A0, Sd S0 16 A0, Sd S1 24 A0, Sd S2 32 A0, Sd S3 40 A0, Sd S4 48 A0, Sd S5 56 A0, Sd S6 64 A0,
     Sd S7 72 A0, Sd S8 80 A0, Sd S9 88 A0, Sd S10 96 A0, Sd S11 104 A0,
     Ld RA 0 A1, Ld SP 8 A1, Ld S0 16 A1, Ld S1 24 A1, Ld S2 32 A1, Ld S3 40 A1, Ld S4 48 A1, Ld S5 56 A1, Ld S6 64 A1,
     Ld S7 72 A1, Ld S8 80 A1, Ld S9 88 A1, Ld S10 96 A1, Ld S11 104 A1,
     Jr RA]"

definition uservec :: "instr list" where
  "uservec =
    [Csrw SSCRATCH A0, Li A0 TRAPFRAME,
     Sd RA 40 A0, Sd SP 48 A0, Sd GP 56 A0, Sd TP 64 A0, Sd T0 72 A0, Sd T1 80 A0, Sd T2 88 A0, Sd S0 96 A0, Sd S1 104 A0,
     Sd A1 120 A0, Sd A2 128 A0, Sd A3 136 A0, Sd A4 144 A0, Sd A5 152 A0, Sd A6 160 A0, Sd A7 168 A0,
     Sd S2 176 A0, Sd S3 184 A0, Sd S4 192 A0, Sd S5 200 A0, Sd S6 208 A0, Sd S7 216 A0, Sd S8 224 A0, Sd S9 232 A0,
     Sd S10 240 A0, Sd S11 248 A0, Sd T3 256 A0, Sd T4 264 A0, Sd T5 272 A0, Sd T6 280 A0,
     Csrr T0 SSCRATCH, Sd T0 112 A0, Ld SP 8 A0, Ld TP 32 A0, Ld T0 16 A0, Ld T1 0 A0,
     Sfence, Csrw SATP T1, Sfence, Jr T0]"

definition userret :: "instr list" where
  "userret =
    [Sfence, Csrw SATP A0, Sfence, Li A0 TRAPFRAME,
     Ld RA 40 A0, Ld SP 48 A0, Ld GP 56 A0, Ld TP 64 A0, Ld T0 72 A0, Ld T1 80 A0, Ld T2 88 A0, Ld S0 96 A0, Ld S1 104 A0,
     Ld A1 120 A0, Ld A2 128 A0, Ld A3 136 A0, Ld A4 144 A0, Ld A5 152 A0, Ld A6 160 A0, Ld A7 168 A0,
     Ld S2 176 A0, Ld S3 184 A0, Ld S4 192 A0, Ld S5 200 A0, Ld S6 208 A0, Ld S7 216 A0, Ld S8 224 A0, Ld S9 232 A0,
     Ld S10 240 A0, Ld S11 248 A0, Ld T3 256 A0, Ld T4 264 A0, Ld T5 272 A0, Ld T6 280 A0,
     Ld A0 112 A0, Sret]"

definition kernelvec :: "instr list" where
  "kernelvec =
    [Addi SP SP (-256),
     Sd RA 0 SP, Sd SP 8 SP, Sd GP 16 SP, Sd TP 24 SP, Sd T0 32 SP, Sd T1 40 SP, Sd T2 48 SP, Sd A0 72 SP, Sd A1 80 SP, Sd A2 88 SP,
     Sd A3 96 SP, Sd A4 104 SP, Sd A5 112 SP, Sd A6 120 SP, Sd A7 128 SP, Sd T3 216 SP, Sd T4 224 SP, Sd T5 232 SP, Sd T6 240 SP,
     Call ''kerneltrap'',
     Ld RA 0 SP, Ld SP 8 SP, Ld GP 16 SP, Ld T0 32 SP, Ld T1 40 SP, Ld T2 48 SP, Ld A0 72 SP, Ld A1 80 SP, Ld A2 88 SP,
     Ld A3 96 SP, Ld A4 104 SP, Ld A5 112 SP, Ld A6 120 SP, Ld A7 128 SP, Ld T3 216 SP, Ld T4 224 SP, Ld T5 232 SP, Ld T6 240 SP,
     Addi SP SP 256, Sret]"

text \<open>\<open>stack0\<close> is the address the linker gives to the stacks.\<close>

definition entry :: "uint64 \<Rightarrow> instr list" where
  "entry stack0 =
    [Li SP stack0, Li A0 (1024 * 4), Csrr A1 MHARTID, Addi A1 A1 1, Mul A0 A0 A1, Add SP SP A0, Call ''start'']"

section \<open>Words in memory\<close>

definition apart :: "uint64 \<Rightarrow> uint64 \<Rightarrow> bool" where
  "apart a b \<longleftrightarrow> 8 \<le> unat (a - b) \<and> 8 \<le> unat (b - a)"

lemma load64_store64_apart:
  assumes "apart a b"
  shows "load64 (store64 m a v) b = load64 m b"
proof -
  have "8 \<le> unat (b + of_nat i - a)" if i: "i < 8" for i
  proof (rule ccontr)
    assume "\<not> 8 \<le> unat (b + of_nat i - a)"
    then obtain j where j: "j < 8" "unat (b + of_nat i - a) = j" by auto
    then have "b + of_nat i = a + of_nat j" by (simp add: unat_sub_eq_iff)
    then have e: "b - a = of_nat j - of_nat i" "a - b = of_nat i - of_nat j" by (simp_all add: algebra_simps)
    show False
    proof (cases "i \<le> j")
      case True
      then have "b - a = of_nat (j - i)" using e(1) by (simp add: of_nat_diff)
      then have "unat (b - a) = j - i" using j(1) by (simp add: unat_of_nat take_bit_nat_eq_self)
      then show False using assms j(1) by (auto simp: apart_def)
    next
      case False
      then have "a - b = of_nat (i - j)" using e(2) by (simp add: of_nat_diff)
      then have "unat (a - b) = i - j" using i by (simp add: unat_of_nat take_bit_nat_eq_self)
      then show False using assms i by (auto simp: apart_def)
    qed
  qed
  then have "load_bytes (store64 m a v) b 8 = load_bytes m b 8"
    by (intro load_bytes_cong) (auto simp: store64_apply not_less [symmetric])
  then show ?thesis by (simp add: load64_def)
qed

text \<open>Two different slots of a page.\<close>

lemma apart_slots:
  assumes "i < 4096" and "j < 4096" and "8 dvd i" and "8 dvd j" and "i \<noteq> j"
  shows "apart (a + of_nat i) (a + of_nat j)"
proof -
  have d: "8 \<le> unat (of_nat x - of_nat y :: uint64)" if "x < 4096" "y < 4096" "8 dvd x" "8 dvd y" "x \<noteq> y" for x y
  proof (cases "y \<le> x")
    case True
    then have "(of_nat x - of_nat y :: uint64) = of_nat (x - y)" by (simp add: of_nat_diff)
    moreover have "8 \<le> x - y" using that True by (auto elim!: dvdE)
    ultimately show ?thesis using that by (simp add: unat_of_nat take_bit_nat_eq_self del: of_nat_diff)
  next
    case False
    then have "(of_nat x - of_nat y :: uint64) = - of_nat (y - x)" by (simp add: of_nat_diff)
    moreover have "(- of_nat (y - x) :: uint64) = of_nat (2 ^ 64 - (y - x))" using that by (simp add: of_nat_diff)
    moreover have "unat (of_nat (2 ^ 64 - (y - x)) :: uint64) = 2 ^ 64 - (y - x)"
      using False by (simp add: unat_of_nat take_bit_nat_eq_self del: of_nat_diff)
    ultimately show ?thesis using that by simp
  qed
  show ?thesis using d [OF assms(1-5)] d [of j i] assms by (simp add: apart_def)
qed


section \<open>Saving and restoring registers\<close>

definition saves :: "(reg \<times> nat) list \<Rightarrow> reg \<Rightarrow> instr list" where
  "saves l b = map (\<lambda>(r, i). Sd r i b) l"

definition restores :: "(reg \<times> nat) list \<Rightarrow> reg \<Rightarrow> instr list" where
  "restores l b = map (\<lambda>(r, i). Ld r i b) l"

text \<open>Slots in one page, none used twice.\<close>

definition slots :: "(reg \<times> nat) list \<Rightarrow> bool" where
  "slots l \<longleftrightarrow> distinct (map fst l) \<and> distinct (map snd l) \<and> ZERO \<notin> fst ` set l \<and> (\<forall>i \<in> snd ` set l. 8 dvd i \<and> i < 4096)"

lemma rd_mem [simp]: "rd (m\<lparr>m_mem := M\<rparr>) r = rd m r"
  by (simp add: rd_def)

lemma wr_sel [simp]: "m_mem (wr r v m) = m_mem m" "m_csrs (wr r v m) = m_csrs m" "m_regs (wr r v m) = (m_regs m)(r := v)"
  by (simp_all add: wr_def)

lemma exec_saves:
  assumes "slots l" and "\<And>i. i \<in> snd ` set l \<Longrightarrow> mmu (m_csrs m SATP) (rd m b + of_nat i) = base + of_nat i"
  shows "\<exists>M. exec mmu (saves l b @ k) m = exec mmu k (m\<lparr>m_mem := M\<rparr>) \<and> (\<forall>(r, i) \<in> set l. load64 M (base + of_nat i) = rd m r) \<and>
    (\<forall>a. (\<forall>i \<in> snd ` set l. apart (base + of_nat i) a) \<longrightarrow> load64 M a = load64 (m_mem m) a)"
  using assms
proof (induction l arbitrary: m)
  case Nil
  then show ?case by (intro exI [of _ "m_mem m"]) (simp add: saves_def)
next
  case (Cons p l)
  obtain r i where p: "p = (r, i)" by (cases p)
  let ?m = "m\<lparr>m_mem := store64 (m_mem m) (base + of_nat i) (rd m r)\<rparr>"
  have l: "slots l" "\<And>j. j \<in> snd ` set l \<Longrightarrow> mmu (m_csrs ?m SATP) (rd ?m b + of_nat j) = base + of_nat j"
    using Cons.prems by (auto simp: slots_def)
  from Cons.IH [OF l] obtain M where M: "exec mmu (saves l b @ k) ?m = exec mmu k (?m\<lparr>m_mem := M\<rparr>)"
    "\<forall>(r, i) \<in> set l. load64 M (base + of_nat i) = rd m r"
    "\<And>a. (\<forall>i \<in> snd ` set l. apart (base + of_nat i) a) \<Longrightarrow> load64 M a = load64 (m_mem ?m) a" by auto
  have "apart (base + of_nat j) (base + of_nat i)" if "j \<in> snd ` set l" for j
    by (rule apart_slots) (use Cons.prems(1) that in \<open>auto simp: slots_def p image_iff\<close>)
  then have "load64 M (base + of_nat i) = rd m r" using M(3) [of "base + of_nat i"] by simp
  moreover have "load64 M a = load64 (m_mem m) a" if "\<forall>i \<in> snd ` set (p # l). apart (base + of_nat i) a" for a
    using M(3) [of a] that by (simp add: p load64_store64_apart)
  moreover have "exec mmu (saves (p # l) b @ k) m = exec mmu k (m\<lparr>m_mem := M\<rparr>)"
    using M(1) Cons.prems(2) [of i] by (simp add: saves_def p)
  ultimately show ?case using M(2) p by (intro exI [of _ M]) auto
qed

definition loaded :: "(reg \<times> nat) list \<Rightarrow> (nat \<Rightarrow> uint64) \<Rightarrow> (reg \<Rightarrow> uint64) \<Rightarrow> reg \<Rightarrow> uint64" where
  "loaded l f R r = (case map_of l r of Some i \<Rightarrow> f i | None \<Rightarrow> R r)"

lemma loaded_in: "slots l \<Longrightarrow> \<forall>(r, i) \<in> set l. loaded l f R r = f i"
  by (auto simp: loaded_def slots_def)

lemma loaded_out: "r \<notin> fst ` set l \<Longrightarrow> loaded l f R r = R r"
  by (simp add: loaded_def map_of_eq_None_iff [THEN iffD2])

lemma exec_restores:
  assumes "slots l" and "b \<notin> fst ` set l" and "\<And>i. i \<in> snd ` set l \<Longrightarrow> load64 (m_mem m) (mmu (m_csrs m SATP) (rd m b + of_nat i)) = f i"
  shows "exec mmu (restores l b @ k) m = exec mmu k (m\<lparr>m_regs := loaded l f (m_regs m)\<rparr>)"
  using assms
proof (induction l arbitrary: m)
  case Nil
  then show ?case by (simp add: restores_def loaded_def [abs_def])
next
  case (Cons p l)
  obtain r i where p: "p = (r, i)" by (cases p)
  have b: "rd (wr r v m) b = rd m b" for v using Cons.prems(2) by (simp add: rd_def p)
  have n: "map_of l r = None" and l: "slots l" using Cons.prems(1) p by (auto simp: map_of_eq_None_iff slots_def)
  have "exec mmu (restores (p # l) b @ k) m = exec mmu (restores l b @ k) (wr r (f i) m)"
    using Cons.prems(3) [of i] by (simp add: restores_def p)
  also have "\<dots> = exec mmu k ((wr r (f i) m)\<lparr>m_regs := loaded l f (m_regs (wr r (f i) m))\<rparr>)"
    using Cons.prems b by (intro Cons.IH l) auto
  also have "loaded l f (m_regs (wr r (f i) m)) = loaded (p # l) f (m_regs m)"
    using n by (auto simp: p fun_eq_iff loaded_def split: option.splits)
  finally show ?case by (simp add: wr_def)
qed

section \<open>Structures in memory\<close>

definition ctx_at :: "memory \<Rightarrow> uint64 \<Rightarrow> kcontext" where
  "ctx_at M a = \<lparr>ctx_ra = load64 M (a + of_nat 0), ctx_sp = load64 M (a + of_nat 8),
     ctx_s = map (\<lambda>i. load64 M (a + of_nat i)) [16, 24, 32, 40, 48, 56, 64, 72, 80, 88, 96, 104]\<rparr>"

definition ctx_of :: "mach \<Rightarrow> kcontext" where
  "ctx_of m = \<lparr>ctx_ra = m_regs m RA, ctx_sp = m_regs m SP, ctx_s = map (m_regs m) [S0, S1, S2, S3, S4, S5, S6, S7, S8, S9, S10, S11]\<rparr>"

definition ctx_slots :: "(reg \<times> nat) list" where
  "ctx_slots = [(RA, 0), (SP, 8), (S0, 16), (S1, 24), (S2, 32), (S3, 40), (S4, 48), (S5, 56), (S6, 64), (S7, 72), (S8, 80), (S9, 88),
     (S10, 96), (S11, 104)]"

lemma swtch_eq: "swtch = saves ctx_slots A0 @ restores ctx_slots A1 @ [Jr RA]"
  by (simp add: swtch_def saves_def restores_def ctx_slots_def)

lemma slots_ctx: "slots ctx_slots"
  by (simp add: slots_def ctx_slots_def)

lemma ctx_at_slots: "(\<forall>(r, i) \<in> set ctx_slots. load64 M (a + of_nat i) = m_regs m r) \<Longrightarrow> ctx_at M a = ctx_of m"
  unfolding ctx_slots_def by (simp add: ctx_at_def ctx_of_def)

text \<open>The user registers in the trap frame, but for \<^verbatim>\<open>a0\<close>.\<close>

definition user_slots :: "(reg \<times> nat) list" where
  "user_slots = [(RA, 40), (SP, 48), (GP, 56), (TP, 64), (T0, 72), (T1, 80), (T2, 88), (S0, 96), (S1, 104), (A1, 120), (A2, 128), (A3, 136),
     (A4, 144), (A5, 152), (A6, 160), (A7, 168), (S2, 176), (S3, 184), (S4, 192), (S5, 200), (S6, 208), (S7, 216), (S8, 224), (S9, 232),
     (S10, 240), (S11, 248), (T3, 256), (T4, 264), (T5, 272), (T6, 280)]"

lemma uservec_eq: "uservec = Csrw SSCRATCH A0 # Li A0 TRAPFRAME # saves user_slots A0 @
    [Csrr T0 SSCRATCH, Sd T0 112 A0, Ld SP 8 A0, Ld TP 32 A0, Ld T0 16 A0, Ld T1 0 A0, Sfence, Csrw SATP T1, Sfence, Jr T0]"
  by (simp add: uservec_def saves_def user_slots_def)

lemma userret_eq: "userret = Sfence # Csrw SATP A0 # Sfence # Li A0 TRAPFRAME # restores user_slots A0 @ [Ld A0 112 A0, Sret]"
  by (simp add: userret_def restores_def user_slots_def)

lemma slots_user: "slots user_slots"
  by (simp add: slots_def user_slots_def)

definition tf_at :: "memory \<Rightarrow> uint64 \<Rightarrow> trapframe" where
  "tf_at M a = (let f = \<lambda>i. load64 M (a + of_nat i)
     in \<lparr>tf_kernel_satp = f 0, tf_kernel_sp = f 8, tf_kernel_trap = f 16, tf_epc = f 24, tf_kernel_hartid = f 32,
         tf_ra = f 40, tf_sp = f 48, tf_gp = f 56, tf_tp = f 64, tf_t = map f [72, 80, 88, 256, 264, 272, 280],
         tf_s = map f [96, 104, 176, 184, 192, 200, 208, 216, 224, 232, 240, 248], tf_a0 = f 112, tf_a1 = f 120, tf_a2 = f 128,
         tf_a3 = f 136, tf_a4 = f 144, tf_a5 = f 152, tf_a6 = f 160, tf_a7 = f 168\<rparr>)"

text \<open>The trap frame \<open>t\<close> with the user registers of \<open>m\<close> in it.\<close>

definition user_tf :: "mach \<Rightarrow> trapframe \<Rightarrow> trapframe" where
  "user_tf m t = t\<lparr>tf_ra := m_regs m RA, tf_sp := m_regs m SP, tf_gp := m_regs m GP, tf_tp := m_regs m TP,
     tf_t := map (m_regs m) [T0, T1, T2, T3, T4, T5, T6], tf_s := map (m_regs m) [S0, S1, S2, S3, S4, S5, S6, S7, S8, S9, S10, S11],
     tf_a0 := m_regs m A0, tf_a1 := m_regs m A1, tf_a2 := m_regs m A2, tf_a3 := m_regs m A3, tf_a4 := m_regs m A4, tf_a5 := m_regs m A5,
     tf_a6 := m_regs m A6, tf_a7 := m_regs m A7\<rparr>"

lemma tf_at_slots:
  assumes "\<forall>(r, i) \<in> set user_slots. load64 M (a + of_nat i) = m_regs m r" and "load64 M (a + of_nat 112) = m_regs m A0"
    and "\<forall>i \<in> {0, 8, 16, 24, 32}. load64 M (a + of_nat i) = load64 N (a + of_nat i)"
  shows "tf_at M a = user_tf m (tf_at N a)"
  using assms unfolding user_slots_def by (simp add: tf_at_def user_tf_def Let_def)

lemma user_tf_slots:
  assumes "tf_at M a = user_tf m t"
  shows "\<forall>(r, i) \<in> set user_slots. load64 M (a + of_nat i) = m_regs m r" and "load64 M (a + of_nat 112) = m_regs m A0"
  using assms unfolding user_slots_def by (cases t; simp add: tf_at_def user_tf_def Let_def)+

section \<open>The two halves of the trampoline\<close>

lemma user_slots_small: "i \<in> snd ` set user_slots \<Longrightarrow> i < 4096"
  and user_slots_off: "i \<in> snd ` set user_slots \<Longrightarrow> 8 dvd i \<and> i \<notin> {0, 8, 16, 24, 32, 112}"
  by (auto simp: user_slots_def)

lemma user_slots_regs: "(r, i) \<in> set user_slots \<Longrightarrow> r \<noteq> A0 \<and> r \<noteq> ZERO"
  by (auto simp: user_slots_def)

lemma uservec_enters:
  fixes u tf
  defines "F \<equiv> tf_at (m_mem u) tf"
  assumes "\<And>i. i < 4096 \<Longrightarrow> mmu (m_csrs u SATP) (TRAPFRAME + of_nat i) = tf + of_nat i"
  shows "\<exists>k. exec mmu uservec u = Some (Goto (tf_kernel_trap F), k) \<and> m_regs k SP = tf_kernel_sp F \<and> m_regs k TP = tf_kernel_hartid F \<and>
    m_csrs k SATP = tf_kernel_satp F \<and> tf_at (m_mem k) tf = user_tf u F"
proof -
  let ?u = "wr A0 TRAPFRAME (u\<lparr>m_csrs := (m_csrs u)(SSCRATCH := m_regs u A0)\<rparr>)"
  let ?rest = "[Csrr T0 SSCRATCH, Sd T0 112 A0, Ld SP 8 A0, Ld TP 32 A0, Ld T0 16 A0, Ld T1 0 A0, Sfence, Csrw SATP T1, Sfence, Jr T0]"
  have "mmu (m_csrs ?u SATP) (rd ?u A0 + of_nat i) = tf + of_nat i" if "i \<in> snd ` set user_slots" for i
    using assms(2) [OF user_slots_small [OF that]] by (simp add: rd_def)
  from exec_saves [where m = ?u and b = A0 and base = tf and mmu = mmu and k = ?rest, OF slots_user this]
  obtain M where M: "exec mmu (saves user_slots A0 @ ?rest) ?u = exec mmu ?rest (?u\<lparr>m_mem := M\<rparr>)"
    "\<forall>(r, i) \<in> set user_slots. load64 M (tf + of_nat i) = rd ?u r"
    "\<And>a. (\<forall>i \<in> snd ` set user_slots. apart (tf + of_nat i) a) \<Longrightarrow> load64 M a = load64 (m_mem u) a" by auto
  let ?M = "store64 M (tf + of_nat 112) (m_regs u A0)"
  have ap: "apart (tf + of_nat i) (tf + of_nat j)" if "i \<in> insert 112 (snd ` set user_slots)" "j \<in> {0, 8, 16, 24, 32}" for i j
  proof -
    have "i < 4096 \<and> 8 dvd i \<and> i \<notin> {0, 8, 16, 24, 32}"
      using that(1) user_slots_small [of i] user_slots_off [of i] by (elim insertE) simp_all
    then show ?thesis using that(2) by (intro apart_slots) auto
  qed
  have kernel: "load64 ?M (tf + of_nat j) = load64 (m_mem u) (tf + of_nat j)" if "j \<in> {0, 8, 16, 24, 32}" for j
    unfolding load64_store64_apart [OF ap [OF insertI1 that]] using ap that by (intro M(3)) blast
  have "apart (tf + of_nat 112) (tf + of_nat i)" if "i \<in> snd ` set user_slots" for i
    by (rule apart_slots) (use user_slots_small [OF that] user_slots_off [OF that] in auto)
  note a112 = this
  have "\<forall>(r, i) \<in> set user_slots. load64 ?M (tf + of_nat i) = m_regs u r"
  proof clarify
    fix r i
    assume ri: "(r, i) \<in> set user_slots"
    then have i: "i \<in> snd ` set user_slots" by force
    have "load64 M (tf + of_nat i) = rd ?u r" using M(2) ri by blast
    also have "rd ?u r = m_regs u r" using user_slots_regs [OF ri] by (simp add: rd_def)
    finally show "load64 ?M (tf + of_nat i) = m_regs u r" by (simp only: load64_store64_apart [OF a112 [OF i]])
  qed
  moreover have "load64 ?M (tf + of_nat 112) = m_regs u A0" by simp
  ultimately have tf: "tf_at ?M tf = user_tf u F" unfolding F_def using kernel by (intro tf_at_slots) auto
  have "exec mmu uservec u = exec mmu ?rest (?u\<lparr>m_mem := M\<rparr>)" unfolding uservec_eq using M(1) by (simp add: rd_def)
  also have "\<dots> = Some (Goto (load64 ?M (tf + 16)), ?u\<lparr>m_mem := ?M, m_regs := (m_regs ?u)(T0 := m_regs u A0, SP := load64 ?M (tf + 8),
      TP := load64 ?M (tf + 32), T0 := load64 ?M (tf + 16), T1 := load64 ?M tf), m_csrs := (m_csrs ?u)(SATP := load64 ?M tf)\<rparr>)"
    using assms(2) [of 112] assms(2) [of 8] assms(2) [of 32] assms(2) [of 16] assms(2) [of 0] by (simp add: rd_def wr_def)
  finally have e: "exec mmu uservec u = \<dots>" .
  have "load64 ?M (tf + 16) = tf_kernel_trap F" "load64 ?M (tf + 8) = tf_kernel_sp F" "load64 ?M (tf + 32) = tf_kernel_hartid F" "load64 ?M tf = tf_kernel_satp F"
    using kernel [of 0] kernel [of 8] kernel [of 16] kernel [of 32] by (simp_all add: F_def tf_at_def Let_def)
  with e tf show ?thesis by simp
qed

lemma userret_leaves:
  assumes "\<And>i. i < 4096 \<Longrightarrow> mmu pt (TRAPFRAME + of_nat i) = tf + of_nat i" and "tf_at (m_mem r) tf = user_tf u t" and "m_regs r A0 = pt"
  shows "\<exists>u'. exec mmu userret r = Some (To_sepc, u') \<and> m_csrs u' SATP = pt \<and> m_mem u' = m_mem r \<and> (\<forall>x. x \<noteq> ZERO \<longrightarrow> m_regs u' x = m_regs u x)"
proof -
  let ?r = "wr A0 TRAPFRAME (r\<lparr>m_csrs := (m_csrs r)(SATP := pt)\<rparr>)" and ?f = "\<lambda>i. load64 (m_mem r) (tf + of_nat i)"
  define R where "R = loaded user_slots ?f (m_regs ?r)"
  have m: "mmu pt (TRAPFRAME + of_nat i) = tf + of_nat i" if "i \<in> snd ` set user_slots" for i
    by (rule assms(1) [OF user_slots_small [OF that]])
  have "exec mmu (restores user_slots A0 @ [Ld A0 112 A0, Sret]) ?r = exec mmu [Ld A0 112 A0, Sret] (?r\<lparr>m_regs := loaded user_slots ?f (m_regs ?r)\<rparr>)"
    by (rule exec_restores [OF slots_user]) (use m in \<open>auto simp: rd_def user_slots_def\<close>)
  moreover have "R A0 = TRAPFRAME" unfolding R_def by (subst loaded_out) (simp_all add: user_slots_def)
  ultimately have e: "exec mmu userret r = Some (To_sepc, (?r\<lparr>m_regs := R(A0 := ?f 112)\<rparr>))"
    unfolding userret_eq using assms(1) [of 112] assms(3) by (simp add: rd_def R_def wr_def)
  have "\<forall>(x, i) \<in> set user_slots. R x = m_regs u x"
    using loaded_in [OF slots_user, of ?f "m_regs ?r"] user_tf_slots(1) [OF assms(2)] by (fastforce simp: R_def)
  then have "(R(A0 := ?f 112)) x = m_regs u x" if "x \<noteq> ZERO" for x
    using that user_tf_slots(2) [OF assms(2)] unfolding user_slots_def by (cases x) auto
  then show ?thesis using e by (simp add: wr_def)
qed

section \<open>The kernel's own traps\<close>

definition kv_slots :: "(reg \<times> nat) list" where
  "kv_slots = [(RA, 0), (SP, 8), (GP, 16), (TP, 24), (T0, 32), (T1, 40), (T2, 48), (A0, 72), (A1, 80), (A2, 88), (A3, 96), (A4, 104), (A5, 112),
     (A6, 120), (A7, 128), (T3, 216), (T4, 224), (T5, 232), (T6, 240)]"

definition kv_rest :: "(reg \<times> nat) list" where
  "kv_rest = [(GP, 16), (T0, 32), (T1, 40), (T2, 48), (A0, 72), (A1, 80), (A2, 88), (A3, 96), (A4, 104), (A5, 112),
     (A6, 120), (A7, 128), (T3, 216), (T4, 224), (T5, 232), (T6, 240)]"

lemma kernelvec_eq: "kernelvec = Addi SP SP (-256) # saves kv_slots SP @
    Call ''kerneltrap'' # Ld RA 0 SP # Ld SP 8 SP # restores kv_rest SP @ [Addi SP SP 256, Sret]"
  by (simp add: kernelvec_def saves_def restores_def kv_slots_def kv_rest_def)

lemma slots_kv: "slots kv_slots" "slots kv_rest" "set kv_rest \<subseteq> set kv_slots" "SP \<notin> fst ` set kv_rest"
  by (simp_all add: slots_def kv_slots_def kv_rest_def)

lemma kv_slots_small: "i \<in> snd ` set kv_slots \<Longrightarrow> i < 256 \<and> 8 dvd i"
  by (auto simp: kv_slots_def)

lemma kv_cases: "x \<in> fst ` set kv_rest \<or> x \<in> {ZERO, TP} \<or> x \<in> {RA, SP, S0, S1, S2, S3, S4, S5, S6, S7, S8, S9, S10, S11}"
  by (cases x) (simp_all add: kv_rest_def)

lemma kernelvec_restores:
  assumes "\<And>i. i < 256 \<Longrightarrow> mmu (m_csrs m2 SATP) (m_regs m2 SP + of_nat i) = base + of_nat i" and "m_regs m2 SP = m_regs m SP - 256"
    and "\<forall>(r, i) \<in> set kv_slots. load64 (m_mem m2) (base + of_nat i) = (if r = SP then m_regs m SP - 256 else m_regs m r)"
    and "\<And>x. x \<in> {S0, S1, S2, S3, S4, S5, S6, S7, S8, S9, S10, S11} \<Longrightarrow> m_regs m2 x = m_regs m x"
  shows "\<exists>m3. exec mmu (Ld RA 0 SP # Ld SP 8 SP # restores kv_rest SP @ [Addi SP SP 256, Sret]) m2 = Some (To_sepc, m3) \<and>
    m_mem m3 = m_mem m2 \<and> m_csrs m3 = m_csrs m2 \<and> m_regs m3 TP = m_regs m2 TP \<and> (\<forall>x. x \<notin> {ZERO, TP} \<longrightarrow> m_regs m3 x = m_regs m x)"
proof -
  let ?f = "\<lambda>i. load64 (m_mem m2) (base + of_nat i)"
  let ?m = "wr RA (m_regs m RA) m2"
  have sp: "(m_regs m2)(RA := v, SP := m_regs m SP - 256) = (m_regs m2)(RA := v)" for v
    using assms(2) by (auto simp: fun_eq_iff)
  have f: "?f 0 = m_regs m RA" "?f 8 = m_regs m SP - 256" using assms(3) by (simp_all add: kv_slots_def)
  have "exec mmu (Ld RA 0 SP # Ld SP 8 SP # restores kv_rest SP @ [Addi SP SP 256, Sret]) m2 =
      exec mmu (restores kv_rest SP @ [Addi SP SP 256, Sret]) ?m"
    using assms(1) [of 0] assms(1) [of 8] f sp [of "m_regs m RA"] by (simp add: rd_def wr_def)
  also have "\<dots> = exec mmu [Addi SP SP 256, Sret] (?m\<lparr>m_regs := loaded kv_rest ?f (m_regs ?m)\<rparr>)"
  proof (rule exec_restores [OF slots_kv(2,4)])
    fix i
    assume "i \<in> snd ` set kv_rest"
    then have "i < 256" using kv_slots_small slots_kv(3) by blast
    from assms(1) [OF this] show "load64 (m_mem ?m) (mmu (m_csrs ?m SATP) (rd ?m SP + of_nat i)) = ?f i" by (simp add: rd_def)
  qed
  finally have e: "exec mmu (Ld RA 0 SP # Ld SP 8 SP # restores kv_rest SP @ [Addi SP SP 256, Sret]) m2 =
      exec mmu [Addi SP SP 256, Sret] (?m\<lparr>m_regs := loaded kv_rest ?f (m_regs ?m)\<rparr>)" .
  let ?R = "loaded kv_rest ?f (m_regs ?m)"
  have r1: "?R x = m_regs m x" if "x \<in> fst ` set kv_rest" for x
  proof -
    from that obtain i where i: "(x, i) \<in> set kv_rest" by auto
    then have "?R x = ?f i" using loaded_in [OF slots_kv(2), of ?f "m_regs ?m"] by blast
    moreover have "x \<noteq> SP" "(x, i) \<in> set kv_slots" using that slots_kv(3,4) i by blast+
    ultimately show ?thesis using assms(3) by auto
  qed
  have r2: "?R x = m_regs ?m x" if "x \<in> {RA, SP, TP, S0, S1, S2, S3, S4, S5, S6, S7, S8, S9, S10, S11}" for x
    by (rule loaded_out) (use that in \<open>auto simp: kv_rest_def\<close>)
  have "(?R(SP := ?R SP + 256)) x = m_regs m x" if "x \<notin> {ZERO, TP}" for x
  proof (cases "x \<in> fst ` set kv_rest")
    case True
    then have "x \<noteq> SP" using slots_kv(4) by blast
    then show ?thesis using r1 [OF True] by simp
  next
    case False
    then have x: "x \<in> {RA, SP, S0, S1, S2, S3, S4, S5, S6, S7, S8, S9, S10, S11}" using kv_cases [of x] that by blast
    then have "?R x = m_regs ?m x" by (intro r2) blast
    then show ?thesis using x assms(2,4) by (cases "x = SP"; cases "x = RA") simp_all
  qed
  moreover have "?R TP = m_regs m2 TP" by (subst loaded_out) (simp_all add: kv_rest_def)
  ultimately show ?thesis unfolding e by (simp add: rd_def wr_def)
qed

text \<open>Each hart starts \<open>start\<close> at the top of a page of stack of its own.\<close>

lemma entry_stack: "\<exists>m'. exec mmu (entry stack0) m = Some (Calls ''start'' [], m') \<and> m_regs m' SP = stack0 + 4096 * (m_csrs m MHARTID + 1)"
  by (simp add: entry_def rd_def wr_def)

section \<open>Properties\<close>

definition sample_mach :: mach where
  "sample_mach = \<lparr>m_regs = (\<lambda>_. 0)(A0 := 0x1000, A1 := 0x2000, SP := 0x9000, RA := 5, S3 := 33), m_csrs = \<lambda>_. 0, m_mem = \<lambda>_. 0\<rparr>"


text \<open>
  C35: \<^verbatim>\<open>swtch(old, new)\<close> is a context switch. Run on two contexts that do not overlap, it stores the return
  address, the stack pointer and the callee-saved registers of the caller in the first, loads them from
  the second and jumps to the return address found there, and changes no other register.
\<close>

theorem swtch_switches:
  fixes m
  defines "old \<equiv> m_regs m A0" and "new \<equiv> m_regs m A1"
  assumes "\<And>a. mmu (m_csrs m SATP) a = a" and "\<And>i j. i \<in> snd ` set ctx_slots \<Longrightarrow> j \<in> snd ` set ctx_slots \<Longrightarrow> apart (old + of_nat i) (new + of_nat j)"
  shows "\<exists>m'. exec mmu swtch m = Some (Goto (ctx_ra (ctx_at (m_mem m) new)), m') \<and> ctx_at (m_mem m') old = ctx_of m \<and>
    ctx_of m' = ctx_at (m_mem m) new \<and> ctx_at (m_mem m') new = ctx_at (m_mem m) new \<and> m_csrs m' = m_csrs m \<and>
    (\<forall>r. r \<notin> fst ` set ctx_slots \<longrightarrow> m_regs m' r = m_regs m r)"
proof -
  have b: "rd m A0 = old" "rd m A1 = new" by (simp_all add: rd_def old_def new_def)
  obtain M where M: "exec mmu (saves ctx_slots A0 @ restores ctx_slots A1 @ [Jr RA]) m = exec mmu (restores ctx_slots A1 @ [Jr RA]) (m\<lparr>m_mem := M\<rparr>)"
    "\<forall>(r, i) \<in> set ctx_slots. load64 M (old + of_nat i) = rd m r"
    "\<And>a. (\<forall>i \<in> snd ` set ctx_slots. apart (old + of_nat i) a) \<Longrightarrow> load64 M a = load64 (m_mem m) a"
    using exec_saves [OF slots_ctx, of mmu m A0 old "restores ctx_slots A1 @ [Jr RA]"] assms(3) b(1) by auto
  have new: "\<forall>(r, i) \<in> set ctx_slots. load64 M (new + of_nat i) = load64 (m_mem m) (new + of_nat i)"
    using M(3) assms(4) by fastforce
  define R where "R = loaded ctx_slots (\<lambda>i. load64 M (new + of_nat i)) (m_regs m)"
  let ?m = "m\<lparr>m_mem := M, m_regs := R\<rparr>"
  have r: "\<forall>(r, i) \<in> set ctx_slots. R r = load64 M (new + of_nat i)" unfolding R_def by (rule loaded_in [OF slots_ctx])
  have "exec mmu (restores ctx_slots A1 @ [Jr RA]) (m\<lparr>m_mem := M\<rparr>) = exec mmu [Jr RA] (m\<lparr>m_mem := M, m_regs := loaded ctx_slots
      (\<lambda>i. load64 M (new + of_nat i)) (m_regs (m\<lparr>m_mem := M\<rparr>))\<rparr>)"
    by (rule exec_restores [OF slots_ctx]) (use assms(3) b(2) in \<open>auto simp: ctx_slots_def\<close>)
  then have "exec mmu swtch m = Some (Goto (rd ?m RA), ?m)" unfolding swtch_eq M(1) by (simp add: R_def)
  moreover have "\<forall>(r, i) \<in> set ctx_slots. load64 M (old + of_nat i) = m_regs m r"
    using M(2) unfolding ctx_slots_def by (simp add: rd_def)
  then have "ctx_at M old = ctx_of m" by (rule ctx_at_slots)
  moreover have c: "ctx_at M new = ctx_of ?m" by (rule ctx_at_slots) (use r in auto)
  moreover have "ctx_at M new = ctx_at (m_mem m) new" using new unfolding ctx_slots_def by (simp add: ctx_at_def)
  moreover have "rd ?m RA = ctx_ra (ctx_of ?m)" by (simp add: rd_def ctx_of_def)
  moreover have "R x = m_regs m x" if "x \<notin> fst ` set ctx_slots" for x unfolding R_def using that by (rule loaded_out)
  ultimately show ?thesis by (intro exI [of _ ?m]) auto
qed

theorem swtch_switches_witness:
  "\<exists>m'. exec (\<lambda>_ a. a) swtch sample_mach = Some (Goto (ctx_ra (ctx_at (m_mem sample_mach) 0x2000)), m') \<and>
    ctx_at (m_mem m') 0x1000 = \<lparr>ctx_ra = 5, ctx_sp = 0x9000, ctx_s = [0, 0, 0, 33, 0, 0, 0, 0, 0, 0, 0, 0]\<rparr>"
proof -
  have r: "m_regs sample_mach A0 = 0x1000" "m_regs sample_mach A1 = 0x2000" by (simp_all add: sample_mach_def)
  have "apart (m_regs sample_mach A0 + of_nat i) (m_regs sample_mach A1 + of_nat j)" if "i < 112" "j < 112" for i j
  proof -
    have "18446744073709555712 + j - i = 18446744073709551616 + (4096 + j - i)" using that by simp
    then have "(18446744073709555712 + j - i) mod 18446744073709551616 = 4096 + j - i" using that by (simp only: mod_add_self1) simp
    then show ?thesis unfolding r using that by (simp add: apart_def unat_word_ariths unat_of_nat unat_sub_if') arith
  qed
  moreover have "i < 112" if "i \<in> snd ` set ctx_slots" for i using that by (auto simp: ctx_slots_def)
  ultimately show ?thesis
    using swtch_switches [of "\<lambda>_ a. a" sample_mach] unfolding r by (auto simp: ctx_of_def sample_mach_def)
qed

text \<open>
  C36: The trampoline restores the user's registers. When a user program traps, \<^verbatim>\<open>uservec\<close> stores all of
  its registers in the trap frame and enters \<^verbatim>\<open>usertrap\<close> on the kernel stack and page table the frame
  names; when the kernel later comes to \<^verbatim>\<open>userret\<close> with that frame, in which it may have put a result in \<^verbatim>\<open>a0\<close>
  and changed the fields of its own, the program goes on with exactly its registers, the result in \<^verbatim>\<open>a0\<close>
  and its own page table. The hardware maps the page \<^verbatim>\<open>TRAPFRAME\<close> of the user's page table to the frame.
\<close>

theorem trampoline_roundtrip:
  fixes u tf
  defines "pt \<equiv> m_csrs u SATP" and "F \<equiv> tf_at (m_mem u) tf"
  assumes "\<And>i. i < 4096 \<Longrightarrow> mmu pt (TRAPFRAME + of_nat i) = tf + of_nat i"
  shows "\<exists>k. exec mmu uservec u = Some (Goto (tf_kernel_trap F), k) \<and> m_regs k SP = tf_kernel_sp F \<and> m_regs k TP = tf_kernel_hartid F \<and>
    m_csrs k SATP = tf_kernel_satp F \<and> tf_at (m_mem k) tf = user_tf u F \<and>
    (\<forall>r t v. m_regs r A0 = pt \<and> tf_at (m_mem r) tf = (user_tf u t)\<lparr>tf_a0 := v\<rparr> \<longrightarrow>
      (\<exists>u'. exec mmu userret r = Some (To_sepc, u') \<and> m_csrs u' SATP = pt \<and> m_mem u' = m_mem r \<and>
        (\<forall>x. x \<noteq> ZERO \<longrightarrow> m_regs u' x = (if x = A0 then v else m_regs u x))))"
proof -
  have q: "\<exists>k. exec mmu uservec u = Some (Goto (tf_kernel_trap F), k) \<and> m_regs k SP = tf_kernel_sp F \<and> m_regs k TP = tf_kernel_hartid F \<and>
    m_csrs k SATP = tf_kernel_satp F \<and> tf_at (m_mem k) tf = user_tf u F"
    using uservec_enters [of mmu u tf] assms(3) unfolding pt_def F_def by blast
  moreover have "\<exists>u'. exec mmu userret r = Some (To_sepc, u') \<and> m_csrs u' SATP = pt \<and> m_mem u' = m_mem r \<and>
        (\<forall>x. x \<noteq> ZERO \<longrightarrow> m_regs u' x = (if x = A0 then v else m_regs u x))"
    if r: "m_regs r A0 = pt" "tf_at (m_mem r) tf = (user_tf u t)\<lparr>tf_a0 := v\<rparr>" for r t v
  proof -
    have "tf_at (m_mem r) tf = user_tf (wr A0 v u) t" using r(2) by (simp add: user_tf_def)
    from userret_leaves [OF _ this, of mmu pt] assms(3) r(1) show ?thesis by auto
  qed
  ultimately show ?thesis by blast
qed

theorem trampoline_roundtrip_witness:
  "\<exists>k u'. exec (\<lambda>_ a. a - TRAPFRAME + 0x3000) uservec sample_mach = Some (Goto (tf_kernel_trap (tf_at (m_mem sample_mach) 0x3000)), k) \<and>
    exec (\<lambda>_ a. a - TRAPFRAME + 0x3000) userret (k\<lparr>m_regs := (m_regs k)(A0 := 0)\<rparr>) = Some (To_sepc, u') \<and> m_regs u' S3 = 33 \<and> m_regs u' A0 = 0x1000"
proof -
  let ?mmu = "\<lambda>_ a. a - TRAPFRAME + 0x3000 :: uint64" and ?F = "tf_at (m_mem sample_mach) 0x3000"
  have "?mmu (m_csrs sample_mach SATP) (TRAPFRAME + of_nat i) = 0x3000 + of_nat i" for i by simp
  from trampoline_roundtrip [where mmu = ?mmu and u = sample_mach and tf = "0x3000", OF this] obtain k where
    k: "exec ?mmu uservec sample_mach = Some (Goto (tf_kernel_trap ?F), k)" "tf_at (m_mem k) 0x3000 = user_tf sample_mach ?F"
      "\<forall>r t v. m_regs r A0 = m_csrs sample_mach SATP \<and> tf_at (m_mem r) 0x3000 = (user_tf sample_mach t)\<lparr>tf_a0 := v\<rparr> \<longrightarrow>
        (\<exists>u'. exec ?mmu userret r = Some (To_sepc, u') \<and> m_csrs u' SATP = m_csrs sample_mach SATP \<and> m_mem u' = m_mem r \<and>
          (\<forall>x. x \<noteq> ZERO \<longrightarrow> m_regs u' x = (if x = A0 then v else m_regs sample_mach x)))"
    by blast
  have "user_tf sample_mach ?F = (user_tf sample_mach ?F)\<lparr>tf_a0 := m_regs sample_mach A0\<rparr>" by (simp add: user_tf_def)
  then obtain u' where "exec ?mmu userret (k\<lparr>m_regs := (m_regs k)(A0 := 0)\<rparr>) = Some (To_sepc, u')"
    "\<forall>x. x \<noteq> ZERO \<longrightarrow> m_regs u' x = (if x = A0 then m_regs sample_mach A0 else m_regs sample_mach x)"
    using k(3) [rule_format, of "k\<lparr>m_regs := (m_regs k)(A0 := 0)\<rparr>" "m_regs sample_mach A0" ?F] k(2) by (auto simp: sample_mach_def)
  then show ?thesis using k(1) by (auto simp: sample_mach_def)
qed

text \<open>
  C37: A trap in the kernel leaves the interrupted code's registers alone. \<^verbatim>\<open>kernelvec\<close> calls \<^verbatim>\<open>kerneltrap\<close> with 256 bytes
  of stack in use; when that returns by the calling convention, with the stack pointer, the callee-saved
  registers and the frame as they were, the code ends in \<^verbatim>\<open>sret\<close> with every register as at the trap
  except \<^verbatim>\<open>tp\<close>, which keeps the hart's number.
\<close>

theorem kernelvec_transparent:
  fixes m
  assumes "\<And>i. i < 256 \<Longrightarrow> mmu (m_csrs m SATP) (m_regs m SP - 256 + of_nat i) = base + of_nat i"
  shows "\<exists>rest m1. exec mmu kernelvec m = Some (Calls ''kerneltrap'' rest, m1) \<and> m_regs m1 = (m_regs m)(SP := m_regs m SP - 256) \<and> m_csrs m1 = m_csrs m \<and>
    (\<forall>m2. m_csrs m2 SATP = m_csrs m SATP \<and> (\<forall>x \<in> {SP, S0, S1, S2, S3, S4, S5, S6, S7, S8, S9, S10, S11}. m_regs m2 x = m_regs m1 x) \<and>
        (\<forall>i < 256. 8 dvd i \<longrightarrow> load64 (m_mem m2) (base + of_nat i) = load64 (m_mem m1) (base + of_nat i)) \<longrightarrow>
      (\<exists>m3. exec mmu rest m2 = Some (To_sepc, m3) \<and> m_mem m3 = m_mem m2 \<and> m_csrs m3 = m_csrs m2 \<and> m_regs m3 TP = m_regs m2 TP \<and>
        (\<forall>x. x \<notin> {ZERO, TP} \<longrightarrow> m_regs m3 x = m_regs m x)))"
proof -
  let ?rest = "Ld RA 0 SP # Ld SP 8 SP # restores kv_rest SP @ [Addi SP SP 256, Sret]"
  let ?m = "wr SP (m_regs m SP - 256) m"
  have "mmu (m_csrs ?m SATP) (rd ?m SP + of_nat i) = base + of_nat i" if "i \<in> snd ` set kv_slots" for i
    using assms kv_slots_small [OF that] by (simp add: rd_def)
  from exec_saves [where m = ?m and b = SP and base = base and mmu = mmu and k = "Call ''kerneltrap'' # ?rest", OF slots_kv(1) this]
  obtain M where M: "exec mmu (saves kv_slots SP @ Call ''kerneltrap'' # ?rest) ?m = Some (Calls ''kerneltrap'' ?rest, ?m\<lparr>m_mem := M\<rparr>)"
    "\<forall>(r, i) \<in> set kv_slots. load64 M (base + of_nat i) = rd ?m r" by auto
  have e: "exec mmu kernelvec m = Some (Calls ''kerneltrap'' ?rest, ?m\<lparr>m_mem := M\<rparr>)"
    unfolding kernelvec_eq using M(1) by (simp add: rd_def)
  have "\<exists>m3. exec mmu ?rest m2 = Some (To_sepc, m3) \<and> m_mem m3 = m_mem m2 \<and> m_csrs m3 = m_csrs m2 \<and> m_regs m3 TP = m_regs m2 TP \<and>
      (\<forall>x. x \<notin> {ZERO, TP} \<longrightarrow> m_regs m3 x = m_regs m x)"
    if m2: "m_csrs m2 SATP = m_csrs m SATP" "\<forall>x \<in> {SP, S0, S1, S2, S3, S4, S5, S6, S7, S8, S9, S10, S11}. m_regs m2 x = m_regs ?m x"
      "\<forall>i < 256. 8 dvd i \<longrightarrow> load64 (m_mem m2) (base + of_nat i) = load64 M (base + of_nat i)" for m2
  proof (rule kernelvec_restores [where base = base])
    show "\<forall>(r, i) \<in> set kv_slots. load64 (m_mem m2) (base + of_nat i) = (if r = SP then m_regs m SP - 256 else m_regs m r)"
    proof clarify
      fix r i
      assume ri: "(r, i) \<in> set kv_slots"
      then have "i \<in> snd ` set kv_slots" "r \<noteq> ZERO" using slots_kv(1) by (force simp: slots_def)+
      then have "load64 (m_mem m2) (base + of_nat i) = load64 M (base + of_nat i)" using m2(3) kv_slots_small by blast
      also have "\<dots> = rd ?m r" using M(2) ri by blast
      finally show "load64 (m_mem m2) (base + of_nat i) = (if r = SP then m_regs m SP - 256 else m_regs m r)"
        using \<open>r \<noteq> ZERO\<close> by (simp add: rd_def)
    qed
  qed (use m2(1,2) assms in auto)
  with e show ?thesis by (intro exI [of _ ?rest] exI [of _ "?m\<lparr>m_mem := M\<rparr>"]) simp
qed

theorem kernelvec_transparent_witness:
  "\<exists>rest m1 m3. exec (\<lambda>_ a. a) kernelvec sample_mach = Some (Calls ''kerneltrap'' rest, m1) \<and> m_regs m1 SP = 0x8F00 \<and>
    exec (\<lambda>_ a. a) rest (m1\<lparr>m_regs := (m_regs m1)(A0 := 1, T0 := 2, RA := 3)\<rparr>) = Some (To_sepc, m3) \<and> m_regs m3 SP = 0x9000 \<and> m_regs m3 RA = 5"
proof -
  have "(\<lambda>_ a. a) (m_csrs sample_mach SATP) (m_regs sample_mach SP - 256 + of_nat i) = 0x8F00 + of_nat i" for i by (simp add: sample_mach_def)
  from kernelvec_transparent [where mmu = "\<lambda>_ a. a" and m = sample_mach and base = "0x8F00", OF this] obtain rest m1 where
    m: "exec (\<lambda>_ a. a) kernelvec sample_mach = Some (Calls ''kerneltrap'' rest, m1)" "m_regs m1 = (m_regs sample_mach)(SP := m_regs sample_mach SP - 256)" "m_csrs m1 = m_csrs sample_mach"
      "\<forall>m2. m_csrs m2 SATP = m_csrs sample_mach SATP \<and> (\<forall>x \<in> {SP, S0, S1, S2, S3, S4, S5, S6, S7, S8, S9, S10, S11}. m_regs m2 x = m_regs m1 x) \<and>
        (\<forall>i < 256. 8 dvd i \<longrightarrow> load64 (m_mem m2) (0x8F00 + of_nat i) = load64 (m_mem m1) (0x8F00 + of_nat i)) \<longrightarrow>
        (\<exists>m3. exec (\<lambda>_ a. a) rest m2 = Some (To_sepc, m3) \<and> m_mem m3 = m_mem m2 \<and> m_csrs m3 = m_csrs m2 \<and> m_regs m3 TP = m_regs m2 TP \<and>
          (\<forall>x. x \<notin> {ZERO, TP} \<longrightarrow> m_regs m3 x = m_regs sample_mach x))"
    by blast
  let ?m2 = "m1\<lparr>m_regs := (m_regs m1)(A0 := 1, T0 := 2, RA := 3)\<rparr>"
  obtain m3 where "exec (\<lambda>_ a. a) rest ?m2 = Some (To_sepc, m3)" "\<forall>x. x \<notin> {ZERO, TP} \<longrightarrow> m_regs m3 x = m_regs sample_mach x"
    using m(4) [rule_format, of ?m2] m(3) by auto
  with m(1,2) show ?thesis by (auto simp: sample_mach_def)
qed

end
