(* ===== verification/Spec2Isabelle.thy ===== *)
theory Spec2Isabelle
  imports Boot Inodes Ecall Asm
begin

text \<open>
  A verification development of xv6-riscv: the kernel under \<^verbatim>\<open>src/kernel\<close>, a small Unix for RISC-V
  multiprocessors, with the system call \<^verbatim>\<open>add\<close> of the lab.

  \<^bold>\<open>The state.\<close> \<open>Kstate\<close> has the kernel's data as one record \<open>kstate\<close>: the harts' control and status
  registers, the \<^verbatim>\<open>cpus\<close>, the spin locks (all in one map, by the place of the lock), physical memory as a
  function from 64-bit addresses to bytes, the free list, the process table, buffers, log, inodes,
  files, pipes, console and UART rings, the virtio queue, and as the environment the disk's blocks with a trace of
  the writes to it, the bytes sent and received by the UART and its line status readings. The structs
  of the code are records with its field names, prefixed; C's \<^verbatim>\<open>uint\<close>, \<^verbatim>\<open>uint64\<close> and \<^verbatim>\<open>uchar\<close> are words of
  their width, so counters wrap around as in C. \<open>Xv6_Prelude\<close> holds the word, byte and list
  lemmas and the result type: \<open>'a kres\<close> is \<open>stop + 'a \<times> kstate\<close>, with \<open>bindE\<close> for sequencing.
  A computation stops with a panic, a null dereference, a store past a local array, by going to sleep
  (with the state and the loop counter to resume from) or by waiting for ever.

  \<^bold>\<open>Concurrency.\<close> A handler runs from one sleep to the next on one hart; what other harts do in between is
  in the starting state of the next part, which is an arbitrary state satisfying the hypotheses. Mutual
  exclusion itself is proved in \<open>Spinlock\<close> on a step relation in which the single steps of
  \<^verbatim>\<open>acquire\<close> and \<^verbatim>\<open>release\<close> of all harts interleave. \<open>cpu_ok\<close>, \<open>lock_free\<close>, \<open>crit\<close> and \<open>locked_in\<close> carry
  the critical sections through the other proofs: a balanced section leaves \<open>crit s\<close>.

  \<^bold>\<open>The theories\<close>, in the order of the calls between them.
  \<^item> \<open>Spinlock\<close> (\<^verbatim>\<open>spinlock.c\<close>): \<^verbatim>\<open>push_off\<close> and \<^verbatim>\<open>pop_off\<close> balance, the interrupt flag, mutual exclusion.
  \<^item> \<open>Cstring\<close> (\<^verbatim>\<open>string.c\<close>): the copies, with overlap, and the string functions.
  \<^item> \<open>Kalloc\<close> (\<^verbatim>\<open>kalloc.c\<close>): the free list threaded through the free pages.
  \<^item> \<open>Vm\<close> (\<^verbatim>\<open>vm.c\<close>), \<open>Pagetable\<close> (what the page-table code achieves, over the tree of tables that the
    hardware walks) and \<open>Usercopy\<close> (\<^verbatim>\<open>copyin\<close>, \<^verbatim>\<open>copyout\<close>, \<^verbatim>\<open>copyinstr\<close>).
  \<^item> \<open>Procsync\<close> (the part of \<^verbatim>\<open>proc.c\<close> that switches: \<^verbatim>\<open>sched\<close>, \<^verbatim>\<open>sleep\<close>, \<^verbatim>\<open>wakeup\<close>, \<^verbatim>\<open>kill\<close>, \<^verbatim>\<open>scheduler\<close>).
  \<^item> \<open>Ring\<close>: the interface of a ring buffer with free-running indices, interpreted on the UART's
    transmit ring, the console's input ring and the pipe. \<open>Digits\<close>: positional notation.
  \<^item> \<open>Uart\<close> (\<^verbatim>\<open>uart.c\<close>), \<open>Printf\<close> (\<^verbatim>\<open>printf.c\<close>), \<open>Console\<close> (\<^verbatim>\<open>console.c\<close>).
  \<^item> \<open>Sleeplock\<close> (\<^verbatim>\<open>sleeplock.c\<close>), \<open>Bio\<close> (\<^verbatim>\<open>bio.c\<close>), \<open>Bcache\<close> (the contract \<open>block_cache\<close> of the buffer cache
    and its interpretation), \<open>Log\<close> (\<^verbatim>\<open>log.c\<close>), \<open>Commit\<close> (crash safety of the log, over that contract).
  \<^item> \<open>Fs\<close> (\<^verbatim>\<open>fs.c\<close>), \<open>Pipe\<close> (\<^verbatim>\<open>pipe.c\<close>), \<open>File\<close> (\<^verbatim>\<open>file.c\<close>), \<open>Proc\<close> (the life of a process in \<^verbatim>\<open>proc.c\<close>),
    \<open>Exec\<close> (\<^verbatim>\<open>exec.c\<close>), \<open>Sysargs\<close> and \<open>Syscall\<close> (\<^verbatim>\<open>syscall.c\<close>), \<open>Sysproc\<close> (\<^verbatim>\<open>sysproc.c\<close>, \<^verbatim>\<open>sysadd.c\<close>), \<open>Sysfile\<close>
    (\<^verbatim>\<open>sysfile.c\<close>), \<open>Virtio\<close> (\<^verbatim>\<open>virtio_disk.c\<close>), \<open>Trap\<close> (\<^verbatim>\<open>trap.c\<close>, \<^verbatim>\<open>plic.c\<close>), \<open>Boot\<close> (\<^verbatim>\<open>start.c\<close>, \<^verbatim>\<open>main.c\<close>).

  \<^bold>\<open>Loops.\<close> A loop is recursion on the number of rounds the code's bound gives (\<open>NPROC\<close>, \<open>NBUF\<close>, \<open>n\<close>), or
  a \<^theory_text>\<open>function\<close> with a measure; a walk over a linked list takes as many rounds as there are nodes,
  and more rounds mean a cyclic list, which stops as waiting for ever. Polling loops take the readings of the
  device from the state.

  \<^bold>\<open>The disk.\<close> The file-system layers use \<open>disk_rw\<close>, which transfers a block between a buffer and the disk in one
  step and records writes in \<open>dtrace\<close>; the driver with its descriptors and interrupts is in \<open>Virtio\<close>.
  A crash of the machine keeps the disk after a prefix of the writes and nothing else.

  \<^bold>\<open>Not modelled.\<close> The assembly files, the user programs under \<^verbatim>\<open>src/user\<close> and \<^verbatim>\<open>src/mkfs\<close>; weak memory
  ordering (the fences are no-ops of a sequentially consistent memory); the timing of devices.
\<close>

end
